(* ===== verification/Prelude.thy ===== *)
theory Prelude
  imports Main "HOL-Library.State_Monad" "HOL-Library.Char_ord" "HOL-Library.List_Lexorder"
begin

section \<open>Prelude: types, effects and automation shared by every component\<close>

text \<open>
  A Go string or byte slice is a \<^typ>\<open>string\<close>: a list of bytes, one \<^typ>\<open>char\<close> each,
  ordered bytewise (\<open>Char_ord\<close>, \<open>List_Lexorder\<close>), as Go orders strings.

  An effectful Go operation is an \<open>('w, 'a) act\<close>: a state transformer over a world of type
  \<open>'w\<close> (sequencing is the library's state monad, so a handler reads like the code). The
  world is abstract here; each interface of \<^verbatim>\<open>internal/domain/interfaces.go\<close> becomes a
  function into \<open>act\<close>, and the composition theory picks a concrete world.

  A Go error is a \<open>goerr\<close>: the sentinel that \<open>errors.Is\<close> finds in its chain, and the text
  of \<open>err.Error()\<close>. A fallible operation returns \<open>goerr + 'a\<close>.
\<close>

type_synonym bytes = string

type_synonym ('w, 'a) act = "('w, 'a) state"

abbreviation ret :: "'a \<Rightarrow> ('w, 'a) act" where
  "ret \<equiv> State_Monad.return"

abbreviation run :: "('w, 'a) act \<Rightarrow> 'w \<Rightarrow> 'a \<times> 'w" where
  "run \<equiv> run_state"

text \<open>The world after an action, and its result.\<close>

definition result :: "('w, 'a) act \<Rightarrow> 'w \<Rightarrow> 'a" where
  "result m w = fst (run m w)"

definition after :: "('w, 'a) act \<Rightarrow> 'w \<Rightarrow> 'w" where
  "after m w = snd (run m w)"

named_theorems world_simps \<open>result and final world of the monad's operations\<close>

lemma result_ret [world_simps, simp]: "result (ret x) w = x"
  by (simp add: result_def)

lemma after_ret [world_simps, simp]: "after (ret x) w = w"
  by (simp add: after_def)

lemma result_bind [world_simps]:
  "result (State_Monad.bind m f) w = result (f (result m w)) (after m w)"
  by (simp add: result_def after_def split: prod.splits)

lemma after_bind [world_simps]:
  "after (State_Monad.bind m f) w = after (f (result m w)) (after m w)"
  by (simp add: result_def after_def split: prod.splits)

lemma run_result_after: "run m w = (result m w, after m w)"
  by (simp add: result_def after_def)

lemma result_State [simp]: "result (State f) w = fst (f w)"
  by (simp add: result_def)

lemma after_State [simp]: "after (State f) w = snd (f w)"
  by (simp add: after_def)

text \<open>A relation between the world before and after, kept by sequencing.\<close>

definition keeps :: "('w \<Rightarrow> 'v) \<Rightarrow> ('w, 'a) act \<Rightarrow> bool" where
  "keeps obs m \<longleftrightarrow> (\<forall>w. obs (after m w) = obs w)"

named_theorems keeps_intros \<open>actions that leave an observation of the world as it is\<close>

lemma keepsD: "keeps obs m \<Longrightarrow> obs (after m w) = obs w"
  by (simp add: keeps_def)

lemma keeps_ret [keeps_intros, simp]: "keeps obs (ret x)"
  by (simp add: keeps_def)

lemma keeps_bind [keeps_intros]:
  "keeps obs m \<Longrightarrow> (\<And>x. keeps obs (f x)) \<Longrightarrow> keeps obs (State_Monad.bind m f)"
  by (simp add: keeps_def after_bind)

lemma keeps_sum [keeps_intros]:
  "(\<And>e. r = Inl e \<Longrightarrow> keeps obs (f e)) \<Longrightarrow> (\<And>x. r = Inr x \<Longrightarrow> keeps obs (g x)) \<Longrightarrow>
     keeps obs (case r of Inl e \<Rightarrow> f e | Inr x \<Rightarrow> g x)"
  by (cases r) auto

lemma keeps_if [keeps_intros]:
  "(b \<Longrightarrow> keeps obs m) \<Longrightarrow> (\<not> b \<Longrightarrow> keeps obs n) \<Longrightarrow> keeps obs (if b then m else n)"
  by simp

lemma keeps_option [keeps_intros]:
  "(r = None \<Longrightarrow> keeps obs f) \<Longrightarrow> (\<And>x. r = Some x \<Longrightarrow> keeps obs (g x)) \<Longrightarrow>
     keeps obs (case r of None \<Rightarrow> f | Some x \<Rightarrow> g x)"
  by (cases r) auto

subsection \<open>Errors\<close>

text \<open>The sentinels of \<^verbatim>\<open>internal/domain/errors.go\<close>; \<open>NoSentinel\<close> is an error that wraps none.\<close>

datatype sentinel =
    ErrUnauthenticated
  | ErrUnauthorized
  | ErrServiceUnavailable
  | ErrInvalidRequest
  | ErrNoRoute
  | ErrNotConnected
  | NoSentinel

datatype goerr = GoErr (err_is: sentinel) (err_text: string)

definition sentinel_text :: "sentinel \<Rightarrow> string" where
  "sentinel_text s = (case s of
     ErrUnauthenticated \<Rightarrow> ''unauthenticated: no identity credential present''
   | ErrUnauthorized \<Rightarrow> ''unauthorized: insufficient entitlements''
   | ErrServiceUnavailable \<Rightarrow> ''service unavailable: upstream dependency unreachable''
   | ErrInvalidRequest \<Rightarrow> ''invalid request: does not conform to JSON-RPC 2.0''
   | ErrNoRoute \<Rightarrow> ''invalid params: no route configured for tool prefix''
   | ErrNotConnected \<Rightarrow> ''not connected: no token pair found for user+provider''
   | NoSentinel \<Rightarrow> '''')"

text \<open>\<open>ErrXxx\<close> returned as it is, and \<open>fmt.Errorf("%w: detail", ErrXxx)\<close>.\<close>

definition bare_err :: "sentinel \<Rightarrow> goerr" where
  "bare_err s = GoErr s (sentinel_text s)"

definition wrap_err :: "sentinel \<Rightarrow> string \<Rightarrow> goerr" where
  "wrap_err s detail = GoErr s (sentinel_text s @ '': '' @ detail)"

text \<open>\<open>fmt.Errorf("prefix: %w", err)\<close> keeps the chain; \<open>fmt.Errorf("text")\<close> starts a new one.\<close>

definition prefix_err :: "string \<Rightarrow> goerr \<Rightarrow> goerr" where
  "prefix_err pre e = GoErr (err_is e) (pre @ err_text e)"

definition plain_err :: "string \<Rightarrow> goerr" where
  "plain_err t = GoErr NoSentinel t"

lemma err_is_simps [simp]:
  "err_is (bare_err s) = s" "err_is (wrap_err s d) = s"
  "err_is (prefix_err p e) = err_is e" "err_is (plain_err t) = NoSentinel"
  by (simp_all add: bare_err_def wrap_err_def prefix_err_def plain_err_def)

subsection \<open>Generic list lemmas\<close>

lemma takeWhile_dropWhile_stop:
  "(\<And>x. x \<in> set xs \<Longrightarrow> P x) \<Longrightarrow> ys = [] \<or> \<not> P (hd ys) \<Longrightarrow>
     takeWhile P (xs @ ys) = xs \<and> dropWhile P (xs @ ys) = ys"
  by (cases ys) (auto simp: takeWhile_append dropWhile_append)

text \<open>Order-preserving removal of duplicates, first occurrence kept, against a seen list.\<close>

fun add_new :: "'a list \<Rightarrow> 'a list \<Rightarrow> 'a list" where
  "add_new seen [] = []"
| "add_new seen (x # xs) = (if x \<in> set seen then add_new seen xs else x # add_new (x # seen) xs)"

lemma set_add_new: "set (add_new seen xs) = set xs - set seen"
  by (induction seen xs rule: add_new.induct) auto

lemma distinct_add_new: "distinct (add_new seen xs)"
  by (induction seen xs rule: add_new.induct) (auto simp: set_add_new)

end
