(* ===== verification/GoStrings.thy ===== *)
theory GoStrings
  imports Prelude
begin

section \<open>Go's \<open>strings\<close> package, as far as the source uses it\<close>

text \<open>
  \<open>HasPrefix\<close>, \<open>TrimPrefix\<close>, \<open>Index\<close>, \<open>Contains\<close>, \<open>Split\<close>, \<open>SplitN\<close>, \<open>TrimSpace\<close>,
  \<open>TrimRight\<close>, and decimal numbers, on byte strings.
\<close>

subsection \<open>Prefixes and search\<close>

fun has_prefix :: "string \<Rightarrow> string \<Rightarrow> bool" where
  "has_prefix s [] = True"
| "has_prefix [] (p # ps) = False"
| "has_prefix (c # s) (p # ps) = (c = p \<and> has_prefix s ps)"

lemma has_prefix_iff: "has_prefix s p \<longleftrightarrow> (\<exists>t. s = p @ t)"
  by (induction s p rule: has_prefix.induct) auto

lemma has_prefix_append [simp]: "has_prefix (p @ t) p"
  by (simp add: has_prefix_iff)

lemma has_prefix_append_same [simp]: "has_prefix (p @ s) (p @ q) = has_prefix s q"
  by (simp add: has_prefix_iff)

lemma has_prefix_length: "has_prefix s p \<Longrightarrow> length p \<le> length s"
  by (auto simp: has_prefix_iff)

definition trim_prefix :: "string \<Rightarrow> string \<Rightarrow> string" where
  "trim_prefix s p = (if has_prefix s p then drop (length p) s else s)"

lemma trim_prefix_append [simp]: "trim_prefix (p @ t) p = t"
  by (simp add: trim_prefix_def)

lemma trim_prefix_same_iff: "trim_prefix s p = s \<longleftrightarrow> p = [] \<or> \<not> has_prefix s p"
  by (auto simp: trim_prefix_def has_prefix_iff)

definition has_suffix :: "string \<Rightarrow> string \<Rightarrow> bool" where
  "has_suffix s p = has_prefix (rev s) (rev p)"

lemma has_suffix_iff: "has_suffix s p \<longleftrightarrow> (\<exists>t. s = t @ p)"
proof -
  have "(\<exists>t. rev s = rev p @ t) \<longleftrightarrow> (\<exists>t. s = t @ p)"
    by (metis rev_append rev_rev_ident)
  then show ?thesis by (simp add: has_suffix_def has_prefix_iff)
qed

text \<open>\<open>strings.Index\<close>: \<open>None\<close> is the code's \<open>-1\<close>.\<close>

fun index_str :: "string \<Rightarrow> string \<Rightarrow> nat option" where
  "index_str [] sub = (if sub = [] then Some 0 else None)"
| "index_str (c # s) sub =
     (if has_prefix (c # s) sub then Some 0 else map_option Suc (index_str s sub))"

definition contains :: "string \<Rightarrow> string \<Rightarrow> bool" where
  "contains s sub = (index_str s sub \<noteq> None)"

lemma index_str_char:
  "index_str s [c] = (if c \<in> set s then Some (length (takeWhile (\<lambda>x. x \<noteq> c) s)) else None)"
  by (induction s) auto

lemma contains_char [simp]: "contains s [c] \<longleftrightarrow> c \<in> set s"
  by (simp add: contains_def index_str_char)

lemma contains_iff: "contains s sub \<longleftrightarrow> (\<exists>a b. s = a @ sub @ b)"
proof (induction s)
  case Nil
  show ?case by (auto simp: contains_def)
next
  case (Cons c s)
  show ?case
  proof (cases "has_prefix (c # s) sub")
    case True
    then obtain b where "c # s = [] @ sub @ b" by (auto simp: has_prefix_iff)
    moreover have "contains (c # s) sub" using True by (simp add: contains_def)
    ultimately show ?thesis by blast
  next
    case False
    then have "contains (c # s) sub \<longleftrightarrow> contains s sub" by (simp add: contains_def)
    also have "\<dots> \<longleftrightarrow> (\<exists>a b. c # s = a @ sub @ b)"
      using False unfolding Cons.IH
      by (auto simp: has_prefix_iff Cons_eq_append_conv)
    finally show ?thesis .
  qed
qed

subsection \<open>Splitting\<close>

text \<open>\<open>strings.Split(s, sep)\<close> and \<open>strings.SplitN(s, sep, 2)\<close> for a one-byte separator.\<close>

fun split_on :: "char \<Rightarrow> string \<Rightarrow> string list" where
  "split_on c [] = [[]]"
| "split_on c (x # xs) =
     (if x = c then [] # split_on c xs
      else (case split_on c xs of [] \<Rightarrow> [[x]] | y # ys \<Rightarrow> (x # y) # ys))"

definition split_n2 :: "char \<Rightarrow> string \<Rightarrow> string list" where
  "split_n2 c s =
     (if c \<in> set s then [takeWhile (\<lambda>x. x \<noteq> c) s, tl (dropWhile (\<lambda>x. x \<noteq> c) s)] else [s])"

lemma takeWhile_neq [simp]: "c \<notin> set a \<Longrightarrow> takeWhile (\<lambda>x. x \<noteq> c) (a @ c # s) = a"
  by (induction a) auto

lemma dropWhile_neq [simp]: "c \<notin> set a \<Longrightarrow> dropWhile (\<lambda>x. x \<noteq> c) (a @ c # s) = c # s"
  by (induction a) auto

lemma takeWhile_neq_all: "c \<notin> set a \<Longrightarrow> takeWhile (\<lambda>x. x \<noteq> c) a = a"
  by (induction a) auto

lemma split_on_ne [simp]: "split_on c s \<noteq> []"
  by (induction c s rule: split_on.induct) (auto split: list.splits)

lemma split_on_none: "c \<notin> set s \<Longrightarrow> split_on c s = [s]"
  by (induction c s rule: split_on.induct) auto

lemma split_on_append: "c \<notin> set a \<Longrightarrow> split_on c (a @ c # s) = a # split_on c s"
  by (induction a) auto

lemma split_n2_append: "c \<notin> set a \<Longrightarrow> split_n2 c (a @ c # s) = [a, s]"
  by (simp add: split_n2_def)

subsection \<open>The segment before the first slash\<close>

text \<open>
  \<open>toolPrefix\<close> is written out three times in the source (\<^verbatim>\<open>domain/dryrun.go\<close>,
  \<^verbatim>\<open>proxy/jsonrpc.go\<close>, \<^verbatim>\<open>config/loader.go\<close>), each time as \<open>s[:i]\<close> for the index
  of the first slash, and \<open>s\<close> itself when there is none.
\<close>

definition tool_prefix :: "string \<Rightarrow> string" where
  "tool_prefix s = (case index_str s ''/'' of Some i \<Rightarrow> take i s | None \<Rightarrow> s)"

lemma tool_prefix_takeWhile: "tool_prefix s = takeWhile (\<lambda>x. x \<noteq> CHR ''/'') s"
proof -
  have "take (length (takeWhile (\<lambda>x. x \<noteq> CHR ''/'') s)) s = takeWhile (\<lambda>x. x \<noteq> CHR ''/'') s"
    by (metis append_eq_conv_conj takeWhile_dropWhile_id)
  then show ?thesis
    by (simp add: tool_prefix_def index_str_char takeWhile_neq_all)
qed

lemma tool_prefix_qualified [simp]:
  "CHR ''/'' \<notin> set p \<Longrightarrow> tool_prefix (p @ CHR ''/'' # t) = p"
  by (simp add: tool_prefix_takeWhile)

lemma tool_prefix_plain [simp]: "CHR ''/'' \<notin> set s \<Longrightarrow> tool_prefix s = s"
  by (simp add: tool_prefix_takeWhile takeWhile_neq_all)

lemma tool_prefix_no_slash: "CHR ''/'' \<notin> set (tool_prefix s)"
  by (auto simp: tool_prefix_takeWhile dest: set_takeWhileD)

lemma tool_prefix_split:
  "CHR ''/'' \<in> set s \<Longrightarrow> \<exists>t. s = tool_prefix s @ CHR ''/'' # t"
  by (metis split_list_first tool_prefix_qualified)

subsection \<open>White space\<close>

text \<open>
  \<open>strings.TrimSpace\<close> removes the code points of Unicode's \<open>White_Space\<close> property: six ASCII
  bytes, and the UTF-8 sequences of U+0085, U+00A0, U+1680, U+2000 to U+200A, U+2028, U+2029,
  U+202F, U+205F and U+3000.
\<close>

definition space_seqs :: "string list" where
  "space_seqs =
     [''\<newline>'', '' '', [CHR 0x09], [CHR 0x0B], [CHR 0x0C], [CHR 0x0D],
      [CHR 0xC2, CHR 0x85], [CHR 0xC2, CHR 0xA0], [CHR 0xE1, CHR 0x9A, CHR 0x80],
      [CHR 0xE2, CHR 0x80, CHR 0x80], [CHR 0xE2, CHR 0x80, CHR 0x81],
      [CHR 0xE2, CHR 0x80, CHR 0x82], [CHR 0xE2, CHR 0x80, CHR 0x83],
      [CHR 0xE2, CHR 0x80, CHR 0x84], [CHR 0xE2, CHR 0x80, CHR 0x85],
      [CHR 0xE2, CHR 0x80, CHR 0x86], [CHR 0xE2, CHR 0x80, CHR 0x87],
      [CHR 0xE2, CHR 0x80, CHR 0x88], [CHR 0xE2, CHR 0x80, CHR 0x89],
      [CHR 0xE2, CHR 0x80, CHR 0x8A], [CHR 0xE2, CHR 0x80, CHR 0xA8],
      [CHR 0xE2, CHR 0x80, CHR 0xA9], [CHR 0xE2, CHR 0x80, CHR 0xAF],
      [CHR 0xE2, CHR 0x81, CHR 0x9F], [CHR 0xE3, CHR 0x80, CHR 0x80]]"

fun strip_left :: "string list \<Rightarrow> nat \<Rightarrow> string \<Rightarrow> string" where
  "strip_left seqs 0 s = s"
| "strip_left seqs (Suc n) s =
     (case find (has_prefix s) seqs of
        None \<Rightarrow> s
      | Some q \<Rightarrow> strip_left seqs n (drop (length q) s))"

definition trim_space :: "string \<Rightarrow> string" where
  "trim_space s =
     (let l = strip_left space_seqs (length s) s
      in rev (strip_left (map rev space_seqs) (length l) (rev l)))"

definition trim_right_cr :: "string \<Rightarrow> string" where
  "trim_right_cr s = rev (dropWhile (\<lambda>c. c = CHR 0x0D) (rev s))"

text \<open>The fuel \<open>length s\<close> is enough: every sequence removed has at least one byte.\<close>

lemma strip_left_done:
  assumes "\<forall>q \<in> set seqs. q \<noteq> []" and "length s \<le> n"
  shows "find (has_prefix (strip_left seqs n s)) seqs = None"
  using assms(2)
proof (induction n arbitrary: s)
  case 0
  then have "s = []" by simp
  moreover have "\<not> has_prefix [] q" if "q \<in> set seqs" for q
    using assms(1) that by (cases q) auto
  ultimately show ?case by (simp add: find_None_iff)
next
  case (Suc n)
  show ?case
  proof (cases "find (has_prefix s) seqs")
    case None
    then show ?thesis by simp
  next
    case (Some q)
    then have "q \<in> set seqs" and "has_prefix s q" by (auto simp: find_Some_iff)
    then have "length (drop (length q) s) \<le> n"
      using assms(1) Suc.prems has_prefix_length [of s q]
      by (metis diff_le_mono2 diff_Suc_1 length_drop length_greater_0_conv Suc_leI le_trans
          One_nat_def diff_le_mono)
    with Suc.IH Some show ?thesis by simp
  qed
qed

lemma strip_left_id: "find (has_prefix s) seqs = None \<Longrightarrow> strip_left seqs n s = s"
  by (cases n) auto

subsection \<open>Decimal numbers\<close>

definition digit_char :: "nat \<Rightarrow> char" where
  "digit_char d = char_of (48 + d)"

fun show_nat :: "nat \<Rightarrow> string" where
  "show_nat n = (if n < 10 then [digit_char n] else show_nat (n div 10) @ [digit_char (n mod 10)])"

declare show_nat.simps [simp del]

definition show_int :: "int \<Rightarrow> string" where
  "show_int i = (if i < 0 then CHR ''-'' # show_nat (nat (- i)) else show_nat (nat i))"

definition is_digit :: "char \<Rightarrow> bool" where
  "is_digit c \<longleftrightarrow> 48 \<le> (of_char c :: nat) \<and> (of_char c :: nat) \<le> 57"

lemma is_digit_digit_char [simp]: "d < 10 \<Longrightarrow> is_digit (digit_char d)"
  by (simp add: is_digit_def digit_char_def)

lemma show_nat_ne [simp]: "show_nat n \<noteq> []"
  by (subst show_nat.simps) simp

lemma show_nat_digits: "c \<in> set (show_nat n) \<Longrightarrow> is_digit c"
proof (induction n rule: show_nat.induct)
  case (1 n)
  then show ?case
    by (cases "n < 10") (auto simp: show_nat.simps [of n])
qed

end
