(* ===== verification/GoUtf8.thy ===== *)
theory GoUtf8
  imports GoStrings
begin

section \<open>UTF-8 as Go's \<open>unicode/utf8\<close> reads it\<close>

text \<open>
  \<open>utf8.DecodeRune\<close> accepts exactly the well-formed sequences of the Unicode standard (no
  overlong forms, no surrogates, nothing above U+10FFFF) and treats every other byte as an
  error of width one. \<open>rune_width\<close> is the width of the first rune, \<open>None\<close> for the error.
\<close>

abbreviation byte :: "char \<Rightarrow> nat" where
  "byte c \<equiv> of_char c"

lemma byte_less: "byte c < 256"
  by (rule nat_of_char_less_256)

definition cont_byte :: "char \<Rightarrow> bool" where
  "cont_byte c \<longleftrightarrow> 0x80 \<le> byte c \<and> byte c < 0xC0"

text \<open>The second byte's range depends on the first (Go's \<open>acceptRanges\<close>).\<close>

definition second_ok :: "nat \<Rightarrow> char \<Rightarrow> bool" where
  "second_ok x c \<longleftrightarrow>
     (if x = 0xE0 then 0xA0 \<le> byte c \<and> byte c < 0xC0
      else if x = 0xED then 0x80 \<le> byte c \<and> byte c < 0xA0
      else if x = 0xF0 then 0x90 \<le> byte c \<and> byte c < 0xC0
      else if x = 0xF4 then 0x80 \<le> byte c \<and> byte c < 0x90
      else cont_byte c)"

text \<open>The width a lead byte announces, and the check of the bytes that follow it.\<close>

definition lead_width :: "nat \<Rightarrow> nat option" where
  "lead_width x =
     (if x < 0x80 then Some 1
      else if x < 0xC2 then None
      else if x < 0xE0 then Some 2
      else if x < 0xF0 then Some 3
      else if x < 0xF5 then Some 4
      else None)"

definition tail_ok :: "nat \<Rightarrow> bytes \<Rightarrow> bool" where
  "tail_ok x q = (case q of [] \<Rightarrow> True | b # r \<Rightarrow> second_ok x b \<and> list_all cont_byte r)"

definition rune_width :: "bytes \<Rightarrow> nat option" where
  "rune_width s =
     (case s of
        [] \<Rightarrow> None
      | a # r \<Rightarrow>
         (case lead_width (byte a) of
            None \<Rightarrow> None
          | Some n \<Rightarrow>
              if n \<le> length s \<and> tail_ok (byte a) (take (n - 1) r) then Some n else None))"

lemma lead_width_pos: "lead_width x = Some n \<Longrightarrow> 0 < n"
  by (auto simp: lead_width_def split: if_splits)

lemma rune_width_Some_iff:
  "rune_width (a # r) = Some n \<longleftrightarrow>
     lead_width (byte a) = Some n \<and> n \<le> Suc (length r) \<and> tail_ok (byte a) (take (n - 1) r)"
  by (auto simp: rune_width_def split: option.splits)

lemma rune_width_Nil [simp]: "rune_width [] = None"
  by (simp add: rune_width_def)

lemma rune_width_bounds: "rune_width s = Some n \<Longrightarrow> 0 < n \<and> n \<le> length s"
  by (cases s) (auto simp: rune_width_Some_iff lead_width_pos)

lemma rune_width_ascii [simp]: "byte a < 0x80 \<Longrightarrow> rune_width (a # r) = Some 1"
  by (simp add: rune_width_Some_iff lead_width_def tail_ok_def)

text \<open>Whether the first rune is well formed depends on its own bytes only.\<close>

lemma rune_width_take:
  assumes "rune_width s = Some n"
  shows "rune_width (take n s @ t) = Some n"
proof (cases s)
  case Nil
  with assms show ?thesis by simp
next
  case (Cons a r)
  with assms have "lead_width (byte a) = Some n" "n \<le> Suc (length r)"
      "tail_ok (byte a) (take (n - 1) r)" and "0 < n"
    by (auto simp: rune_width_Some_iff lead_width_pos)
  moreover obtain m where "n = Suc m" using \<open>0 < n\<close> by (cases n) auto
  ultimately show ?thesis using Cons by (simp add: rune_width_Some_iff)
qed

lemma rune_width_ext: "rune_width s = Some n \<Longrightarrow> rune_width (s @ t) = Some n"
  using rune_width_take [of s n "drop n s @ t"] by (metis append_assoc append_take_drop_id)

text \<open>\<open>utf8.Valid\<close>.\<close>

function utf8_valid :: "bytes \<Rightarrow> bool" where
  "utf8_valid s =
     (if s = [] then True
      else case rune_width s of None \<Rightarrow> False | Some n \<Rightarrow> utf8_valid (drop n s))"
  by pat_completeness auto
termination
  by (relation "measure length") (auto dest: rune_width_bounds)

declare utf8_valid.simps [simp del]

lemma utf8_valid_Nil [simp]: "utf8_valid []"
  by (simp add: utf8_valid.simps)

lemma utf8_valid_ascii [simp]: "byte a < 0x80 \<Longrightarrow> utf8_valid (a # r) = utf8_valid r"
  by (subst utf8_valid.simps) simp

lemma utf8_valid_all_ascii: "(\<And>c. c \<in> set s \<Longrightarrow> byte c < 0x80) \<Longrightarrow> utf8_valid s"
  by (induction s) auto

text \<open>U+FFFD, which Go writes for a byte that is not valid UTF-8.\<close>

definition rune_error :: bytes where
  "rune_error = [CHR 0xEF, CHR 0xBF, CHR 0xBD]"

text \<open>\<open>utf8.AppendRune\<close>; surrogates and values above U+10FFFF become U+FFFD.\<close>

definition encode_rune :: "nat \<Rightarrow> bytes" where
  "encode_rune r =
     (if r < 0x80 then [char_of r]
      else if r < 0x800 then [char_of (0xC0 + r div 64), char_of (0x80 + r mod 64)]
      else if (0xD800 \<le> r \<and> r < 0xE000) \<or> 0x10FFFF < r then rune_error
      else if r < 0x10000 then
        [char_of (0xE0 + r div 4096), char_of (0x80 + r div 64 mod 64), char_of (0x80 + r mod 64)]
      else [char_of (0xF0 + r div 262144), char_of (0x80 + r div 4096 mod 64),
            char_of (0x80 + r div 64 mod 64), char_of (0x80 + r mod 64)])"

text \<open>The code point of a well-formed sequence of the given width.\<close>

definition rune_value :: "bytes \<Rightarrow> nat" where
  "rune_value q =
     (case q of
        [a] \<Rightarrow> byte a
      | [a, b] \<Rightarrow> (byte a - 0xC0) * 64 + (byte b - 0x80)
      | [a, b, c] \<Rightarrow> (byte a - 0xE0) * 4096 + (byte b - 0x80) * 64 + (byte c - 0x80)
      | [a, b, c, d] \<Rightarrow> (byte a - 0xF0) * 262144 + (byte b - 0x80) * 4096
                        + (byte c - 0x80) * 64 + (byte d - 0x80)
      | _ \<Rightarrow> 0xFFFD)"

end
