(* ===== verification/GoJson.thy ===== *)
theory GoJson
  imports GoUtf8
begin

section \<open>Go's \<open>encoding/json\<close>: parsing and printing\<close>

text \<open>
  The source uses \<open>json.Unmarshal\<close> and \<open>json.Marshal\<close> on every message, so they are modelled
  on bytes. A parsed value keeps what a \<open>json.RawMessage\<close> keeps: the text of its numbers and
  the bodies of its string literals as they were written (without the white space between
  tokens, which no user of a \<open>RawMessage\<close> in the source can see: it is only parsed again or
  printed by \<open>Marshal\<close>, which compacts it).
\<close>

datatype json =
    JNull
  | JBool bool
  | JNum string
  | JStr string
  | JArr "json list"
  | JObj "(string \<times> json) list"

subsection \<open>The scanner\<close>

definition is_ws :: "char \<Rightarrow> bool" where
  "is_ws c \<longleftrightarrow> c = CHR '' '' \<or> c = CHR 0x09 \<or> c = CHR 0x0A \<or> c = CHR 0x0D"

abbreviation skip_ws :: "string \<Rightarrow> string" where
  "skip_ws \<equiv> dropWhile is_ws"

abbreviation quote_char :: char where
  "quote_char \<equiv> CHR 0x22"

abbreviation backslash :: char where
  "backslash \<equiv> CHR 0x5C"

definition hex_val :: "char \<Rightarrow> nat option" where
  "hex_val c =
     (let x = byte c in
      if 48 \<le> x \<and> x \<le> 57 then Some (x - 48)
      else if 97 \<le> x \<and> x \<le> 102 then Some (x - 87)
      else if 65 \<le> x \<and> x \<le> 70 then Some (x - 55)
      else None)"

text \<open>\<open>hex4 q\<close> reads exactly four hexadecimal digits.\<close>

definition hex4 :: "string \<Rightarrow> nat option" where
  "hex4 q =
     (case q of
        [a, b, c, d] \<Rightarrow>
          (case (hex_val a, hex_val b, hex_val c, hex_val d) of
             (Some w, Some x, Some y, Some z) \<Rightarrow> Some (((w * 16 + x) * 16 + y) * 16 + z)
           | _ \<Rightarrow> None)
      | _ \<Rightarrow> None)"

definition simple_escape :: "char \<Rightarrow> char option" where
  "simple_escape e = map_of
     [(quote_char, quote_char), (backslash, backslash), (CHR ''/'', CHR ''/''),
      (CHR ''b'', CHR 0x08), (CHR ''f'', CHR 0x0C), (CHR ''n'', CHR 0x0A),
      (CHR ''r'', CHR 0x0D), (CHR ''t'', CHR 0x09)] e"

text \<open>The body of a string literal, after its opening quote: the raw body and the rest.\<close>

definition cons_fst :: "'a list \<Rightarrow> ('a list \<times> 'b) option \<Rightarrow> ('a list \<times> 'b) option" where
  "cons_fst p r = map_option (\<lambda>(b, t). (p @ b, t)) r"

lemma cons_fst_Some: "cons_fst p r = Some (b, t) \<longleftrightarrow> (\<exists>b'. r = Some (b', t) \<and> b = p @ b')"
  by (auto simp: cons_fst_def)

lemma cons_fst_simps [simp]: "cons_fst p None = None" "cons_fst p (Some (b, t)) = Some (p @ b, t)"
  by (simp_all add: cons_fst_def)

lemma cons_fst_Nil [simp]: "cons_fst [] r = r"
  by (simp add: cons_fst_def option.map_ident split: prod.splits) (cases r; simp)

lemma cons_fst_cons_fst [simp]: "cons_fst p (cons_fst q r) = cons_fst (p @ q) r"
  by (cases r) auto

function scan_str :: "string \<Rightarrow> (string \<times> string) option" where
  "scan_str s =
     (case s of
        [] \<Rightarrow> None
      | c # r \<Rightarrow>
          if c = quote_char then Some ([], r)
          else if c = backslash then
            (case r of
               [] \<Rightarrow> None
             | e # r' \<Rightarrow>
                 if simple_escape e \<noteq> None then cons_fst [c, e] (scan_str r')
                 else if e = CHR ''u'' \<and> hex4 (take 4 r') \<noteq> None
                   then cons_fst ([c, e] @ take 4 r') (scan_str (drop 4 r'))
                 else None)
          else if byte c < 0x20 then None
          else cons_fst [c] (scan_str r))"
  by pat_completeness auto
termination
  by (relation "measure length") auto

declare scan_str.simps [simp del]

definition scan_frac :: "string \<Rightarrow> (string \<times> string) option" where
  "scan_frac s =
     (case s of
        c # r \<Rightarrow>
          if c = CHR ''.'' then
            (if takeWhile is_digit r = [] then None
             else Some (c # takeWhile is_digit r, dropWhile is_digit r))
          else Some ([], s)
      | [] \<Rightarrow> Some ([], s))"

definition scan_sign :: "char set \<Rightarrow> string \<Rightarrow> string \<times> string" where
  "scan_sign signs s = (case s of c # r \<Rightarrow> if c \<in> signs then ([c], r) else ([], s) | [] \<Rightarrow> ([], s))"

definition scan_exp :: "string \<Rightarrow> (string \<times> string) option" where
  "scan_exp s =
     (case s of
        c # r \<Rightarrow>
          if c = CHR ''e'' \<or> c = CHR ''E'' then
            (case scan_sign {CHR ''+'', CHR ''-''} r of
               (sg, r') \<Rightarrow>
                 if takeWhile is_digit r' = [] then None
                 else Some (c # sg @ takeWhile is_digit r', dropWhile is_digit r'))
          else Some ([], s)
      | [] \<Rightarrow> Some ([], s))"

definition scan_int :: "string \<Rightarrow> (string \<times> string) option" where
  "scan_int s =
     (case s of
        c # r \<Rightarrow>
          if c = CHR ''0'' then Some ([c], r)
          else if is_digit c then Some (takeWhile is_digit s, dropWhile is_digit s)
          else None
      | [] \<Rightarrow> None)"

definition scan_num :: "string \<Rightarrow> (string \<times> string) option" where
  "scan_num s =
     (case scan_sign {CHR ''-''} s of (sg, s1) \<Rightarrow>
        (case scan_int s1 of None \<Rightarrow> None | Some (ip, s2) \<Rightarrow>
        (case scan_frac s2 of None \<Rightarrow> None | Some (fr, s3) \<Rightarrow>
        (case scan_exp s3 of None \<Rightarrow> None | Some (ex, s4) \<Rightarrow> Some (sg @ ip @ fr @ ex, s4)))))"

subsection \<open>The parser\<close>

text \<open>
  Recursive descent with fuel \<open>n\<close> and a remaining nesting allowance \<open>d\<close> (Go refuses to nest
  deeper than 10000). \<open>pelems\<close> and \<open>pmems\<close> read the elements of an array or the members of an
  object up to and including the closing bracket.
\<close>

definition keyword :: "string \<Rightarrow> json \<Rightarrow> string \<Rightarrow> (json \<times> string) option" where
  "keyword kw j s = (if has_prefix s kw then Some (j, drop (length kw) s) else None)"

fun pval :: "nat \<Rightarrow> int \<Rightarrow> string \<Rightarrow> (json \<times> string) option"
  and pelems :: "nat \<Rightarrow> int \<Rightarrow> string \<Rightarrow> (json list \<times> string) option"
  and pmems :: "nat \<Rightarrow> int \<Rightarrow> string \<Rightarrow> ((string \<times> json) list \<times> string) option" where
  "pval 0 d s = None"
| "pval (Suc n) d s =
     (case skip_ws s of
        [] \<Rightarrow> None
      | c # r \<Rightarrow>
          if c = CHR ''{'' then
            (if d \<le> 0 then None
             else case skip_ws r of
                 [] \<Rightarrow> None
               | c' # r' \<Rightarrow>
                   if c' = CHR ''}'' then Some (JObj [], r')
                   else map_option (map_prod JObj id) (pmems n (d - 1) r))
          else if c = CHR ''['' then
            (if d \<le> 0 then None
             else case skip_ws r of
                 [] \<Rightarrow> None
               | c' # r' \<Rightarrow>
                   if c' = CHR '']'' then Some (JArr [], r')
                   else map_option (map_prod JArr id) (pelems n (d - 1) r))
          else if c = quote_char then map_option (map_prod JStr id) (scan_str r)
          else if c = CHR ''t'' then keyword ''rue'' (JBool True) r
          else if c = CHR ''f'' then keyword ''alse'' (JBool False) r
          else if c = CHR ''n'' then keyword ''ull'' JNull r
          else map_option (map_prod JNum id) (scan_num (c # r)))"
| "pelems 0 d s = None"
| "pelems (Suc n) d s =
     (case pval n d s of
        None \<Rightarrow> None
      | Some (v, r) \<Rightarrow>
          (case skip_ws r of
             [] \<Rightarrow> None
           | c # r' \<Rightarrow>
               if c = CHR '']'' then Some ([v], r')
               else if c = CHR '','' then map_option (map_prod ((#) v) id) (pelems n d r')
               else None))"
| "pmems 0 d s = None"
| "pmems (Suc n) d s =
     (case skip_ws s of
        [] \<Rightarrow> None
      | q # r \<Rightarrow>
          if q \<noteq> quote_char then None
          else (case scan_str r of
              None \<Rightarrow> None
            | Some (k, r1) \<Rightarrow>
                (case skip_ws r1 of
                   [] \<Rightarrow> None
                 | c # r2 \<Rightarrow>
                     if c \<noteq> CHR '':'' then None
                     else (case pval n d r2 of
                         None \<Rightarrow> None
                       | Some (v, r3) \<Rightarrow>
                           (case skip_ws r3 of
                              [] \<Rightarrow> None
                            | e # r4 \<Rightarrow>
                                if e = CHR ''}'' then Some ([(k, v)], r4)
                                else if e = CHR '','' then
                                  map_option (map_prod ((#) (k, v)) id) (pmems n d r4)
                                else None)))))"

definition max_nesting :: int where
  "max_nesting = 10000"

definition json_parse :: "bytes \<Rightarrow> json option" where
  "json_parse s =
     (case pval (2 * length s + 1) max_nesting s of
        None \<Rightarrow> None
      | Some (j, r) \<Rightarrow> if skip_ws r = [] then Some j else None)"

subsection \<open>The printer\<close>

fun commas :: "string list \<Rightarrow> string" where
  "commas [] = []"
| "commas [x] = x"
| "commas (x # xs) = x @ '','' @ commas xs"

definition member_text :: "string \<times> string \<Rightarrow> string" where
  "member_text m = quote_char # fst m @ [quote_char, CHR '':''] @ snd m"

primrec json_print :: "json \<Rightarrow> string" where
  "json_print JNull = ''null''"
| "json_print (JBool b) = (if b then ''true'' else ''false'')"
| "json_print (JNum l) = l"
| "json_print (JStr r) = quote_char # r @ [quote_char]"
| "json_print (JArr js) = ''['' @ commas (map json_print js) @ '']''"
| "json_print (JObj ms) =
     ''{'' @ commas (map member_text (map (map_prod id json_print) ms)) @ ''}''"

subsection \<open>Well-formed values\<close>

definition raw_ok :: "string \<Rightarrow> bool" where
  "raw_ok r \<longleftrightarrow> scan_str (r @ [quote_char]) = Some (r, [])"

definition num_ok :: "string \<Rightarrow> bool" where
  "num_ok l \<longleftrightarrow> scan_num l = Some (l, [])"

primrec json_ok :: "json \<Rightarrow> bool" where
  "json_ok JNull = True"
| "json_ok (JBool b) = True"
| "json_ok (JNum l) = num_ok l"
| "json_ok (JStr r) = raw_ok r"
| "json_ok (JArr js) = list_all id (map json_ok js)"
| "json_ok (JObj ms) = list_all (\<lambda>(k, b). raw_ok k \<and> b) (map (map_prod id json_ok) ms)"

primrec json_depth :: "json \<Rightarrow> int" where
  "json_depth JNull = 0"
| "json_depth (JBool b) = 0"
| "json_depth (JNum l) = 0"
| "json_depth (JStr r) = 0"
| "json_depth (JArr js) = 1 + foldr max (map json_depth js) 0"
| "json_depth (JObj ms) = 1 + foldr max (map snd (map (map_prod id json_depth) ms)) 0"

lemma foldr_max_le: "foldr max xs (0 :: int) \<le> d \<longleftrightarrow> 0 \<le> d \<and> (\<forall>x \<in> set xs. x \<le> d)"
  by (induction xs) auto

end
