(* ===== verification/JsonLemmas.thy ===== *)
theory JsonLemmas
  imports GoJson
begin

section \<open>The JSON parser is total, exact and inverse to the printer\<close>

text \<open>
  What the components use: the fuel of \<open>json_parse\<close> never runs out (\<open>json_fuel_enough\<close>), a
  parsed value is well formed and within the nesting bound (\<open>json_parse_ok\<close>), and printing a
  well-formed value and parsing it again gives the value back (\<open>json_parse_print\<close>).
\<close>

named_theorems json_simps \<open>parsing, printing and well-formedness of JSON values\<close>

subsection \<open>String literals\<close>

lemma hex4_length: "hex4 q \<noteq> None \<Longrightarrow> length q = 4"
  by (auto simp: hex4_def split: list.splits)

lemma scan_str_unfold_simps:
  "scan_str [] = None"
  "scan_str (quote_char # r) = Some ([], r)"
  "simple_escape e \<noteq> None \<Longrightarrow>
     scan_str (backslash # e # r) = cons_fst [backslash, e] (scan_str r)"
  "hex4 (take 4 r) \<noteq> None \<Longrightarrow>
     scan_str (backslash # CHR ''u'' # r) =
       cons_fst ([backslash, CHR ''u''] @ take 4 r) (scan_str (drop 4 r))"
  "c \<noteq> quote_char \<Longrightarrow> c \<noteq> backslash \<Longrightarrow> \<not> byte c < 0x20 \<Longrightarrow>
     scan_str (c # r) = cons_fst [c] (scan_str r)"
  by (subst scan_str.simps; simp add: simple_escape_def)+

lemma scan_str_Some:
  "scan_str s = Some (b, t) \<Longrightarrow>
     s = b @ quote_char # t \<and> (\<forall>u. scan_str (b @ u) = cons_fst b (scan_str u))"
proof (induction s arbitrary: b t rule: scan_str.induct)
  case (1 s)
  show ?case
  proof (cases s)
    case Nil
    with 1(4) show ?thesis by (simp add: scan_str_unfold_simps)
  next
    case (Cons c r)
    consider (q) "c = quote_char" | (bs) "c = backslash" | (ctl) "c \<noteq> quote_char" "c \<noteq> backslash" "byte c < 0x20"
      | (plain) "c \<noteq> quote_char" "c \<noteq> backslash" "\<not> byte c < 0x20" by blast
    then show ?thesis
    proof cases
      case q
      with Cons 1(4) show ?thesis by (simp add: scan_str_unfold_simps)
    next
      case ctl
      with Cons 1(4) show ?thesis by (simp add: scan_str.simps [of "c # r"])
    next
      case plain
      with Cons 1(4) obtain b' where b': "scan_str r = Some (b', t)" and "b = c # b'"
        by (auto simp: scan_str_unfold_simps cons_fst_Some)
      with 1(3) [OF Cons plain(1) plain(2) plain(3) b'] Cons plain
      show ?thesis by (simp add: scan_str_unfold_simps)
    next
      case bs
      show ?thesis
      proof (cases r)
        case Nil
        with bs Cons 1(4) show ?thesis by (simp add: scan_str.simps [of "[backslash]"])
      next
        case (Cons e r')
        note r = Cons
        show ?thesis
        proof (cases "simple_escape e \<noteq> None")
          case True
          with r bs \<open>s = c # r\<close> 1(4) obtain b' where
            b': "scan_str r' = Some (b', t)" and "b = [c, e] @ b'"
            by (auto simp: scan_str_unfold_simps cons_fst_Some)
          with 1(1) [OF \<open>s = c # r\<close> _ bs r True b'] True r bs \<open>s = c # r\<close>
          show ?thesis by (simp add: scan_str_unfold_simps)
        next
          case False
          with r bs \<open>s = c # r\<close> 1(4) have u: "e = CHR ''u'' \<and> hex4 (take 4 r') \<noteq> None"
            by (auto simp: scan_str.simps [of "backslash # e # r'"] split: if_splits)
          with False r bs \<open>s = c # r\<close> 1(4) obtain b' where
            b': "scan_str (drop 4 r') = Some (b', t)" and b: "b = [c, e] @ take 4 r' @ b'"
            by (auto simp: scan_str_unfold_simps cons_fst_Some)
          have IH: "drop 4 r' = b' @ quote_char # t \<and>
              (\<forall>u. scan_str (b' @ u) = cons_fst b' (scan_str u))"
            using 1(2) [OF \<open>s = c # r\<close> _ bs r False u b'] bs by simp
          have len: "length (take 4 r') = 4" using u hex4_length by blast
          have "r' = take 4 r' @ b' @ quote_char # t"
            using IH by (metis append_take_drop_id)
          moreover have "scan_str (b @ v) = cons_fst b (scan_str v)" for v
            using b bs u IH len by (simp add: scan_str_unfold_simps)
          ultimately show ?thesis using b r \<open>s = c # r\<close> by (metis Cons_eq_appendI append.assoc append_Nil)
        qed
      qed
    qed
  qed
qed

lemma scan_str_raw_ok: "scan_str s = Some (b, t) \<Longrightarrow> raw_ok b"
  by (auto simp: raw_ok_def scan_str_unfold_simps dest: scan_str_Some)

lemma scan_str_shorter: "scan_str s = Some (b, t) \<Longrightarrow> length t < length s"
  by (auto dest!: scan_str_Some)

lemma scan_str_print [json_simps]: "raw_ok b \<Longrightarrow> scan_str (b @ quote_char # t) = Some (b, t)"
  by (auto simp: raw_ok_def scan_str_unfold_simps dest!: scan_str_Some)

lemma scan_str_raw_append: "raw_ok b \<Longrightarrow> scan_str (b @ u) = cons_fst b (scan_str u)"
  by (auto simp: raw_ok_def dest!: scan_str_Some)

lemma raw_ok_Nil [simp]: "raw_ok []"
  by (simp add: raw_ok_def scan_str_unfold_simps)

lemma raw_ok_append: "raw_ok a \<Longrightarrow> raw_ok b \<Longrightarrow> raw_ok (a @ b)"
  using scan_str_raw_append [of a "b @ [quote_char]"] by (simp add: raw_ok_def)

lemma raw_ok_plain:
  "c \<noteq> quote_char \<Longrightarrow> c \<noteq> backslash \<Longrightarrow> \<not> byte c < 0x20 \<Longrightarrow> raw_ok [c]"
  by (simp add: raw_ok_def scan_str_unfold_simps)

lemma raw_ok_plain_list:
  "(\<And>c. c \<in> set s \<Longrightarrow> c \<noteq> quote_char \<and> c \<noteq> backslash \<and> \<not> byte c < 0x20) \<Longrightarrow> raw_ok s"
proof (induction s)
  case (Cons c s)
  then show ?case using raw_ok_append [of "[c]" s] by (simp add: raw_ok_plain)
qed simp

lemma raw_ok_escape: "simple_escape e \<noteq> None \<Longrightarrow> raw_ok [backslash, e]"
  by (simp add: raw_ok_def scan_str_unfold_simps)

lemma raw_ok_hex: "hex4 q \<noteq> None \<Longrightarrow> raw_ok (backslash # CHR ''u'' # q)"
  using hex4_length [of q] scan_str_unfold_simps(4) [of "q @ [quote_char]"]
  by (simp add: raw_ok_def scan_str_unfold_simps(2))

subsection \<open>Numbers\<close>

definition no_digit :: "string \<Rightarrow> bool" where
  "no_digit t \<longleftrightarrow> t = [] \<or> \<not> is_digit (hd t)"

text \<open>What may follow a number without being read as part of it.\<close>

definition num_stop :: "string \<Rightarrow> bool" where
  "num_stop t \<longleftrightarrow> no_digit t \<and> (t = [] \<or> hd t \<notin> {CHR ''.'', CHR ''e'', CHR ''E''})"

lemma digits_stop:
  "no_digit u \<Longrightarrow> takeWhile is_digit (takeWhile is_digit r @ u) = takeWhile is_digit r
    \<and> dropWhile is_digit (takeWhile is_digit r @ u) = u"
  by (rule takeWhile_dropWhile_stop) (auto simp: no_digit_def dest: set_takeWhileD)

lemma no_digit_dropWhile [simp]: "no_digit (dropWhile is_digit r)"
  by (induction r) (auto simp: no_digit_def)

lemma is_digit_facts [simp]:
  "\<not> is_digit CHR ''.''" "\<not> is_digit CHR ''e''" "\<not> is_digit CHR ''E''" "\<not> is_digit CHR ''-''"
  "\<not> is_digit CHR ''+''" "is_digit CHR ''0''" "\<not> is_digit CHR '',''" "\<not> is_digit CHR '']''"
  "\<not> is_digit CHR ''}''"
  by (simp_all add: is_digit_def)

lemma scan_int_Some:
  assumes "scan_int s = Some (ip, r)"
  shows "s = ip @ r \<and> ip \<noteq> [] \<and> is_digit (hd ip) \<and> (\<forall>u. no_digit u \<longrightarrow> scan_int (ip @ u) = Some (ip, u))"
proof (cases s)
  case Nil
  with assms show ?thesis by (simp add: scan_int_def)
next
  case (Cons c t)
  show ?thesis
  proof (cases "c = CHR ''0''")
    case True
    with Cons assms show ?thesis by (auto simp: scan_int_def)
  next
    case False
    with Cons assms have c: "is_digit c" and ip: "ip = takeWhile is_digit s" "r = dropWhile is_digit s"
      by (auto simp: scan_int_def split: if_splits)
    have "scan_int (ip @ u) = Some (ip, u)" if "no_digit u" for u
    proof -
      have "ip @ u = c # (takeWhile is_digit t @ u)" using Cons c ip by simp
      moreover have "takeWhile is_digit (ip @ u) = ip" "dropWhile is_digit (ip @ u) = u"
        using digits_stop [OF that, of s] ip by simp_all
      ultimately show ?thesis using False c by (simp add: scan_int_def)
    qed
    with Cons c ip show ?thesis by simp
  qed
qed

lemma scan_frac_Some:
  assumes "scan_frac s = Some (fr, r)"
  shows "s = fr @ r \<and> (fr = [] \<or> hd fr = CHR ''.'') \<and>
    (\<forall>u. no_digit u \<longrightarrow> (u = [] \<or> hd u \<noteq> CHR ''.'') \<longrightarrow> scan_frac (fr @ u) = Some (fr, u))"
proof (cases "\<exists>t. s = CHR ''.'' # t")
  case True
  then obtain t where s: "s = CHR ''.'' # t" by blast
  with assms have fr: "fr = CHR ''.'' # takeWhile is_digit t" "r = dropWhile is_digit t"
      "takeWhile is_digit t \<noteq> []"
    by (auto simp: scan_frac_def split: if_splits)
  have "scan_frac (fr @ u) = Some (fr, u)" if "no_digit u" for u
    using fr digits_stop [OF that, of t] by (simp add: scan_frac_def)
  with s fr show ?thesis by simp
next
  case False
  with assms have "fr = []" "r = s" by (auto simp: scan_frac_def split: list.splits if_splits)
  then show ?thesis by (auto simp: scan_frac_def split: list.splits)
qed

lemma scan_sign_append: "scan_sign A s = (sg, r) \<Longrightarrow> s = sg @ r \<and> (sg = [] \<or> (\<exists>c \<in> A. sg = [c]))"
  by (auto simp: scan_sign_def split: list.splits if_splits)

lemma scan_exp_Some:
  assumes "scan_exp s = Some (ex, r)"
  shows "s = ex @ r \<and> (ex = [] \<or> hd ex = CHR ''e'' \<or> hd ex = CHR ''E'') \<and>
    (\<forall>u. num_stop u \<longrightarrow> scan_exp (ex @ u) = Some (ex, u))"
proof (cases "\<exists>c t. s = c # t \<and> (c = CHR ''e'' \<or> c = CHR ''E'')")
  case True
  then obtain c t where s: "s = c # t" and c: "c = CHR ''e'' \<or> c = CHR ''E''" by blast
  obtain sg t' where sg: "scan_sign {CHR ''+'', CHR ''-''} t = (sg, t')" by fastforce
  with assms s c have ex: "ex = c # sg @ takeWhile is_digit t'" "r = dropWhile is_digit t'"
      "takeWhile is_digit t' \<noteq> []"
    by (auto simp: scan_exp_def split: if_splits)
  have d: "is_digit (hd (takeWhile is_digit t'))"
    using ex(3) by (cases t') (auto split: if_splits)
  have "scan_exp (ex @ u) = Some (ex, u)" if "num_stop u" for u
  proof -
    have nd: "no_digit u" using that by (simp add: num_stop_def)
    have "scan_sign {CHR ''+'', CHR ''-''} (sg @ takeWhile is_digit t' @ u) =
        (sg, takeWhile is_digit t' @ u)"
      using scan_sign_append [OF sg] d ex(3)
      by (cases "takeWhile is_digit t'") (auto simp: scan_sign_def)
    with ex c digits_stop [OF nd, of t'] show ?thesis by (auto simp: scan_exp_def)
  qed
  with s ex c scan_sign_append [OF sg] show ?thesis by auto
next
  case False
  with assms have "ex = []" "r = s" by (auto simp: scan_exp_def split: list.splits if_splits)
  then show ?thesis by (auto simp: scan_exp_def num_stop_def split: list.splits)
qed

lemma scan_num_Some:
  assumes "scan_num s = Some (l, r)"
  shows "s = l @ r \<and> l \<noteq> [] \<and> (is_digit (hd l) \<or> hd l = CHR ''-'') \<and>
    (\<forall>u. num_stop u \<longrightarrow> scan_num (l @ u) = Some (l, u))"
proof -
  obtain sg s1 ip s2 fr s3 ex where
    sg: "scan_sign {CHR ''-''} s = (sg, s1)" and ip: "scan_int s1 = Some (ip, s2)" and
    fr: "scan_frac s2 = Some (fr, s3)" and ex: "scan_exp s3 = Some (ex, r)" and
    l: "l = sg @ ip @ fr @ ex"
    using assms by (auto simp: scan_num_def split: prod.splits option.splits)
  note S = scan_sign_append [OF sg] and I = scan_int_Some [OF ip]
    and F = scan_frac_Some [OF fr] and E = scan_exp_Some [OF ex]
  have "scan_num (l @ u) = Some (l, u)" if u: "num_stop u" for u
  proof -
    have n2: "no_digit (ex @ u)" "ex @ u = [] \<or> hd (ex @ u) \<noteq> CHR ''.''"
      using E u by (cases ex; auto simp: no_digit_def num_stop_def)+
    have n1: "no_digit (fr @ ex @ u)"
      using F n2(1) by (cases fr) (auto simp: no_digit_def)
    have "scan_sign {CHR ''-''} (l @ u) = (sg, ip @ fr @ ex @ u)"
      using S I l by (cases ip) (auto simp: scan_sign_def)
    moreover have "scan_int (ip @ fr @ ex @ u) = Some (ip, fr @ ex @ u)" using I n1 by blast
    moreover have "scan_frac (fr @ ex @ u) = Some (fr, ex @ u)" using F n2 by blast
    moreover have "scan_exp (ex @ u) = Some (ex, u)" using E u by blast
    ultimately show ?thesis using l by (simp add: scan_num_def)
  qed
  moreover have "s = l @ r" using S I F E l by simp
  moreover have "l \<noteq> [] \<and> (is_digit (hd l) \<or> hd l = CHR ''-'')"
    using S I l by (cases ip) auto
  ultimately show ?thesis by blast
qed

lemma num_stop_Nil [simp]: "num_stop []"
  by (simp add: num_stop_def no_digit_def)

lemma scan_num_num_ok: "scan_num s = Some (l, r) \<Longrightarrow> num_ok l"
  using scan_num_Some [of s l r] by (auto simp: num_ok_def dest: spec [of _ "[]"])

lemma scan_num_print [json_simps]: "num_ok l \<Longrightarrow> num_stop u \<Longrightarrow> scan_num (l @ u) = Some (l, u)"
  by (auto simp: num_ok_def dest: scan_num_Some)

lemma num_ok_hd: "num_ok l \<Longrightarrow> l \<noteq> [] \<and> (is_digit (hd l) \<or> hd l = CHR ''-'')"
  by (auto simp: num_ok_def dest: scan_num_Some)

subsection \<open>The parser consumes input, and its fuel is enough\<close>

lemma skip_ws_length: "length (skip_ws s) \<le> length s"
  by (simp add: length_dropWhile_le)

lemma skip_ws_Cons: "skip_ws s = c # r \<Longrightarrow> length r < length s"
  using skip_ws_length [of s] by simp

lemma keyword_Some: "keyword kw j s = Some (v, r) \<longleftrightarrow> v = j \<and> s = kw @ r"
  by (auto simp: keyword_def has_prefix_iff)

lemma pval_SomeE:
  assumes "pval (Suc n) d s = Some (j, r)"
  obtains
    (obj_empty) r0 where "skip_ws s = CHR ''{'' # r0" "0 < d" "skip_ws r0 = CHR ''}'' # r" "j = JObj []"
  | (obj) r0 ms where "skip_ws s = CHR ''{'' # r0" "0 < d" "pmems n (d - 1) r0 = Some (ms, r)" "j = JObj ms"
  | (arr_empty) r0 where "skip_ws s = CHR ''['' # r0" "0 < d" "skip_ws r0 = CHR '']'' # r" "j = JArr []"
  | (arr) r0 js where "skip_ws s = CHR ''['' # r0" "0 < d" "pelems n (d - 1) r0 = Some (js, r)" "j = JArr js"
  | (str) r0 b where "skip_ws s = quote_char # r0" "scan_str r0 = Some (b, r)" "j = JStr b"
  | (kw) c k where "skip_ws s = c # k @ r" "j = JNull \<or> j = JBool True \<or> j = JBool False"
  | (num) l where "scan_num (skip_ws s) = Some (l, r)" "j = JNum l"
proof -
  obtain c r0 where sk: "skip_ws s = c # r0"
    using assms by (cases "skip_ws s") auto
  consider "c = CHR ''{''" | "c = CHR ''[''" | "c = quote_char" | "c = CHR ''t''" | "c = CHR ''f''"
    | "c = CHR ''n''" | "c \<notin> {CHR ''{'', CHR ''['', quote_char, CHR ''t'', CHR ''f'', CHR ''n''}"
    by blast
  then show thesis
  proof cases
    case 1
    with assms sk show thesis
      by (cases "skip_ws r0") (auto split: if_splits simp: obj_empty obj simp del: dropWhile_eq_Nil_conv)
  next
    case 2
    with assms sk show thesis
      by (cases "skip_ws r0") (auto split: if_splits simp: arr_empty arr simp del: dropWhile_eq_Nil_conv)
  next
    case 3
    with assms sk show thesis by (auto simp: str)
  next
    case 4
    with assms sk show thesis by (auto simp: keyword_Some intro: kw)
  next
    case 5
    with assms sk show thesis by (auto simp: keyword_Some intro: kw)
  next
    case 6
    with assms sk show thesis by (auto simp: keyword_Some intro: kw)
  next
    case 7
    with assms sk show thesis by (auto simp: num)
  qed
qed

lemma pelems_SomeE:
  assumes "pelems (Suc n) d s = Some (js, r)"
  obtains
    (last) v r0 where "pval n d s = Some (v, r0)" "skip_ws r0 = CHR '']'' # r" "js = [v]"
  | (more) v r0 r1 js' where "pval n d s = Some (v, r0)" "skip_ws r0 = CHR '','' # r1"
      "pelems n d r1 = Some (js', r)" "js = v # js'"
proof -
  obtain v r0 where v: "pval n d s = Some (v, r0)"
    using assms by (cases "pval n d s") auto
  obtain c r1 where sk: "skip_ws r0 = c # r1"
    using assms v by (cases "skip_ws r0") auto
  show thesis
    using assms v sk last more by (auto split: if_splits)
qed

lemma pmems_SomeE:
  assumes "pmems (Suc n) d s = Some (ms, r)"
  obtains k v r0 r1 r2 r3 where
    "skip_ws s = quote_char # r0" "scan_str r0 = Some (k, r1)" "skip_ws r1 = CHR '':'' # r2"
    "pval n d r2 = Some (v, r3)"
    "skip_ws r3 = CHR ''}'' # r \<and> ms = [(k, v)] \<or>
     (\<exists>r4 ms'. skip_ws r3 = CHR '','' # r4 \<and> pmems n d r4 = Some (ms', r) \<and> ms = (k, v) # ms')"
proof -
  obtain q r0 where s: "skip_ws s = q # r0" and q: "q = quote_char"
    using assms by (cases "skip_ws s") (auto split: if_splits)
  obtain k r1 where k: "scan_str r0 = Some (k, r1)"
    using assms s q by (cases "scan_str r0") auto
  obtain r2 where r2: "skip_ws r1 = CHR '':'' # r2"
    using assms s q k by (cases "skip_ws r1") (auto split: if_splits)
  obtain v r3 where v: "pval n d r2 = Some (v, r3)"
    using assms s q k r2 by (cases "pval n d r2") auto
  obtain e r4 where e: "skip_ws r3 = e # r4"
    using assms s q k r2 v by (cases "skip_ws r3") auto
  show thesis
    using that [of r0 k r1 r2 v r3] assms s q k r2 v e by (auto split: if_splits)
qed

lemma parser_shorter:
  "pval n d s = Some (j, r) \<Longrightarrow> length r < length s"
  "pelems n d s = Some (js, r) \<Longrightarrow> length r < length s"
  "pmems n d s = Some (ms, r) \<Longrightarrow> length r < length s"
proof (induction n arbitrary: d s j r js ms)
  case (Suc n)
  {
    case 1
    then show ?case
    proof (cases rule: pval_SomeE)
      case (obj_empty r0)
      then show ?thesis by (auto dest!: skip_ws_Cons)
    next
      case (obj r0 ms)
      with Suc.IH(3) [OF obj(3)] show ?thesis by (auto dest!: skip_ws_Cons)
    next
      case (arr_empty r0)
      then show ?thesis by (auto dest!: skip_ws_Cons)
    next
      case (arr r0 js)
      with Suc.IH(2) [OF arr(3)] show ?thesis by (auto dest!: skip_ws_Cons)
    next
      case (str r0 b)
      then show ?thesis by (auto dest!: skip_ws_Cons scan_str_shorter)
    next
      case (kw c k)
      then show ?thesis by (auto dest!: skip_ws_Cons)
    next
      case (num l)
      then have "length r < length (skip_ws s)" by (auto dest!: scan_num_Some)
      with skip_ws_length [of s] show ?thesis by linarith
    qed
  next
    case 2
    then show ?case
    proof (cases rule: pelems_SomeE)
      case (last v r0)
      with Suc.IH(1) [OF last(1)] show ?thesis by (auto dest!: skip_ws_Cons)
    next
      case (more v r0 r1 js')
      with Suc.IH(1) [OF more(1)] Suc.IH(2) [OF more(3)] show ?thesis by (auto dest!: skip_ws_Cons)
    qed
  next
    case 3
    then show ?case
    proof (cases rule: pmems_SomeE)
      case (1 k v r0 r1 r2 r3)
      with Suc.IH(1) [OF 1(4)] Suc.IH(3) show ?thesis
        by (fastforce dest!: skip_ws_Cons scan_str_shorter)
    qed
  }
qed auto

text \<open>
  With fuel above twice the length of the input the parser's result no longer depends on the
  fuel: it never stops for lack of it.
\<close>

lemma parser_fuel:
  "2 * length s < n \<Longrightarrow> 2 * length s < m \<Longrightarrow> pval n d s = pval m d s"
  "2 * length s + 1 < n \<Longrightarrow> 2 * length s + 1 < m \<Longrightarrow> pelems n d s = pelems m d s"
  "2 * length s < n \<Longrightarrow> 2 * length s < m \<Longrightarrow> pmems n d s = pmems m d s"
  supply dropWhile_eq_Nil_conv [simp del]
proof (induction n arbitrary: m d s)
  case (Suc n)
  {
    case 1
    then obtain m' where m: "m = Suc m'" by (cases m) auto
    show ?case
    proof (cases "skip_ws s")
      case Nil
      then show ?thesis using m by simp
    next
      case (Cons c r)
      then have "length r < length s" by (rule skip_ws_Cons)
      then have "pelems n (d - 1) r = pelems m' (d - 1) r" "pmems n (d - 1) r = pmems m' (d - 1) r"
        using Suc.IH(2) [of r m' "d - 1"] Suc.IH(3) [of r m' "d - 1"] 1 m by simp_all
      then show ?thesis using Cons m by (simp split: list.split)
    qed
  next
    case 2
    then obtain m' where m: "m = Suc m'" by (cases m) auto
    have v: "pval n d s = pval m' d s"
      using Suc.IH(1) [of s m' d] 2 m by simp
    show ?case
    proof (cases "pval n d s")
      case None
      then show ?thesis using m v by simp
    next
      case (Some vr)
      obtain v' r where vr: "vr = (v', r)" by fastforce
      have "length r < length s" using Some vr parser_shorter(1) by blast
      moreover have "length r1 < length r" if "skip_ws r = c # r1" for c r1
        using that by (rule skip_ws_Cons)
      ultimately have "pelems n d r1 = pelems m' d r1" if "skip_ws r = c # r1" for c r1
        using Suc.IH(2) [of r1 m' d] 2 m that by fastforce
      then show ?thesis using Some m v vr by (cases "skip_ws r") auto
    qed
  next
    case 3
    then obtain m' where m: "m = Suc m'" by (cases m) auto
    have eq1: "pval n d r = pval m' d r" and eq3: "pmems n d r = pmems m' d r"
      if "length r < length s" for r
      using Suc.IH(1) [of r m' d] Suc.IH(3) [of r m' d] 3 m that by simp_all
    show ?case
    proof (cases "skip_ws s")
      case Nil
      then show ?thesis using m by simp
    next
      case (Cons q r)
      note l0 = skip_ws_Cons [OF Cons]
      show ?thesis
      proof (cases "scan_str r")
        case None
        then show ?thesis using Cons m by simp
      next
        case (Some kr)
        obtain k r1 where kr: "kr = (k, r1)" by fastforce
        note l1 = scan_str_shorter [OF Some [unfolded kr]]
        show ?thesis
        proof (cases "skip_ws r1")
          case Nil
          then show ?thesis using \<open>skip_ws s = q # r\<close> Some kr m by simp
        next
          case (Cons c r2)
          note l2 = skip_ws_Cons [OF Cons]
          have v: "pval n d r2 = pval m' d r2" using eq1 l0 l1 l2 by simp
          show ?thesis
          proof (cases "pval n d r2")
            case None
            then show ?thesis using \<open>skip_ws s = q # r\<close> Some kr Cons m v by simp
          next
            case (Some vr)
            obtain v' r3 where vr: "vr = (v', r3)" by fastforce
            note l3 = parser_shorter(1) [OF Some [unfolded vr]]
            have "pmems n d r4 = pmems m' d r4" if "skip_ws r3 = e # r4" for e r4
              using eq3 l0 l1 l2 l3 skip_ws_Cons [OF that] by simp
            then show ?thesis
              using \<open>skip_ws s = q # r\<close> \<open>scan_str r = Some kr\<close> kr Cons Some vr m v
              by (cases "skip_ws r3") auto
          qed
        qed
      qed
    qed
  }
qed auto

lemma json_fuel_enough:
  "2 * length s < n \<Longrightarrow> pval n d s = pval (2 * length s + 1) d s"
  by (rule parser_fuel) auto

lemma pval_fuel_ex:
  assumes "pval n d s = Some x" and "\<And>k. pval (n + k) d s = Some x"
  shows "pval (2 * length s + 1) d s = Some x"
  using assms(2) [of "2 * length s + 1"] json_fuel_enough [of s "n + (2 * length s + 1)" d] by simp

subsection \<open>A parsed value is well formed and within the nesting bound\<close>

lemma foldr_max_nonneg [simp]: "0 \<le> foldr max xs (0 :: int)"
  by (induction xs) auto

lemma json_depth_nonneg [simp]: "0 \<le> json_depth j"
  by (cases j) auto

lemma json_ok_JArr [json_simps, simp]: "json_ok (JArr js) \<longleftrightarrow> (\<forall>j \<in> set js. json_ok j)"
  by (simp add: list_all_iff)

lemma json_ok_JObj [json_simps, simp]:
  "json_ok (JObj ms) \<longleftrightarrow> (\<forall>(k, v) \<in> set ms. raw_ok k \<and> json_ok v)"
  by (auto simp: list_all_iff)

lemma json_depth_JArr_le [json_simps, simp]:
  "json_depth (JArr js) \<le> d \<longleftrightarrow> 1 \<le> d \<and> (\<forall>j \<in> set js. json_depth j \<le> d - 1)"
proof -
  have "json_depth (JArr js) \<le> d \<longleftrightarrow> foldr max (map json_depth js) 0 \<le> d - 1"
    unfolding json_depth.simps by arith
  also have "\<dots> \<longleftrightarrow> 1 \<le> d \<and> (\<forall>j \<in> set js. json_depth j \<le> d - 1)"
    unfolding foldr_max_le by auto
  finally show ?thesis .
qed

lemma json_depth_JObj_le [json_simps, simp]:
  "json_depth (JObj ms) \<le> d \<longleftrightarrow> 1 \<le> d \<and> (\<forall>(k, v) \<in> set ms. json_depth v \<le> d - 1)"
proof -
  have "json_depth (JObj ms) \<le> d \<longleftrightarrow> foldr max (map snd (map (map_prod id json_depth) ms)) 0 \<le> d - 1"
    unfolding json_depth.simps by arith
  also have "\<dots> \<longleftrightarrow> 1 \<le> d \<and> (\<forall>(k, v) \<in> set ms. json_depth v \<le> d - 1)"
    unfolding foldr_max_le by auto
  finally show ?thesis .
qed

declare json_ok.simps(5,6) [simp del]
declare json_depth.simps(5,6) [simp del]

lemma parser_ok:
  "pval n d s = Some (j, r) \<Longrightarrow> 0 \<le> d \<Longrightarrow> json_ok j \<and> json_depth j \<le> d"
  "pelems n d s = Some (js, r) \<Longrightarrow> 0 \<le> d \<Longrightarrow> \<forall>j \<in> set js. json_ok j \<and> json_depth j \<le> d"
  "pmems n d s = Some (ms, r) \<Longrightarrow> 0 \<le> d \<Longrightarrow>
     \<forall>(k, v) \<in> set ms. raw_ok k \<and> json_ok v \<and> json_depth v \<le> d"
proof (induction n arbitrary: d s j r js ms)
  case (Suc n)
  {
    case 1
    from 1(1) show ?case
    proof (cases rule: pval_SomeE)
      case (obj r0 ms)
      with Suc.IH(3) [OF obj(3)] show ?thesis by fastforce
    next
      case (arr r0 js)
      with Suc.IH(2) [OF arr(3)] show ?thesis by fastforce
    next
      case (str r0 b)
      with 1 show ?thesis by (simp add: scan_str_raw_ok)
    next
      case (num l)
      with 1 show ?thesis by (simp add: scan_num_num_ok)
    qed (use 1 in auto)
  next
    case 2
    from 2(1) show ?case
    proof (cases rule: pelems_SomeE)
      case (last v r0)
      with Suc.IH(1) [OF last(1)] 2 show ?thesis by simp
    next
      case (more v r0 r1 js')
      with Suc.IH(1) [OF more(1)] Suc.IH(2) [OF more(3)] 2 show ?thesis by simp
    qed
  next
    case 3
    from 3(1) show ?case
    proof (cases rule: pmems_SomeE)
      case (1 k v r0 r1 r2 r3)
      have "raw_ok k" using 1(2) by (rule scan_str_raw_ok)
      with Suc.IH(1) [OF 1(4)] Suc.IH(3) 1(5) 3 show ?thesis by fastforce
    qed
  }
qed auto

lemma json_parse_ok: "json_parse s = Some j \<Longrightarrow> json_ok j \<and> json_depth j \<le> max_nesting"
  using parser_ok(1) [of "2 * length s + 1" max_nesting s j]
  by (auto simp: json_parse_def max_nesting_def split: option.splits if_splits)

subsection \<open>Parsing what was printed\<close>

lemma not_ws_facts [simp]:
  "\<not> is_ws CHR ''{''" "\<not> is_ws CHR ''[''" "\<not> is_ws quote_char" "\<not> is_ws CHR '',''"
  "\<not> is_ws CHR '']''" "\<not> is_ws CHR ''}''" "\<not> is_ws CHR '':''" "\<not> is_ws CHR ''t''"
  "\<not> is_ws CHR ''f''" "\<not> is_ws CHR ''n''" "\<not> is_ws CHR ''-''"
  by (simp_all add: is_ws_def)

lemma is_digit_not_ws: "is_digit c \<Longrightarrow> \<not> is_ws c"
  by (auto simp: is_digit_def is_ws_def)

lemma num_stop_facts [simp]:
  "num_stop (CHR '','' # t)" "num_stop (CHR '']'' # t)" "num_stop (CHR ''}'' # t)"
  by (simp_all add: num_stop_def no_digit_def)

lemma json_print_hd:
  "json_ok j \<Longrightarrow> \<exists>c t. json_print j = c # t \<and> \<not> is_ws c \<and> c \<noteq> CHR '']'' \<and> c \<noteq> CHR ''}''"
proof (cases j)
  case (JNum l)
  moreover assume "json_ok j"
  ultimately have l: "l \<noteq> []" "is_digit (hd l) \<or> hd l = CHR ''-''" using num_ok_hd by auto
  then obtain c t where "l = c # t" by (cases l) auto
  with l JNum show ?thesis by (auto simp: is_digit_not_ws)
qed auto

lemma skip_ws_print [simp]: "json_ok j \<Longrightarrow> skip_ws (json_print j @ t) = json_print j @ t"
  using json_print_hd [of j] by auto

lemma commas_Cons: "js \<noteq> [] \<Longrightarrow> commas (x # js) = x @ '','' @ commas js"
  by (cases js) auto

lemma pelems_print:
  assumes IH: "\<And>j n t. j \<in> set js \<Longrightarrow> num_stop t \<Longrightarrow> 2 * length (json_print j @ t) < n \<Longrightarrow>
      pval n d (json_print j @ t) = Some (j, t)"
    and "js \<noteq> []" and "2 * length (commas (map json_print js) @ CHR '']'' # t) + 1 < n"
  shows "pelems n d (commas (map json_print js) @ CHR '']'' # t) = Some (js, t)"
  using assms
proof (induction js arbitrary: n)
  case (Cons j js)
  obtain m where n: "n = Suc m" using Cons.prems(3) by (cases n) auto
  show ?case
  proof (cases "js = []")
    case True
    then show ?thesis using Cons.prems(1) [of j "CHR '']'' # t" m] Cons.prems(3) n by simp
  next
    case False
    let ?r = "commas (map json_print js) @ CHR '']'' # t"
    have s: "commas (map json_print (j # js)) @ CHR '']'' # t = json_print j @ CHR '','' # ?r"
      using False by (simp add: commas_Cons)
    have "pval m d (json_print j @ CHR '','' # ?r) = Some (j, CHR '','' # ?r)"
      using Cons.prems(1) [of j "CHR '','' # ?r" m] Cons.prems(3) n s by simp
    moreover have "pelems m d ?r = Some (js, t)"
      using Cons.prems(3) s n by (intro Cons.IH Cons.prems(1) False) auto
    ultimately show ?thesis unfolding s n by simp
  qed
qed simp

lemma pmems_print:
  assumes IH: "\<And>k j n t. (k, j) \<in> set ms \<Longrightarrow> num_stop t \<Longrightarrow> 2 * length (json_print j @ t) < n \<Longrightarrow>
      pval n d (json_print j @ t) = Some (j, t)"
    and keys: "\<And>k j. (k, j) \<in> set ms \<Longrightarrow> raw_ok k"
    and "ms \<noteq> []"
    and "2 * length (commas (map member_text (map (map_prod id json_print) ms)) @ CHR ''}'' # t) < n"
  shows "pmems n d (commas (map member_text (map (map_prod id json_print) ms)) @ CHR ''}'' # t)
    = Some (ms, t)"
  using assms
proof (induction ms arbitrary: n)
  case (Cons kj ms)
  obtain k j where kj: "kj = (k, j)" by fastforce
  obtain m where n: "n = Suc m" using Cons.prems(4) by (cases n) auto
  have k: "raw_ok k" using Cons.prems(2) [of k j] kj by simp
  show ?case
  proof (cases "ms = []")
    case True
    have "pval m d (json_print j @ CHR ''}'' # t) = Some (j, CHR ''}'' # t)"
      using Cons.prems(1) [of k j "CHR ''}'' # t" m] Cons.prems(4) kj n True
      by (simp add: member_text_def)
    then show ?thesis
      using True kj n k by (simp add: member_text_def scan_str_print)
  next
    case False
    let ?r = "commas (map member_text (map (map_prod id json_print) ms)) @ CHR ''}'' # t"
    have s: "commas (map member_text (map (map_prod id json_print) (kj # ms))) @ CHR ''}'' # t =
        quote_char # k @ quote_char # CHR '':'' # json_print j @ CHR '','' # ?r"
      using False kj by (simp add: commas_Cons member_text_def)
    have len: "2 * length (quote_char # k @ quote_char # CHR '':'' # json_print j @ CHR '','' # ?r) < n"
      using Cons.prems(4) unfolding s .
    have "pval m d (json_print j @ CHR '','' # ?r) = Some (j, CHR '','' # ?r)"
      using len n by (intro Cons.prems(1)) (auto simp: kj)
    moreover have "pmems m d ?r = Some (ms, t)"
    proof (rule Cons.IH)
      show "2 * length ?r < m" using len n by simp
      show "pval n d (json_print j @ t) = Some (j, t)"
        if "(k, j) \<in> set ms" "num_stop t" "2 * length (json_print j @ t) < n" for k j n t
        using that by (intro Cons.prems(1) [of k]) simp_all
      show "raw_ok k" if "(k, j) \<in> set ms" for k j
        using that by (intro Cons.prems(2) [of k j]) simp
    qed (rule False)
    ultimately show ?thesis unfolding s n using k kj by (simp add: scan_str_print)
  qed
qed simp

lemma pval_print:
  "json_ok j \<Longrightarrow> json_depth j \<le> d \<Longrightarrow> num_stop t \<Longrightarrow> 2 * length (json_print j @ t) < n \<Longrightarrow>
     pval n d (json_print j @ t) = Some (j, t)"
proof (induction j arbitrary: d n t)
  case JNull
  then obtain m where "n = Suc m" by (cases n) auto
  then show ?case by (simp add: keyword_def)
next
  case (JBool b)
  then obtain m where "n = Suc m" by (cases n) auto
  then show ?case by (simp add: keyword_def)
next
  case (JNum l)
  then obtain m where n: "n = Suc m" by (cases n) auto
  have l: "l \<noteq> []" "is_digit (hd l) \<or> hd l = CHR ''-''" using JNum num_ok_hd by auto
  then obtain c r where c: "l = c # r" by (cases l) auto
  have "\<not> is_ws c" "c \<noteq> CHR ''{''" "c \<noteq> CHR ''[''" "c \<noteq> quote_char" "c \<noteq> CHR ''t''"
      "c \<noteq> CHR ''f''" "c \<noteq> CHR ''n''"
    using l c by (auto simp: is_digit_def is_digit_not_ws)
  moreover have "scan_num (c # r @ t) = Some (l, t)"
    using scan_num_print [of l t] JNum c by simp
  ultimately show ?case using n c by simp
next
  case (JStr b)
  then obtain m where "n = Suc m" by (cases n) auto
  then show ?case using JStr by (simp add: scan_str_print)
next
  case (JArr js)
  then obtain m where n: "n = Suc m" by (cases n) auto
  show ?case
  proof (cases js)
    case Nil
    then show ?thesis using JArr n by simp
  next
    case (Cons j js')
    have len: "2 * length (commas (map json_print js) @ CHR '']'' # t) + 1 < m"
      using JArr.prems(4) n by simp
    have "pelems m (d - 1) (commas (map json_print js) @ CHR '']'' # t) = Some (js, t)"
      using JArr.prems Cons by (intro pelems_print [OF _ _ len] JArr.IH) auto
    moreover obtain c r where "commas (map json_print js) @ CHR '']'' # t = c # r"
        "\<not> is_ws c" "c \<noteq> CHR '']''"
      using json_print_hd [of j] JArr.prems(1) Cons by (cases js') (auto simp: commas_Cons)
    ultimately show ?thesis using JArr.prems n by simp
  qed
next
  case (JObj ms)
  then obtain m where n: "n = Suc m" by (cases n) auto
  let ?b = "commas (map member_text (map (map_prod id json_print) ms)) @ CHR ''}'' # t"
  show ?case
  proof (cases ms)
    case Nil
    then show ?thesis using JObj n by simp
  next
    case (Cons kj ms')
    have len: "2 * length ?b < m"
      using JObj.prems(4) n by simp
    have "pmems m (d - 1) ?b = Some (ms, t)"
      using JObj.prems Cons by (intro pmems_print [OF _ _ _ len] JObj.IH) (fastforce simp: snds.simps)+
    moreover obtain r where "?b = quote_char # r"
      using Cons by (cases ms') (auto simp: commas_Cons member_text_def)
    ultimately show ?thesis using JObj.prems n by simp
  qed
qed

lemma json_parse_print [json_simps]:
  "json_ok j \<Longrightarrow> json_depth j \<le> max_nesting \<Longrightarrow> json_parse (json_print j) = Some j"
  using pval_print [of j max_nesting "[]" "2 * length (json_print j) + 1"]
  by (simp add: json_parse_def del: pval.simps)

end
