(* ===== verification/JsonCodec.thy ===== *)
theory JsonCodec
  imports JsonLemmas
begin

section \<open>Go's \<open>encoding/json\<close>: between JSON values and Go values\<close>

text \<open>
  \<open>unquote\<close> and \<open>quote\<close> are the decoder's and the encoder's treatment of strings (invalid
  UTF-8 becomes U+FFFD, \<open>Marshal\<close> escapes HTML characters). Struct fields are matched as the
  decoder matches them: under case folding, the last matching member winning, \<open>null\<close> leaving
  the field as it is and a value of another type making \<open>Unmarshal\<close> return an error. A value
  decoded into \<open>any\<close> is a \<open>goval\<close>; maps are association lists sorted by key, the order in
  which \<open>Marshal\<close> prints them.
\<close>

subsection \<open>String bodies\<close>

definition hex_digit :: "nat \<Rightarrow> char" where
  "hex_digit d = (if d < 10 then char_of (48 + d) else char_of (87 + d))"

definition u_escape :: "nat \<Rightarrow> string" where
  "u_escape n =
     [backslash, CHR ''u'', hex_digit (n div 4096), hex_digit (n div 256 mod 16),
      hex_digit (n div 16 mod 16), hex_digit (n mod 16)]"

definition high_surrogate :: "nat \<Rightarrow> bool" where
  "high_surrogate r \<longleftrightarrow> 0xD800 \<le> r \<and> r < 0xDC00"

definition low_surrogate :: "nat \<Rightarrow> bool" where
  "low_surrogate r \<longleftrightarrow> 0xDC00 \<le> r \<and> r < 0xE000"

text \<open>The code point of a \<open>\uXXXX\<close> at the front of the text, as Go's \<open>getu4\<close>.\<close>

definition getu4 :: "string \<Rightarrow> nat option" where
  "getu4 s = (if has_prefix s [backslash, CHR ''u''] then hex4 (take 4 (drop 2 s)) else None)"

function unquote :: "string \<Rightarrow> string" where
  "unquote s =
     (case s of
        [] \<Rightarrow> []
      | c # r \<Rightarrow>
          if c = backslash then
            (case r of
               [] \<Rightarrow> []
             | e # r' \<Rightarrow>
                 if e = CHR ''u'' then
                   (case hex4 (take 4 r') of
                      None \<Rightarrow> []
                    | Some rr \<Rightarrow>
                        if high_surrogate rr \<or> low_surrogate rr then
                          (case getu4 (drop 4 r') of
                             Some lo \<Rightarrow>
                               if high_surrogate rr \<and> low_surrogate lo
                               then encode_rune (0x10000 + (rr - 0xD800) * 1024 + (lo - 0xDC00))
                                    @ unquote (drop 10 r')
                               else rune_error @ unquote (drop 4 r')
                           | None \<Rightarrow> rune_error @ unquote (drop 4 r'))
                        else encode_rune rr @ unquote (drop 4 r'))
                 else (case simple_escape e of
                         None \<Rightarrow> []
                       | Some x \<Rightarrow> x # unquote r'))
          else if byte c < 0x80 then c # unquote r
          else (case rune_width s of
                  None \<Rightarrow> rune_error @ unquote r
                | Some n \<Rightarrow> take n s @ unquote (drop n s)))"
  by pat_completeness auto
termination
  by (relation "measure length") (auto dest: rune_width_bounds)

declare unquote.simps [simp del]

definition line_sep :: "string \<Rightarrow> bool" where
  "line_sep q \<longleftrightarrow> q = [CHR 0xE2, CHR 0x80, CHR 0xA8] \<or> q = [CHR 0xE2, CHR 0x80, CHR 0xA9]"

definition html_char :: "char \<Rightarrow> bool" where
  "html_char c \<longleftrightarrow> c = CHR ''<'' \<or> c = CHR ''>'' \<or> c = CHR 0x26"

definition quote_ascii :: "char \<Rightarrow> string" where
  "quote_ascii c =
     (if c = quote_char \<or> c = backslash then [backslash, c]
      else if c = CHR 0x08 then [backslash, CHR ''b'']
      else if c = CHR 0x0C then [backslash, CHR ''f'']
      else if c = CHR 0x0A then [backslash, CHR ''n'']
      else if c = CHR 0x0D then [backslash, CHR ''r'']
      else if c = CHR 0x09 then [backslash, CHR ''t'']
      else if byte c < 0x20 \<or> html_char c then u_escape (byte c)
      else [c])"

function quote :: "string \<Rightarrow> string" where
  "quote s =
     (case s of
        [] \<Rightarrow> []
      | c # r \<Rightarrow>
          if byte c < 0x80 then quote_ascii c @ quote r
          else (case rune_width s of
                  None \<Rightarrow> u_escape 0xFFFD @ quote r
                | Some n \<Rightarrow>
                    (if line_sep (take n s) then u_escape (rune_value (take n s)) else take n s)
                    @ quote (drop n s)))"
  by pat_completeness auto
termination
  by (relation "measure length") (auto dest: rune_width_bounds)

declare quote.simps [simp del]

text \<open>What a string is after a trip through the encoder: invalid bytes replaced.\<close>

function to_valid :: "string \<Rightarrow> string" where
  "to_valid s =
     (case s of
        [] \<Rightarrow> []
      | c # r \<Rightarrow>
          (case rune_width s of
             None \<Rightarrow> rune_error @ to_valid r
           | Some n \<Rightarrow> take n s @ to_valid (drop n s)))"
  by pat_completeness auto
termination
  by (relation "measure length") (auto dest: rune_width_bounds)

declare to_valid.simps [simp del]

subsubsection \<open>Encoding then decoding a string\<close>

lemma hex_val_hex_digit [simp]: "d < 16 \<Longrightarrow> hex_val (hex_digit d) = Some d"
  by (simp add: hex_val_def hex_digit_def Let_def)

lemma hex4_digits:
  "n < 65536 \<Longrightarrow> hex4 [hex_digit (n div 4096), hex_digit (n div 256 mod 16),
      hex_digit (n div 16 mod 16), hex_digit (n mod 16)] = Some n"
proof -
  assume "n < 65536"
  then have "n div 4096 < 16" by simp
  moreover have "n div 4096 = n div 256 div 16" "n div 256 = n div 16 div 16"
    by (simp_all add: div_mult2_eq [symmetric])
  then have "((n div 4096 * 16 + n div 256 mod 16) * 16 + n div 16 mod 16) * 16 + n mod 16 = n"
    by (metis div_mult_mod_eq)
  ultimately show ?thesis by (simp add: hex4_def)
qed

lemma raw_ok_u_escape: "n < 65536 \<Longrightarrow> raw_ok (u_escape n)"
  unfolding u_escape_def by (rule raw_ok_hex) (simp add: hex4_digits)

lemma unquote_u_escape:
  assumes "n < 65536" and "\<not> high_surrogate n" and "\<not> low_surrogate n"
  shows "unquote (u_escape n @ t) = encode_rune n @ unquote t"
  using assms hex4_digits [of n]
  by (subst unquote.simps) (simp add: u_escape_def)

lemma unquote_simps:
  "unquote [] = []"
  "simple_escape e = Some x \<Longrightarrow> unquote (backslash # e # r) = x # unquote r"
  "c \<noteq> backslash \<Longrightarrow> byte c < 0x80 \<Longrightarrow> unquote (c # r) = c # unquote r"
proof -
  show "unquote [] = []" by (simp add: unquote.simps)
  show "simple_escape e = Some x \<Longrightarrow> unquote (backslash # e # r) = x # unquote r"
    by (cases "e = CHR ''u''") (simp_all add: simple_escape_def unquote.simps [of "backslash # e # r"])
  show "c \<noteq> backslash \<Longrightarrow> byte c < 0x80 \<Longrightarrow> unquote (c # r) = c # unquote r"
    by (simp add: unquote.simps [of "c # r"])
qed

lemma char_of_eq: "byte c = n \<Longrightarrow> char_of n = c"
  by auto

lemma char_of_consts [simp]:
  "char_of (226 :: nat) = CHR 0xE2" "char_of (128 :: nat) = CHR 0x80"
  "char_of (168 :: nat) = CHR 0xA8" "char_of (169 :: nat) = CHR 0xA9"
  "char_of (239 :: nat) = CHR 0xEF" "char_of (191 :: nat) = CHR 0xBF"
  "char_of (189 :: nat) = CHR 0xBD"
  by (rule char_of_eq; simp)+

lemma unquote_rune:
  assumes "rune_width s = Some n" and "\<not> byte (hd s) < 0x80"
  shows "unquote (take n s @ t) = take n s @ unquote t"
proof -
  obtain c r where s: "s = c # r" using assms by (cases s) auto
  obtain m where n: "n = Suc m" using rune_width_bounds [OF assms(1)] by (cases n) auto
  have "rune_width (take n s @ t) = Some n" using assms(1) by (rule rune_width_take)
  moreover have "length (take n s) = n" using rune_width_bounds [OF assms(1)] by simp
  moreover have "c \<noteq> backslash" using assms(2) s by auto
  ultimately show ?thesis using s n assms(2)
    by (subst unquote.simps) simp
qed

lemma raw_ok_high: "(\<And>c. c \<in> set q \<Longrightarrow> \<not> byte c < 0x80) \<Longrightarrow> raw_ok q"
  by (rule raw_ok_plain_list) force

lemma tail_high:
  assumes "rune_width s = Some n" and "\<not> byte (hd s) < 0x80" and "c \<in> set (take n s)"
  shows "\<not> byte c < 0x80"
proof -
  obtain a r where s: "s = a # r" using assms by (cases s) auto
  obtain m where n: "n = Suc m" using rune_width_bounds [OF assms(1)] by (cases n) auto
  have t: "tail_ok (byte a) (take m r)"
    using assms(1) s n by (simp add: rune_width_Some_iff)
  have "\<not> byte b < 0x80" if "b \<in> set (take m r)" for b
    using t that by (cases "take m r")
      (auto simp: tail_ok_def second_ok_def cont_byte_def list_all_iff split: if_splits)
  then show ?thesis using assms(2,3) s n by auto
qed

lemma quote_ascii_ok:
  assumes "byte c < 0x80"
  shows "raw_ok (quote_ascii c)" and "unquote (quote_ascii c @ t) = c # unquote t"
proof -
  have unquote_u: "unquote (u_escape (byte c) @ t) = c # unquote t"
    using assms unquote_u_escape [of "byte c" t]
    by (simp add: encode_rune_def high_surrogate_def low_surrogate_def)
  have esc: "raw_ok [backslash, e] \<and> unquote ([backslash, e] @ t) = x # unquote t"
    if "simple_escape e = Some x" for e x
    using that by (simp add: raw_ok_escape unquote_simps)
  consider (q) "c = quote_char \<or> c = backslash" | (b) "c = CHR 0x08" | (f) "c = CHR 0x0C"
    | (n) "c = CHR 0x0A" | (r) "c = CHR 0x0D" | (t) "c = CHR 0x09"
    | (u) "quote_ascii c = u_escape (byte c)"
    | (plain) "quote_ascii c = [c]" "c \<noteq> quote_char" "c \<noteq> backslash" "\<not> byte c < 0x20"
  proof -
    have "quote_ascii c = u_escape (byte c) \<or> quote_ascii c = [c] \<and> \<not> byte c < 0x20"
      if "c \<notin> {quote_char, backslash, CHR 0x08, CHR 0x0C, CHR 0x0A, CHR 0x0D, CHR 0x09}"
      using that by (simp add: quote_ascii_def)
    then show thesis using q b f n r t u plain by blast
  qed
  then have "raw_ok (quote_ascii c) \<and> unquote (quote_ascii c @ t) = c # unquote t"
  proof cases
    case q
    then have "quote_ascii c = [backslash, c]" "simple_escape c = Some c"
      by (auto simp: quote_ascii_def simple_escape_def)
    then show ?thesis using esc by metis
  next
    case u
    then show ?thesis using unquote_u assms raw_ok_u_escape [of "byte c"] by simp
  next
    case plain
    then show ?thesis using assms by (simp add: unquote_simps raw_ok_plain)
  qed (use esc in \<open>simp_all add: quote_ascii_def simple_escape_def\<close>)
  then show "raw_ok (quote_ascii c)" "unquote (quote_ascii c @ t) = c # unquote t"
    by simp_all
qed

lemma line_sep_unquote:
  "line_sep q \<Longrightarrow> unquote (u_escape (rune_value q) @ t) = q @ unquote t \<and> raw_ok (u_escape (rune_value q))"
  by (auto simp: line_sep_def rune_value_def encode_rune_def high_surrogate_def low_surrogate_def
      unquote_u_escape intro: raw_ok_u_escape char_of_eq)

lemma quote_ok: "raw_ok (quote s)"
proof (induction s rule: quote.induct)
  case (1 s)
  show ?case
  proof (cases s)
    case Nil
    then show ?thesis by (simp add: quote.simps)
  next
    case (Cons c r)
    show ?thesis
    proof (cases "byte c < 0x80")
      case True
      with 1(1) Cons show ?thesis
        by (subst quote.simps) (simp add: raw_ok_append quote_ascii_ok)
    next
      case False
      show ?thesis
      proof (cases "rune_width s")
        case None
        with 1(2) [OF Cons False None] Cons False show ?thesis
          by (subst quote.simps) (simp add: raw_ok_append raw_ok_u_escape)
      next
        case (Some n)
        have "raw_ok (take n s)"
          using tail_high [OF Some] Cons False by (intro raw_ok_high) auto
        with 1(3) [OF Cons False Some] Cons False Some show ?thesis
          by (subst quote.simps) (auto intro!: raw_ok_append simp: line_sep_unquote)
      qed
    qed
  qed
qed

lemma unquote_quote: "unquote (quote s) = to_valid s"
proof (induction s rule: quote.induct)
  case (1 s)
  show ?case
  proof (cases s)
    case Nil
    then show ?thesis by (simp add: quote.simps to_valid.simps unquote_simps)
  next
    case (Cons c r)
    show ?thesis
    proof (cases "byte c < 0x80")
      case True
      with 1(1) [OF Cons True] Cons show ?thesis
        by (subst quote.simps, subst to_valid.simps) (simp add: quote_ascii_ok)
    next
      case False
      show ?thesis
      proof (cases "rune_width s")
        case None
        have "unquote (u_escape 0xFFFD @ quote r) = rune_error @ unquote (quote r)"
          using unquote_u_escape [of "0xFFFD"]
          by (simp add: encode_rune_def rune_error_def high_surrogate_def low_surrogate_def)
        with 1(2) [OF Cons False None] Cons False None show ?thesis
          by (subst quote.simps, subst to_valid.simps) simp
      next
        case (Some n)
        have "unquote (take n s @ quote (drop n s)) = take n s @ unquote (quote (drop n s))"
          using unquote_rune [OF Some] Cons False by simp
        with 1(3) [OF Cons False Some] Cons False Some show ?thesis
          by (subst quote.simps, subst to_valid.simps) (simp add: line_sep_unquote)
      qed
    qed
  qed
qed

lemma to_valid_id: "utf8_valid s \<Longrightarrow> to_valid s = s"
proof (induction s rule: to_valid.induct)
  case (1 s)
  show ?case
  proof (cases s)
    case Nil
    then show ?thesis by (simp add: to_valid.simps)
  next
    case (Cons c r)
    then obtain n where n: "rune_width s = Some n" and "utf8_valid (drop n s)"
      using 1(3) by (subst (asm) utf8_valid.simps) (auto split: option.splits)
    with 1(2) [OF Cons n] Cons show ?thesis
      by (subst to_valid.simps) simp
  qed
qed

lemma unquote_quote_valid [simp]: "utf8_valid s \<Longrightarrow> unquote (quote s) = s"
  by (simp add: unquote_quote to_valid_id)

subsection \<open>Decoded strings are valid UTF-8\<close>

lemma utf8_valid_rune_append:
  assumes "rune_width q = Some (length q)"
  shows "utf8_valid (q @ r) = utf8_valid r"
proof -
  have "rune_width (q @ r) = Some (length q)" using assms by (rule rune_width_ext)
  moreover have "q \<noteq> []" using assms by auto
  ultimately show ?thesis by (subst utf8_valid.simps) simp
qed

lemma rune_width_encode: "rune_width (encode_rune n) = Some (length (encode_rune n))"
proof -
  consider "n < 0x80" | "0x80 \<le> n" "n < 0x800" | "0x800 \<le> n" "0xD800 \<le> n \<and> n < 0xE000 \<or> 0x10FFFF < n"
    | "0x800 \<le> n" "n < 0x10000" "\<not> (0xD800 \<le> n \<and> n < 0xE000)"
    | "0x10000 \<le> n" "n \<le> 0x10FFFF"
    by linarith
  then show ?thesis
  proof cases
    case 1
    then show ?thesis by (simp add: encode_rune_def)
  next
    case 2
    then have "2 \<le> n div 64" "n div 64 < 32" by auto
    then show ?thesis using 2
      by (simp add: encode_rune_def rune_width_Some_iff lead_width_def tail_ok_def second_ok_def cont_byte_def)
  next
    case 3
    then show ?thesis
      by (simp add: encode_rune_def rune_error_def rune_width_Some_iff lead_width_def tail_ok_def second_ok_def cont_byte_def)
  next
    case 4
    then have d: "n div 4096 < 16" by auto
    have e: "n div 64 mod 64 = n div 64 - 64 * (n div 4096)"
      by (simp add: minus_mult_div_eq_mod [symmetric] div_mult2_eq [symmetric])
    have "32 \<le> n div 64 mod 64" if "n div 4096 = 0" using 4 that e by simp
    moreover have "n div 64 mod 64 < 32" if "n div 4096 = 13" using 4 that e by auto
    ultimately show ?thesis using 4 d
      by (auto simp: encode_rune_def rune_width_Some_iff lead_width_def tail_ok_def second_ok_def cont_byte_def)
  next
    case 5
    then have d: "n div 262144 \<le> 4" by auto
    have e: "n div 4096 mod 64 = n div 4096 - 64 * (n div 262144)"
      by (simp add: minus_mult_div_eq_mod [symmetric] div_mult2_eq [symmetric])
    have "16 \<le> n div 4096 mod 64" if "n div 262144 = 0" using 5 that e by simp
    moreover have "n div 4096 mod 64 < 16" if "n div 262144 = 4" using 5 that e by auto
    ultimately show ?thesis using 5 d
      by (auto simp: encode_rune_def rune_width_Some_iff lead_width_def tail_ok_def second_ok_def cont_byte_def)
  qed
qed

lemma rune_width_error: "rune_width rune_error = Some (length rune_error)"
  by (simp add: rune_error_def rune_width_Some_iff lead_width_def tail_ok_def second_ok_def cont_byte_def)

lemma simple_escape_ascii: "simple_escape e = Some x \<Longrightarrow> byte x < 0x80"
  by (auto simp: simple_escape_def split: if_splits)

lemma utf8_valid_unquote [simp]: "utf8_valid (unquote s)"
proof (induction s rule: length_induct)
  case (1 s)
  then have IH: "utf8_valid (unquote t)" if "length t < length s" for t using that by blast
  show ?case
  proof (cases s)
    case Nil
    then show ?thesis by (simp add: unquote_simps)
  next
    case (Cons c r)
    note app = utf8_valid_rune_append [OF rune_width_encode] utf8_valid_rune_append [OF rune_width_error]
    show ?thesis
    proof (cases "c = backslash")
      case True
      show ?thesis
      proof (cases r)
        case Nil
        then show ?thesis using True Cons by (simp add: unquote.simps [of "[backslash]"])
      next
        case (Cons e r')
        then have s: "s = c # e # r'" using \<open>s = c # r\<close> by simp
        have drop: "utf8_valid (unquote (drop n r'))" for n by (rule IH) (simp add: s)
        then have "utf8_valid (unquote r')" using drop [of 0] by simp
        then show ?thesis
          using True drop unfolding s
          by (subst unquote.simps) (simp add: app simple_escape_ascii split: option.splits)
      qed
    next
      case False
      show ?thesis
      proof (cases "byte c < 0x80")
        case True
        then show ?thesis using False IH [of r] Cons by (simp add: unquote_simps)
      next
        case high: False
        show ?thesis
        proof (cases "rune_width s")
          case None
          then show ?thesis
            using False high Cons IH [of r] by (subst unquote.simps) (simp add: app)
        next
          case (Some n)
          then have "rune_width (take n s) = Some (length (take n s))"
            using rune_width_take [OF Some, of "[]"] rune_width_bounds [OF Some] by simp
          moreover have "utf8_valid (unquote (drop n s))"
            by (rule IH) (use rune_width_bounds [OF Some] Cons in auto)
          moreover have "unquote s = take n s @ unquote (drop n s)"
            using False high Cons Some by (subst unquote.simps) simp
          ultimately show ?thesis by (simp add: utf8_valid_rune_append)
        qed
      qed
    qed
  qed
qed

end
