(* ===== verification/GoAny.thy ===== *)
theory GoAny
  imports JsonCodec
begin

section \<open>Decoding into structs, maps and \<open>any\<close>; encoding Go values\<close>

text \<open>
  The part of \<open>encoding/json\<close> that goes by reflection: which members of an object fill a struct
  field (the last whose key folds to the name), the values of an \<open>any\<close>, Go maps as sorted
  association lists, and what \<open>Marshal\<close> prints for them.
\<close>

subsection \<open>Struct fields\<close>

text \<open>
  The decoder matches a member to a struct field when the two names are equal under case
  folding. Every field name of the source is ASCII, so of the non-ASCII code points only the
  two that fold to ASCII letters matter: U+017F (long s) and U+212A (the Kelvin sign).
\<close>

definition ascii_upper :: "char \<Rightarrow> char" where
  "ascii_upper c = (if 97 \<le> byte c \<and> byte c \<le> 122 then char_of (byte c - 32) else c)"

function fold_name :: "string \<Rightarrow> string" where
  "fold_name s =
     (case s of
        [] \<Rightarrow> []
      | c # r \<Rightarrow>
          if has_prefix s [CHR 0xC5, CHR 0xBF] then CHR ''S'' # fold_name (drop 2 s)
          else if has_prefix s [CHR 0xE2, CHR 0x84, CHR 0xAA] then CHR ''K'' # fold_name (drop 3 s)
          else ascii_upper c # fold_name r)"
  by pat_completeness auto
termination
  by (relation "measure length") auto

declare fold_name.simps [simp del]

definition field_match :: "string \<Rightarrow> string \<times> json \<Rightarrow> bool" where
  "field_match f m \<longleftrightarrow> fold_name (unquote (fst m)) = fold_name f"

definition field_vals :: "string \<Rightarrow> (string \<times> json) list \<Rightarrow> json list" where
  "field_vals f ms = map snd (filter (field_match f) ms)"

text \<open>
  A field of type \<open>string\<close>, given the matching members in order and the field's value so far;
  \<open>None\<close> is the type error that \<open>Unmarshal\<close> returns.
\<close>

fun str_field :: "json list \<Rightarrow> string \<Rightarrow> string option" where
  "str_field [] acc = Some acc"
| "str_field (JStr r # js) acc = str_field js (unquote r)"
| "str_field (JNull # js) acc = str_field js acc"
| "str_field (_ # js) acc = None"

text \<open>\<open>struct{F string}\<close>: the field of an object; \<open>null\<close> leaves the struct as it is.\<close>

definition get_string :: "string \<Rightarrow> json \<Rightarrow> string option" where
  "get_string f j =
     (case j of JObj ms \<Rightarrow> str_field (field_vals f ms) [] | JNull \<Rightarrow> Some [] | _ \<Rightarrow> None)"

text \<open>A field of type \<open>json.RawMessage\<close>: the last matching member, as text.\<close>

definition raw_field :: "json list \<Rightarrow> bytes option" where
  "raw_field js = (if js = [] then None else Some (json_print (last js)))"

text \<open>\<open>struct{F string}\<close> from bytes.\<close>

definition unmarshal_string :: "string \<Rightarrow> bytes \<Rightarrow> string option" where
  "unmarshal_string f data = (case json_parse data of None \<Rightarrow> None | Some j \<Rightarrow> get_string f j)"

lemma field_vals_Nil [simp]: "field_vals f [] = []"
  by (simp add: field_vals_def)

lemma field_vals_Cons:
  "field_vals f ((k, v) # ms) =
     (if fold_name (unquote k) = fold_name f then v # field_vals f ms else field_vals f ms)"
  by (simp add: field_vals_def field_match_def)

lemma field_vals_append: "field_vals f (ms @ ns) = field_vals f ms @ field_vals f ns"
  by (simp add: field_vals_def)

lemma str_field_append:
  "str_field (js @ ks) acc =
     (case str_field js acc of None \<Rightarrow> None | Some a \<Rightarrow> str_field ks a)"
  by (induction js acc rule: str_field.induct) auto

subsection \<open>Objects as maps\<close>

text \<open>
  \<open>map[string]T\<close>: keys exact, a later member overriding an earlier one. The association list
  is kept sorted by key, the order in which \<open>Marshal\<close> prints a map.
\<close>

fun map_put :: "string \<Rightarrow> 'a \<Rightarrow> (string \<times> 'a) list \<Rightarrow> (string \<times> 'a) list" where
  "map_put k v [] = [(k, v)]"
| "map_put k v ((k', v') # m) =
     (if k < k' then (k, v) # (k', v') # m
      else if k = k' then (k, v) # m
      else (k', v') # map_put k v m)"

definition map_sorted :: "(string \<times> 'a) list \<Rightarrow> bool" where
  "map_sorted m \<longleftrightarrow> sorted_wrt (<) (map fst m)"

lemma fst_set_map_put: "fst ` set (map_put k v m) = insert k (fst ` set m)"
  by (induction k v m rule: map_put.induct) auto

lemma map_put_sorted: "map_sorted m \<Longrightarrow> map_sorted (map_put k v m)"
proof (induction k v m rule: map_put.induct)
  case (2 k v k' v' m)
  have "x < y" if "x \<in> fst ` set [(k', v')]" "y \<in> fst ` set (map_put k v m)" "k' < k" for x y
    using 2(2) that by (auto simp: map_sorted_def fst_set_map_put)
  then show ?case using 2 by (auto simp: map_sorted_def)
qed (simp add: map_sorted_def)

lemma map_sorted_key: "map_sorted ((k', v') # m) \<Longrightarrow> k \<le> k' \<Longrightarrow> k \<notin> fst ` set m"
  by (force simp: map_sorted_def)

lemma map_of_map_put: "map_sorted m \<Longrightarrow> map_of (map_put k v m) = (map_of m)(k \<mapsto> v)"
  by (induction k v m rule: map_put.induct) (auto simp: map_sorted_def fun_eq_iff)

fun obj_map :: "(string \<times> 'a) list \<Rightarrow> (string \<times> 'a) list \<Rightarrow> (string \<times> 'a) list" where
  "obj_map m [] = m"
| "obj_map m ((k, v) # ms) = obj_map (map_put k v m) ms"

lemma obj_map_sorted: "map_sorted m \<Longrightarrow> map_sorted (obj_map m ms)"
  by (induction m ms rule: obj_map.induct) (auto simp: map_put_sorted)

lemma map_of_obj_map:
  "map_sorted m \<Longrightarrow> map_of (obj_map m ms) = map_of m ++ map_of (rev ms)"
  by (induction m ms rule: obj_map.induct)
    (auto simp: map_put_sorted map_of_map_put map_add_def fun_eq_iff split: option.splits)

lemma map_sorted_Nil [simp]: "map_sorted []"
  by (simp add: map_sorted_def)

lemma map_sorted_distinct: "map_sorted m \<Longrightarrow> distinct (map fst m)"
  by (auto simp: map_sorted_def simp: strict_sorted_iff)

subsection \<open>Values of type \<open>any\<close>\<close>

text \<open>
  A number decoded into \<open>any\<close> is a \<open>float64\<close>. Floating point is a parameter here:
  \<open>f64 lit\<close> is the text that \<open>Marshal\<close> prints for the float nearest to the literal, \<open>None\<close>
  when the literal is out of range, in which case \<open>Unmarshal\<close> returns an error.
\<close>

type_synonym float_fmt = "string \<Rightarrow> string option"

datatype goval =
    GNil
  | GBool bool
  | GNum string
  | GStr string
  | GArr "goval list"
  | GMap "(string \<times> goval) list"

primrec to_any :: "float_fmt \<Rightarrow> json \<Rightarrow> goval option" where
  "to_any f64 JNull = Some GNil"
| "to_any f64 (JBool b) = Some (GBool b)"
| "to_any f64 (JNum l) = map_option GNum (f64 l)"
| "to_any f64 (JStr r) = Some (GStr (unquote r))"
| "to_any f64 (JArr js) = map_option GArr (those (map (to_any f64) js))"
| "to_any f64 (JObj ms) =
     map_option (\<lambda>vs. GMap (obj_map [] (zip (map (\<lambda>m. unquote (fst m)) ms) vs)))
       (those (map snd (map (map_prod id (to_any f64)) ms)))"

primrec any_json :: "goval \<Rightarrow> json" where
  "any_json GNil = JNull"
| "any_json (GBool b) = JBool b"
| "any_json (GNum t) = JNum t"
| "any_json (GStr s) = JStr (quote s)"
| "any_json (GArr vs) = JArr (map any_json vs)"
| "any_json (GMap ms) = JObj (map (\<lambda>m. (quote (fst m), snd m)) (map (map_prod id any_json) ms))"

text \<open>A field of type \<open>any\<close>: the last matching member wins, and any error makes it fail.\<close>

fun any_field :: "float_fmt \<Rightarrow> json list \<Rightarrow> goval \<Rightarrow> goval option" where
  "any_field f64 [] acc = Some acc"
| "any_field f64 (j # js) acc =
     (case to_any f64 j of None \<Rightarrow> None | Some v \<Rightarrow> any_field f64 js v)"

text \<open>
  The numbers in a value print as JSON numbers. \<open>f64_ok\<close> is what the documentation of
  \<open>encoding/json\<close> promises of \<open>f64\<close>: the text is a JSON number and denotes the same float.
\<close>

primrec nums_ok :: "goval \<Rightarrow> bool" where
  "nums_ok GNil = True"
| "nums_ok (GBool b) = True"
| "nums_ok (GNum t) = num_ok t"
| "nums_ok (GStr s) = True"
| "nums_ok (GArr vs) = list_all id (map nums_ok vs)"
| "nums_ok (GMap ms) = list_all id (map snd (map (map_prod id nums_ok) ms))"

definition f64_ok :: "float_fmt \<Rightarrow> bool" where
  "f64_ok f64 \<longleftrightarrow> (\<forall>l t. f64 l = Some t \<longrightarrow> num_ok t \<and> f64 t = Some t)"

lemma any_json_ok: "nums_ok v \<Longrightarrow> json_ok (any_json v)"
  by (induction v) (force simp: list_all_iff quote_ok snds.simps)+

lemma those_Some_iff: "those xs = Some ys \<longleftrightarrow> xs = map Some ys"
proof (induction xs arbitrary: ys)
  case (Cons x xs)
  show ?case
    by (cases x; cases ys) (auto simp: Cons.IH split: option.splits)
qed auto

lemma those_map_set:
  "those (map f xs) = Some ys \<Longrightarrow> y \<in> set ys \<Longrightarrow> \<exists>x \<in> set xs. f x = Some y"
  by (auto simp: those_Some_iff dest!: arg_cong [where f = set]) (metis (mono_tags, lifting) imageE imageI)

lemma set_obj_map: "set (obj_map m ms) \<subseteq> set m \<union> set ms"
proof (induction m ms rule: obj_map.induct)
  case (2 m k v ms)
  have "set (map_put k v m) \<subseteq> insert (k, v) (set m)"
    by (induction k v m rule: map_put.induct) auto
  with 2 show ?case by auto
qed simp

lemma to_any_nums_ok: "f64_ok f64 \<Longrightarrow> to_any f64 j = Some v \<Longrightarrow> nums_ok v"
proof (induction j arbitrary: v)
  case (JArr js)
  then show ?case by (fastforce simp: list_all_iff dest: those_map_set)
next
  case (JObj ms)
  from JObj.prems(2) obtain vs where vs: "those (map snd (map (map_prod id (to_any f64)) ms)) = Some vs"
      and v: "v = GMap (obj_map [] (zip (map (\<lambda>m. unquote (fst m)) ms) vs))"
    by auto
  have "nums_ok w" if "w \<in> set vs" for w
  proof -
    have "\<exists>m \<in> set ms. to_any f64 (snd m) = Some w"
      using those_map_set [of "snd \<circ> map_prod id (to_any f64)" ms vs w] vs that by auto
    then show ?thesis using JObj.IH JObj.prems(1) by (auto simp: snds.simps)
  qed
  then show ?case
    using v set_obj_map [of "[]" "zip (map (\<lambda>m. unquote (fst m)) ms) vs"]
    by (auto simp: list_all_iff dest!: set_zip_rightD subsetD)
qed (auto simp: f64_ok_def)

lemma any_field_nums_ok:
  "f64_ok f64 \<Longrightarrow> nums_ok acc \<Longrightarrow> any_field f64 js acc = Some v \<Longrightarrow> nums_ok v"
  by (induction js arbitrary: acc) (auto split: option.splits dest: to_any_nums_ok)

subsection \<open>Marshalling a \<open>RawMessage\<close>\<close>

text \<open>\<open>Marshal\<close> compacts a \<open>RawMessage\<close> and escapes the HTML characters of its strings.\<close>

function html_raw :: "string \<Rightarrow> string" where
  "html_raw s =
     (case s of
        [] \<Rightarrow> []
      | c # r \<Rightarrow>
          if html_char c then u_escape (byte c) @ html_raw r
          else if line_sep (take 3 s) then u_escape (rune_value (take 3 s)) @ html_raw (drop 3 s)
          else c # html_raw r)"
  by pat_completeness auto
termination
  by (relation "measure length") auto

declare html_raw.simps [simp del]

primrec html_json :: "json \<Rightarrow> json" where
  "html_json JNull = JNull"
| "html_json (JBool b) = JBool b"
| "html_json (JNum l) = JNum l"
| "html_json (JStr r) = JStr (html_raw r)"
| "html_json (JArr js) = JArr (map html_json js)"
| "html_json (JObj ms) = JObj (map (\<lambda>m. (html_raw (fst m), snd m)) (map (map_prod id html_json) ms))"

definition marshal_raw :: "bytes \<Rightarrow> json option" where
  "marshal_raw raw = map_option html_json (json_parse raw)"

subsubsection \<open>Escaping keeps literals well formed and keeps what they denote\<close>

lemma raw_ok_cases:
  assumes "raw_ok s"
  obtains (Nil) "s = []"
  | (plain) c r where "s = c # r" "c \<noteq> quote_char" "c \<noteq> backslash" "\<not> byte c < 0x20" "raw_ok r"
  | (escape) e r where "s = backslash # e # r" "simple_escape e \<noteq> None" "raw_ok r"
  | (hex) q r where "s = backslash # CHR ''u'' # q @ r" "length q = 4" "hex4 q \<noteq> None" "raw_ok r"
proof (cases s)
  case (Cons c r)
  have ok: "scan_str (c # r @ [quote_char]) = Some (c # r, [])"
    using assms Cons by (simp add: raw_ok_def)
  show thesis
  proof (cases "c = backslash")
    case False
    then have "c \<noteq> quote_char" "\<not> byte c < 0x20"
      using ok by (auto simp: scan_str.simps [of "c # r @ [quote_char]"] split: if_splits)
    with False ok have "raw_ok r"
      by (auto simp: scan_str_unfold_simps cons_fst_Some raw_ok_def)
    with False \<open>c \<noteq> quote_char\<close> \<open>\<not> byte c < 0x20\<close> Cons plain show thesis by blast
  next
    case True
    then obtain e r' where r: "r = e # r'"
      using ok by (cases r) (auto simp: scan_str.simps [of "[backslash, quote_char]"]
          simple_escape_def scan_str_unfold_simps cons_fst_Some)
    show thesis
    proof (cases "simple_escape e")
      case (Some x)
      then have "raw_ok r'"
        using ok True r by (auto simp: scan_str_unfold_simps cons_fst_Some raw_ok_def)
      with Some True r Cons escape show thesis by simp
    next
      case None
      let ?t = "r' @ [quote_char]"
      from None have u: "e = CHR ''u''" "hex4 (take 4 ?t) \<noteq> None"
        using ok True r by (auto simp: scan_str.simps [of "backslash # e # ?t"] split: if_splits)
      then obtain b where b: "scan_str (drop 4 ?t) = Some (b, [])" "r' = take 4 ?t @ b"
        using ok True r by (auto simp: scan_str_unfold_simps cons_fst_Some)
      have len: "length (take 4 ?t) = 4" using u(2) hex4_length by blast
      have "raw_ok b" using b(1) by (rule scan_str_raw_ok)
      with hex [of "take 4 ?t" b] b(2) len u True r Cons show thesis by simp
    qed
  qed
qed (rule Nil)

lemma html_raw_simps:
  "html_raw [] = []"
  "html_char c \<Longrightarrow> html_raw (c # r) = u_escape (byte c) @ html_raw r"
  "\<not> html_char c \<Longrightarrow> c \<noteq> CHR 0xE2 \<Longrightarrow> html_raw (c # r) = c # html_raw r"
  by (subst html_raw.simps; simp add: line_sep_def)+

lemma html_raw_hex: "hex4 q \<noteq> None \<Longrightarrow> html_raw (q @ r) = q @ html_raw r"
proof -
  assume q: "hex4 q \<noteq> None"
  then obtain a b c d where abcd: "q = [a, b, c, d]"
    by (auto simp: hex4_def split: list.splits)
  have "\<not> html_char x \<and> x \<noteq> CHR 0xE2" if "x \<in> {a, b, c, d}" for x
  proof -
    have "hex_val x \<noteq> None" using q abcd that by (auto simp: hex4_def split: option.splits)
    then show ?thesis by (auto simp: html_char_def hex_val_def Let_def split: if_splits)
  qed
  then show ?thesis using abcd by (simp add: html_raw_simps)
qed

lemma html_raw_escape:
  "simple_escape e \<noteq> None \<or> e = CHR ''u'' \<Longrightarrow>
     html_raw (backslash # e # r) = backslash # e # html_raw r"
  by (auto simp: html_raw_simps html_char_def simple_escape_def split: if_splits)

lemma line_sep_raw_ok: "raw_ok (q @ r) \<Longrightarrow> line_sep q \<Longrightarrow> raw_ok r"
  by (auto simp: line_sep_def raw_ok_def scan_str_unfold_simps cons_fst_Some)

lemma raw_ok_html: "raw_ok s \<Longrightarrow> raw_ok (html_raw s)"
proof (induction s rule: length_induct)
  case (1 s)
  note IH = 1(1) [rule_format]
  from 1(2) show ?case
  proof (cases rule: raw_ok_cases)
    case Nil
    then show ?thesis by (simp add: html_raw_simps)
  next
    case (plain c r)
    have hc: "raw_ok (u_escape (byte c))" if "html_char c"
      using that by (auto simp: html_char_def intro!: raw_ok_u_escape)
    show ?thesis
    proof (cases "line_sep (take 3 s)")
      case True
      then have c: "\<not> html_char c" using plain(1) by (auto simp: line_sep_def html_char_def)
      have "raw_ok (html_raw (drop 3 s))"
        using line_sep_raw_ok [of "take 3 s" "drop 3 s"] True 1(2) plain(1) IH [of "drop 3 s"] by simp
      then have "raw_ok (u_escape (rune_value (take 3 s)) @ html_raw (drop 3 s))"
        using line_sep_unquote [OF True] by (blast intro: raw_ok_append)
      then show ?thesis using True c plain(1) by (simp add: html_raw.simps [of "c # r"])
    next
      case False
      have r: "raw_ok (html_raw r)" using IH [of r] plain by simp
      moreover have "raw_ok [c]" using plain by (simp add: raw_ok_plain)
      ultimately have cr: "raw_ok (c # html_raw r)"
        using raw_ok_append [of "[c]" "html_raw r"] by simp
      have ur: "raw_ok (u_escape (byte c) @ html_raw r)" if "html_char c"
        using raw_ok_append [OF hc [OF that] r] .
      have "html_raw (c # r) = (if html_char c then u_escape (byte c) @ html_raw r else c # html_raw r)"
        using False plain(1) by (simp add: html_raw.simps [of "c # r"])
      with cr ur plain(1) show ?thesis by (cases "html_char c") simp_all
    qed
  next
    case (escape e r)
    then show ?thesis
      using IH [of r] raw_ok_append [OF raw_ok_escape, of e "html_raw r"] by (simp add: html_raw_escape)
  next
    case (hex q r)
    then show ?thesis
      using IH [of r] raw_ok_append [OF raw_ok_hex, of q "html_raw r"]
      by (simp add: html_raw_escape html_raw_hex)
  qed
qed

lemma html_json_ok: "json_ok j \<Longrightarrow> json_ok (html_json j)"
  by (induction j) (force simp: raw_ok_html snds.simps)+

lemma html_json_depth: "json_depth j \<le> d \<Longrightarrow> json_depth (html_json j) \<le> d"
  by (induction j arbitrary: d) (force simp: snds.simps)+

lemma marshal_raw_ok:
  "marshal_raw raw = Some j \<Longrightarrow> json_ok j \<and> json_depth j \<le> max_nesting"
  by (auto simp: marshal_raw_def html_json_ok html_json_depth dest: json_parse_ok)

end
