(* ===== verification/GoText.thy ===== *)
theory GoText
  imports GoAny
begin

section \<open>Go's \<open>base64.RawURLEncoding\<close> and the verb \<open>%q\<close>\<close>

text \<open>
  Two text forms the source writes and reads: unpadded URL-safe base64, with its round trip, and
  the quoting verb \<open>%q\<close>; the parameters of both (\<open>golib\<close>) are what the model does not compute,
  such as the class of printable runes and the texts of library errors.
\<close>

subsection \<open>Unpadded URL-safe base64\<close>

definition b64_char :: "nat \<Rightarrow> char" where
  "b64_char n =
     (if n < 26 then char_of (65 + n)
      else if n < 52 then char_of (71 + n)
      else if n < 62 then char_of (n - 4)
      else if n = 62 then CHR ''-''
      else CHR ''_'')"

definition b64_val :: "char \<Rightarrow> nat option" where
  "b64_val c =
     (let x = byte c in
      if 65 \<le> x \<and> x \<le> 90 then Some (x - 65)
      else if 97 \<le> x \<and> x \<le> 122 then Some (x - 71)
      else if 48 \<le> x \<and> x \<le> 57 then Some (x + 4)
      else if x = 45 then Some 62
      else if x = 95 then Some 63
      else None)"

fun b64_sextets :: "nat list \<Rightarrow> nat list" where
  "b64_sextets [] = []"
| "b64_sextets [a] = [a div 4, a mod 4 * 16]"
| "b64_sextets [a, b] = [a div 4, a mod 4 * 16 + b div 16, b mod 16 * 4]"
| "b64_sextets (a # b # c # r) =
     a div 4 # (a mod 4 * 16 + b div 16) # (b mod 16 * 4 + c div 64) # c mod 64 # b64_sextets r"

fun b64_octets :: "nat list \<Rightarrow> nat list option" where
  "b64_octets [] = Some []"
| "b64_octets [w] = None"
| "b64_octets [w, x] = Some [w * 4 + x div 16]"
| "b64_octets [w, x, y] = Some [w * 4 + x div 16, x mod 16 * 16 + y div 4]"
| "b64_octets (w # x # y # z # r) =
     map_option (\<lambda>t. (w * 4 + x div 16) # (x mod 16 * 16 + y div 4) # (y mod 4 * 64 + z) # t)
       (b64_octets r)"

definition b64_encode :: "bytes \<Rightarrow> string" where
  "b64_encode s = map b64_char (b64_sextets (map of_char s))"

text \<open>The decoder skips carriage returns and line feeds and ignores trailing bits.\<close>

definition b64_decode :: "string \<Rightarrow> bytes option" where
  "b64_decode s =
     (case those (map b64_val (filter (\<lambda>c. c \<noteq> CHR 0x0A \<and> c \<noteq> CHR 0x0D) s)) of
        None \<Rightarrow> None
      | Some vs \<Rightarrow> map_option (map char_of) (b64_octets vs))"

lemma b64_val_char [simp]: "n < 64 \<Longrightarrow> b64_val (b64_char n) = Some n"
  by (auto simp: b64_char_def b64_val_def Let_def)

text \<open>The alphabet holds no line break and no dot.\<close>

lemma b64_char_neq:
  "n < 64 \<Longrightarrow> b64_char n \<noteq> CHR 0x0A \<and> b64_char n \<noteq> CHR 0x0D \<and> b64_char n \<noteq> CHR ''.''"
proof -
  have "b64_val (CHR 0x0A) = None" "b64_val (CHR 0x0D) = None" "b64_val (CHR ''.'') = None"
    by (simp_all add: b64_val_def)
  moreover assume "n < 64"
  ultimately show ?thesis using b64_val_char [of n] by fastforce
qed

lemma b64_sextets_bound: "\<forall>a \<in> set as. a < 256 \<Longrightarrow> v \<in> set (b64_sextets as) \<Longrightarrow> v < 64"
  by (induction as rule: b64_sextets.induct) auto

lemma b64_octets_sextets: "\<forall>a \<in> set as. a < 256 \<Longrightarrow> b64_octets (b64_sextets as) = Some as"
proof (induction as rule: b64_sextets.induct)
  case (3 a b)
  then have "b div 16 < 16" by (simp add: less_mult_imp_div_less)
  then show ?case by simp
next
  case (4 a b c r)
  then have "b div 16 < 16" "c div 64 < 4" by (simp_all add: less_mult_imp_div_less)
  with 4 show ?case by simp
qed auto

lemma b64_decode_encode [simp]: "b64_decode (b64_encode s) = Some s"
proof -
  let ?v = "b64_sextets (map byte s)"
  have bound: "v < 64" if "v \<in> set ?v" for v
    using that by (rule b64_sextets_bound [rotated]) (auto simp: byte_less)
  have "filter (\<lambda>c. c \<noteq> CHR 0x0A \<and> c \<noteq> CHR 0x0D) (map b64_char ?v) = map b64_char ?v"
    using bound b64_char_neq by (intro filter_True) auto
  moreover have "those (map b64_val (map b64_char ?v)) = Some ?v"
    using bound by (auto simp: those_Some_iff)
  moreover have "b64_octets ?v = Some (map byte s)"
    by (rule b64_octets_sextets) (auto simp: byte_less)
  ultimately show ?thesis by (simp add: b64_decode_def b64_encode_def comp_def)
qed

lemma b64_encode_no_dot: "CHR ''.'' \<notin> set (b64_encode s)"
proof
  assume "CHR ''.'' \<in> set (b64_encode s)"
  then obtain v where "v \<in> set (b64_sextets (map byte s))" "b64_char v = CHR ''.''"
    by (auto simp: b64_encode_def)
  moreover then have "v < 64" by (auto intro!: b64_sextets_bound simp: byte_less)
  ultimately show False using b64_char_neq by blast
qed

lemma b64_alphabet:
  assumes "c \<in> set (b64_encode s)"
  shows "\<exists>n < 64. c = b64_char n"
proof -
  obtain v where v: "v \<in> set (b64_sextets (map byte s))" "c = b64_char v"
    using assms by (auto simp: b64_encode_def)
  have "v < 64" using v(1) by (rule b64_sextets_bound [rotated]) (auto simp: byte_less)
  then show ?thesis using v by blast
qed

lemma b64_char_other: "n < 64 \<Longrightarrow> b64_val c = None \<Longrightarrow> b64_char n \<noteq> c"
  using b64_val_char [of n] by (cases "b64_char n = c") simp_all

lemma b64_char_ascii: "n < 64 \<Longrightarrow> byte (b64_char n) < 0x80"
  by (auto simp: b64_char_def)

lemma b64_char_printable: "n < 64 \<Longrightarrow> 0x20 \<le> byte (b64_char n)"
  by (auto simp: b64_char_def)

lemma raw_ok_b64 [simp]: "raw_ok (b64_encode s)"
proof (rule raw_ok_plain_list)
  fix c
  assume "c \<in> set (b64_encode s)"
  then obtain n where n: "n < 64" "c = b64_char n" using b64_alphabet by blast
  show "c \<noteq> quote_char \<and> c \<noteq> backslash \<and> \<not> byte c < 0x20"
    using n b64_char_other [of n quote_char] b64_char_other [of n backslash] b64_char_printable [of n]
    by (simp add: b64_val_def)
qed

subsection \<open>A claim of a compact JWT, read without verification\<close>

text \<open>
  \<open>jwtIssuerFromToken\<close>, \<open>originJTIFromToken\<close> and \<open>userIDFromToken\<close> share these steps: split
  at dots, three parts, base64 of the second, one string claim of the JSON payload.
\<close>

definition jwt_claim :: "string \<Rightarrow> string \<Rightarrow> string option" where
  "jwt_claim claim token =
     (case split_on (CHR ''.'') token of
        [h, p, s] \<Rightarrow>
          (case b64_decode p of None \<Rightarrow> None | Some payload \<Rightarrow> unmarshal_string claim payload)
      | _ \<Rightarrow> None)"

lemma jwt_claim_compact:
  assumes "CHR ''.'' \<notin> set h" and "CHR ''.'' \<notin> set s"
  shows "jwt_claim claim (h @ CHR ''.'' # b64_encode p @ CHR ''.'' # s) = unmarshal_string claim p"
  using assms
  by (simp add: jwt_claim_def split_on_append split_on_none b64_encode_no_dot)

subsection \<open>\<open>fmt.Sprintf("%q")\<close>\<close>

text \<open>
  \<open>strconv.Quote\<close>. Whether a code point above ASCII is printable is Unicode's table, a
  parameter \<open>printable\<close>.
\<close>

definition x_escape :: "nat \<Rightarrow> string" where
  "x_escape n = [backslash, CHR ''x'', hex_digit (n div 16), hex_digit (n mod 16)]"

definition q_rune :: "nat \<Rightarrow> string" where
  "q_rune r =
     (if r < 0x10000 then u_escape r
      else [backslash, CHR ''U'', hex_digit (r div 0x10000000 mod 16),
            hex_digit (r div 0x1000000 mod 16), hex_digit (r div 0x100000 mod 16),
            hex_digit (r div 0x10000 mod 16), hex_digit (r div 0x1000 mod 16),
            hex_digit (r div 0x100 mod 16), hex_digit (r div 0x10 mod 16), hex_digit (r mod 16)])"

definition q_ascii :: "char \<Rightarrow> string" where
  "q_ascii c =
     (if c = quote_char \<or> c = backslash then [backslash, c]
      else if 0x20 \<le> byte c \<and> byte c < 0x7F then [c]
      else (case map_of [(CHR 0x07, CHR ''a''), (CHR 0x08, CHR ''b''), (CHR 0x0C, CHR ''f''),
                         (CHR 0x0A, CHR ''n''), (CHR 0x0D, CHR ''r''), (CHR 0x09, CHR ''t''),
                         (CHR 0x0B, CHR ''v'')] c of
              Some e \<Rightarrow> [backslash, e]
            | None \<Rightarrow> x_escape (byte c)))"

function q_body :: "(nat \<Rightarrow> bool) \<Rightarrow> string \<Rightarrow> string" where
  "q_body printable s =
     (case s of
        [] \<Rightarrow> []
      | c # r \<Rightarrow>
          if byte c < 0x80 then q_ascii c @ q_body printable r
          else (case rune_width s of
                  None \<Rightarrow> x_escape (byte c) @ q_body printable r
                | Some n \<Rightarrow>
                    (if printable (rune_value (take n s)) then take n s
                     else q_rune (rune_value (take n s)))
                    @ q_body printable (drop n s)))"
  by pat_completeness auto
termination
  by (relation "measure (\<lambda>(_, s). length s)") (auto dest: rune_width_bounds)

declare q_body.simps [simp del]

definition go_quote :: "(nat \<Rightarrow> bool) \<Rightarrow> string \<Rightarrow> string" where
  "go_quote printable s = quote_char # q_body printable s @ [quote_char]"

text \<open>For printable ASCII text \<open>%q\<close> is JSON quoting; the two differ elsewhere.\<close>

definition print_ascii :: "string \<Rightarrow> bool" where
  "print_ascii s \<longleftrightarrow> (\<forall>c \<in> set s. 0x20 \<le> byte c \<and> byte c < 0x7F)"

lemma q_body_ascii:
  "print_ascii s \<Longrightarrow> raw_ok (q_body printable s) \<and> unquote (q_body printable s) = s"
proof (induction s)
  case Nil
  then show ?case by (simp add: q_body.simps unquote_simps)
next
  case (Cons c s)
  then have c: "0x20 \<le> byte c" "byte c < 0x7F" and IH: "raw_ok (q_body printable s)"
      "unquote (q_body printable s) = s"
    by (auto simp: print_ascii_def)
  have q: "q_body printable (c # s) = q_ascii c @ q_body printable s"
    using c by (subst q_body.simps) simp
  show ?case
  proof (cases "c = quote_char \<or> c = backslash")
    case True
    then have "q_ascii c = [backslash, c]" "simple_escape c = Some c"
      by (auto simp: q_ascii_def simple_escape_def)
    then show ?thesis
      using q IH raw_ok_append [OF raw_ok_escape, of c "q_body printable s"]
      by (simp add: unquote_simps)
  next
    case False
    then have "q_ascii c = [c]" using c by (simp add: q_ascii_def)
    then show ?thesis
      using q IH False c raw_ok_append [OF raw_ok_plain, of c "q_body printable s"]
      by (simp add: unquote_simps)
  qed
qed

subsection \<open>The library functions left as parameters\<close>

text \<open>
  What the standard library computes and the model does not: the text of a float64
  (\<open>gl_f64\<close>), Unicode's printable code points (\<open>gl_printable\<close>) and the text of a JSON error
  (\<open>gl_json_err\<close>). \<open>golib0\<close> is one instance of them.
\<close>

record golib =
  gl_f64 :: float_fmt
  gl_printable :: "nat \<Rightarrow> bool"
  gl_json_err :: "bytes \<Rightarrow> string"

definition golib0 :: golib where
  "golib0 =
     \<lparr>gl_f64 = (\<lambda>l. if num_ok l then Some l else None), gl_printable = (\<lambda>_. True),
      gl_json_err = (\<lambda>_. ''invalid character'')\<rparr>"

lemma golib0_f64_ok: "f64_ok (gl_f64 golib0)"
  by (simp add: f64_ok_def golib0_def)

end
