(* ===== verification/GoPath.thy ===== *)
theory GoPath
  imports GoUtf8 GoStrings
begin

section \<open>Go's \<open>path.Match\<close>\<close>

text \<open>
  The matcher is modelled with its syntax errors (\<open>None\<close>), which both callers in the source
  drop (\<open>matched, _ := path.Match(p, name)\<close>, with \<open>matched\<close> false on error): \<open>path_match\<close> is
  the boolean they use.
\<close>

subsection \<open>Chunks\<close>

text \<open>The next chunk, up to the next star outside a class, and the rest (\<open>scanChunk\<close>).\<close>

fun scan_body :: "bool \<Rightarrow> string \<Rightarrow> string \<times> string" where
  "scan_body inr [] = ([], [])"
| "scan_body inr [c] =
     (if c = CHR ''*'' \<and> \<not> inr then ([], [c]) else ([c], []))"
| "scan_body inr (c # e # r) =
     (if c = CHR 0x5C then map_prod (\<lambda>a. c # e # a) id (scan_body inr r)
      else if c = CHR ''*'' \<and> \<not> inr then ([], c # e # r)
      else map_prod ((#) c) id
        (scan_body (if c = CHR ''['' then True else if c = CHR '']'' then False else inr) (e # r)))"

definition scan_chunk :: "string \<Rightarrow> bool \<times> string \<times> string" where
  "scan_chunk p =
     (let q = dropWhile (\<lambda>c. c = CHR ''*'') p in (q \<noteq> p, scan_body False q))"

lemma scan_body_length: "scan_body inr p = (a, b) \<Longrightarrow> length a + length b = length p"
  by (induction inr p arbitrary: a b rule: scan_body.induct)
    (auto simp: map_prod_def split: if_splits prod.splits)

lemma scan_body_pos: "scan_body False (c # p) = (a, b) \<Longrightarrow> c \<noteq> CHR ''*'' \<Longrightarrow> 0 < length a"
  by (cases p) (auto simp: map_prod_def split: if_splits prod.splits)

lemma scan_chunk_shorter:
  assumes "scan_chunk p = (star, chunk, rest)" and "p \<noteq> []"
  shows "length rest < length p"
proof -
  let ?q = "dropWhile (\<lambda>c. c = CHR ''*'') p"
  have sb: "scan_body False ?q = (chunk, rest)" and st: "star = (?q \<noteq> p)"
    using assms(1) by (auto simp: scan_chunk_def Let_def)
  note len = scan_body_length [OF sb]
  have le: "length ?q \<le> length p" by (rule length_dropWhile_le)
  show ?thesis
  proof (cases "?q = p")
    case True
    then obtain c p' where c: "p = c # p'" "c \<noteq> CHR ''*''"
      using assms(2) hd_dropWhile [of "\<lambda>c. c = CHR ''*''" p] by (cases p) auto
    have "0 < length chunk" by (rule scan_body_pos [of c p' chunk rest]) (use sb c True in auto)
    then show ?thesis using len unfolding True by (cases chunk) auto
  next
    case False
    then have "length ?q < length p"
      using assms(2) by (cases p) (auto simp: less_Suc_eq_le length_dropWhile_le split: if_splits)
    then show ?thesis using len by simp
  qed
qed

subsection \<open>Character classes\<close>

text \<open>\<open>utf8.DecodeRuneInString\<close> on a non-empty string: the rune and its width.\<close>

definition decode_rune :: "string \<Rightarrow> nat \<times> nat" where
  "decode_rune s =
     (case rune_width s of None \<Rightarrow> (0xFFFD, 1) | Some n \<Rightarrow> (rune_value (take n s), n))"

definition get_esc :: "string \<Rightarrow> (nat \<times> string) option" where
  "get_esc chunk =
     (case chunk of
        [] \<Rightarrow> None
      | c # r \<Rightarrow>
          if c = CHR ''-'' \<or> c = CHR '']'' then None
          else
            (let body = (if c = CHR 0x5C then r else chunk) in
             if body = [] \<or> rune_width body = None then None
             else (case decode_rune body of
                     (rn, n) \<Rightarrow> if drop n body = [] then None else Some (rn, drop n body))))"

lemma get_esc_shorter: "get_esc chunk = Some (rn, r) \<Longrightarrow> length r < length chunk \<and> r \<noteq> []"
  by (auto simp: get_esc_def decode_rune_def Let_def dest!: rune_width_bounds
      split: list.splits if_splits option.splits prod.splits)

text \<open>
  The ranges of a class up to its closing bracket: whether \<open>r\<close> is in one of them, and the rest
  of the chunk. \<open>seen\<close> says that a range has been read (\<open>nrange > 0\<close>).
\<close>

function class_ranges :: "nat \<Rightarrow> bool \<Rightarrow> bool \<Rightarrow> string \<Rightarrow> (bool \<times> string) option" where
  "class_ranges r seen m chunk =
     (if chunk \<noteq> [] \<and> hd chunk = CHR '']'' \<and> seen then Some (m, tl chunk)
      else (case get_esc chunk of
              None \<Rightarrow> None
            | Some (lo, c1) \<Rightarrow>
                if hd c1 = CHR ''-'' then
                  (case get_esc (tl c1) of
                     None \<Rightarrow> None
                   | Some (hi, c2) \<Rightarrow> class_ranges r True (m \<or> (lo \<le> r \<and> r \<le> hi)) c2)
                else class_ranges r True (m \<or> lo = r) c1))"
  by pat_completeness auto
termination
proof (relation "measure (\<lambda>(_, _, _, chunk). length chunk)", goal_cases)
  case (2 r seen m chunk p lo c1 q hi c2)
  then show ?case
    using get_esc_shorter [of chunk lo c1] get_esc_shorter [of "tl c1" hi c2] by auto
qed (auto dest: get_esc_shorter)

declare class_ranges.simps [simp del]

lemma class_ranges_shorter:
  "class_ranges r seen m chunk = Some (m', rest) \<Longrightarrow> length rest \<le> length chunk"
proof (induction r seen m chunk rule: class_ranges.induct)
  case (1 r seen m chunk)
  show ?case
    using 1(3) 1(1) 1(2) get_esc_shorter
    by (subst (asm) class_ranges.simps)
      (fastforce split: if_splits option.splits prod.splits dest: get_esc_shorter)
qed

subsection \<open>Matching a chunk\<close>

text \<open>
  \<open>match_chunk chunk s\<close> is \<open>None\<close> for a malformed chunk, \<open>Some None\<close> for no match and
  \<open>Some (Some rest)\<close> for a match; the argument \<open>None\<close> is the code's \<open>failed\<close> flag, after
  which the chunk is only checked for well-formedness.
\<close>

definition skip_lit :: "char \<Rightarrow> string option \<Rightarrow> string option" where
  "skip_lit c s = (case s of Some (x # t) \<Rightarrow> if c = x then Some t else None | _ \<Rightarrow> None)"

definition skip_any :: "string option \<Rightarrow> string option" where
  "skip_any s =
     (case s of
        Some (x # t) \<Rightarrow>
          if x = CHR ''/'' then None else Some (drop (snd (decode_rune (x # t))) (x # t))
      | _ \<Rightarrow> None)"

definition class_rune :: "string option \<Rightarrow> nat" where
  "class_rune s = (case s of Some (x # t) \<Rightarrow> fst (decode_rune (x # t)) | _ \<Rightarrow> 0)"

definition skip_class :: "bool \<Rightarrow> string option \<Rightarrow> string option" where
  "skip_class matched s =
     (case s of
        Some (x # t) \<Rightarrow>
          if matched then Some (drop (snd (decode_rune (x # t))) (x # t)) else None
      | _ \<Rightarrow> None)"

function match_chunk :: "string \<Rightarrow> string option \<Rightarrow> string option option" where
  "match_chunk [] s = Some s"
| "match_chunk (c # r) s =
     (if c = CHR ''['' then
        (let neg = (r \<noteq> [] \<and> hd r = CHR 0x5E); body = (if neg then tl r else r) in
         (case class_ranges (class_rune s) False False body of
            None \<Rightarrow> None
          | Some (m, rest) \<Rightarrow> match_chunk rest (skip_class (m \<noteq> neg) s)))
      else if c = CHR ''?'' then match_chunk r (skip_any s)
      else if c = CHR 0x5C then
        (case r of [] \<Rightarrow> None | e # r' \<Rightarrow> match_chunk r' (skip_lit e s))
      else match_chunk r (skip_lit c s))"
  by pat_completeness auto
termination
proof (relation "measure (\<lambda>(chunk, _). length chunk)", goal_cases)
  case (2 c r s neg body p m rest)
  then have "length rest \<le> length body" using class_ranges_shorter by blast
  also have "length body \<le> length r" using 2 by simp
  finally show ?case by simp
qed auto

subsection \<open>Matching a pattern\<close>

text \<open>
  After a star the chunk is tried again one byte further on, never past a slash; a last chunk
  must use up the name. \<open>None\<close>: no position works.
\<close>

fun skip_match :: "string \<Rightarrow> bool \<Rightarrow> string \<Rightarrow> string option option" where
  "skip_match chunk final [] = Some None"
| "skip_match chunk final (c # name) =
     (if c = CHR ''/'' then Some None
      else (case match_chunk chunk (Some name) of
              None \<Rightarrow> None
            | Some (Some t) \<Rightarrow> if final \<and> t \<noteq> [] then skip_match chunk final name else Some (Some t)
            | Some None \<Rightarrow> skip_match chunk final name))"

function path_match :: "string \<Rightarrow> string \<Rightarrow> bool" where
  "path_match p name =
     (if p = [] then name = []
      else (case scan_chunk p of
              (star, chunk, rest) \<Rightarrow>
                if star \<and> chunk = [] then CHR ''/'' \<notin> set name
                else (case match_chunk chunk (Some name) of
                        None \<Rightarrow> False
                      | Some r \<Rightarrow>
                          if r = Some [] \<or> (r \<noteq> None \<and> rest \<noteq> []) then path_match rest (the r)
                          else if star then
                            (case skip_match chunk (rest = []) name of
                               Some (Some t) \<Rightarrow> path_match rest t
                             | _ \<Rightarrow> False)
                          else False)))"
  by pat_completeness auto
termination
  by (relation "measure (\<lambda>(p, _). length p)") (auto dest: scan_chunk_shorter [OF sym])

declare path_match.simps [simp del]

subsection \<open>What the patterns of the policy files match\<close>

text \<open>A literal has none of the characters the matcher treats specially.\<close>

definition literal :: "string \<Rightarrow> bool" where
  "literal p \<longleftrightarrow> set p \<inter> {CHR ''*'', CHR ''?'', CHR ''['', CHR '']'', CHR 0x5C} = {}"

lemma literal_Cons [simp]:
  "literal (c # p) \<longleftrightarrow>
     c \<noteq> CHR ''*'' \<and> c \<noteq> CHR ''?'' \<and> c \<noteq> CHR ''['' \<and> c \<noteq> CHR '']'' \<and> c \<noteq> CHR 0x5C \<and> literal p"
  by (auto simp: literal_def)

lemma literal_Nil [simp]: "literal []"
  by (simp add: literal_def)

lemma scan_body_literal_append:
  "literal p \<Longrightarrow> scan_body False (p @ q) = map_prod ((@) p) id (scan_body False q)"
proof (induction p)
  case (Cons c p)
  have "scan_body False (c # r) = map_prod ((#) c) id (scan_body False r)" for r
    using Cons.prems by (cases r) auto
  then show ?case using Cons by (simp add: map_prod_def split: prod.splits)
qed (simp add: map_prod_def split: prod.splits)

lemma scan_chunk_literal_append:
  "literal (c # p) \<Longrightarrow> scan_chunk (c # p @ q) = (False, map_prod ((@) (c # p)) id (scan_body False q))"
  using scan_body_literal_append [of "c # p" q] by (simp add: scan_chunk_def)

lemma scan_chunk_literal:
  assumes "literal (c # p)" and "q = [] \<or> hd q = CHR ''*''"
  shows "scan_chunk (c # p @ q) = (False, c # p, q)"
proof -
  have "scan_body False q = ([], q)"
    using assms(2) by (cases q rule: remdups_adj.cases) auto
  then show ?thesis using scan_chunk_literal_append [OF assms(1)] by simp
qed

lemma match_chunk_literal:
  "literal p \<Longrightarrow> match_chunk p (Some s) =
     Some (if has_prefix s p then Some (drop (length p) s) else None)"
proof -
  have fail: "literal p \<Longrightarrow> match_chunk p None = Some None" for p
    by (induction p) (auto simp: skip_lit_def)
  show "literal p \<Longrightarrow> ?thesis"
  proof (induction p arbitrary: s)
    case (Cons c p)
    then show ?case by (cases s) (auto simp: skip_lit_def fail)
  qed simp
qed

lemma path_match_Nil [simp]: "path_match [] n \<longleftrightarrow> n = []"
  by (simp add: path_match.simps)

lemma path_match_star [simp]: "path_match ''*'' n \<longleftrightarrow> CHR ''/'' \<notin> set n"
  by (simp add: path_match.simps scan_chunk_def)

text \<open>A literal first chunk must be a prefix of the name; the rest matches what follows.\<close>

lemma path_match_literal_append:
  assumes "literal p" and "q = [] \<or> hd q = CHR ''*''"
  shows "path_match (p @ q) n \<longleftrightarrow> (\<exists>t. n = p @ t \<and> path_match q t)"
proof (cases p)
  case Nil
  then show ?thesis by simp
next
  case (Cons c p')
  have "scan_chunk (p @ q) = (False, p, q)"
    using assms scan_chunk_literal [of c p' q] Cons by simp
  then have "path_match (p @ q) n \<longleftrightarrow>
      has_prefix n p \<and> (drop (length p) n = [] \<or> q \<noteq> []) \<and> path_match q (drop (length p) n)"
    using Cons match_chunk_literal [OF assms(1), of n]
    by (subst path_match.simps) (simp del: match_chunk.simps)
  then show ?thesis by (auto simp: has_prefix_iff)
qed

lemma path_match_literal: "literal p \<Longrightarrow> path_match p n \<longleftrightarrow> n = p"
  using path_match_literal_append [of p "[]" n] by auto

lemma path_match_prefix_star:
  "literal p \<Longrightarrow> path_match (p @ ''*'') n \<longleftrightarrow> (\<exists>t. n = p @ t \<and> CHR ''/'' \<notin> set t)"
  using path_match_literal_append [of p "''*''" n] by auto

text \<open>A pattern with a literal first segment matches only names of that segment.\<close>

lemma match_chunk_append_literal:
  "literal p \<Longrightarrow> match_chunk (p @ q) (Some n) = Some (Some t) \<Longrightarrow> has_prefix n p"
proof (induction p arbitrary: n)
  case (Cons c p)
  have fail: "match_chunk r None \<noteq> Some (Some t)" for r
  proof (induction "length r" arbitrary: r rule: less_induct)
    case less
    show ?case
    proof (cases r)
      case (Cons d r')
      then show ?thesis
        using less class_ranges_shorter
        by (auto simp: skip_class_def skip_any_def skip_lit_def Let_def class_rune_def
            split: option.splits list.splits) (fastforce dest!: class_ranges_shorter)+
    qed simp
  qed
  show ?case
    using Cons fail by (cases n) (auto simp: skip_lit_def split: if_splits)
qed simp

lemma path_match_literal_prefix:
  assumes "literal p" and "path_match (p @ q) n"
  shows "has_prefix n p"
proof (cases p)
  case (Cons c p')
  obtain a b where "scan_body False q = (a, b)" by fastforce
  then have "scan_chunk (p @ q) = (False, p @ a, b)"
    using scan_chunk_literal_append [of c p' q] assms(1) Cons by simp
  then have "\<exists>t. match_chunk (p @ a) (Some n) = Some (Some t)"
    using assms(2) Cons by (subst (asm) path_match.simps) (auto simp del: match_chunk.simps split: option.splits if_splits)
  then show ?thesis using match_chunk_append_literal [OF assms(1)] by blast
qed simp

text \<open>Ordinary text: no character that \<open>path.Match\<close> or the globs of OPA treat specially.\<close>

definition ordinary :: "string \<Rightarrow> bool" where
  "ordinary p \<longleftrightarrow> literal p \<and> CHR ''{'' \<notin> set p \<and> CHR ''}'' \<notin> set p"

theorem path_match_segment:
  assumes "literal p" and "CHR ''/'' \<notin> set p" and "path_match (p @ CHR ''/'' # q) n"
  shows "tool_prefix n = p"
proof -
  have "literal (p @ ''/'')" using assms(1) by (auto simp: literal_def)
  then have "has_prefix n (p @ ''/'')"
    using path_match_literal_prefix [of "p @ ''/''" q n] assms(3) by simp
  then show ?thesis using assms(2) by (auto simp: has_prefix_iff)
qed

end
