(* ===== verification/Domain.thy ===== *)
theory Domain
  imports GoText GoPath
begin

section \<open>The domain layer: types, interfaces and the dry run\<close>

text \<open>
  \<^verbatim>\<open>internal/domain\<close>: the records every component shares, the JSON-RPC error codes, the
  interfaces (records of functions; an operation with effects is an \<open>act\<close>), and the pure
  simulation \<open>DryRun\<close>.
\<close>

subsection \<open>Types (\<^verbatim>\<open>types.go\<close>)\<close>

text \<open>\<open>Params\<close> keeps the raw bytes; \<open>None\<close> is the nil \<open>RawMessage\<close> of a call without params.\<close>

record tool_call =
  tc_jsonrpc :: string
  tc_id :: goval
  tc_method :: string
  tc_params :: "bytes option"

record identity =
  id_user :: string
  id_email :: string
  id_groups :: "string list"
  id_entitlements :: "string list"
  id_provider :: string

record decision =
  d_permitted :: bool
  d_rule :: string
  d_reason :: string

record dryrun_result =
  dr_permitted :: bool
  dr_policy :: string
  dr_route :: string
  dr_reason :: string

record reduced_scope =
  rs_allowed :: "string list"
  rs_denied :: "string list"

record policy_entry =
  pe_group :: string
  pe_scope :: reduced_scope

record route_entry =
  rt_prefix :: string
  rt_backend :: string
  rt_obo :: string
  rt_transport :: string

text \<open>A \<open>time.Duration\<close> is a number of nanoseconds.\<close>

record assertion_config =
  ac_issuer :: string
  ac_audience :: string
  ac_ttl :: int
  ac_kms_arn :: string
  ac_key_id :: string

record idp_config =
  ip_name :: string
  ip_type :: string
  ip_discovery :: string
  ip_jwks :: string
  ip_client_id :: string
  ip_audience :: string
  ip_groups_claim :: string
  ip_metadata :: string
  ip_sp_entity :: string
  ip_acs :: string
  ip_cert :: string
  ip_key :: string

record secondary_provider =
  sp_name :: string
  sp_type :: string
  sp_auth_url :: string
  sp_token_url :: string
  sp_client_id :: string
  sp_secret_arn :: string
  sp_scopes :: "string list"
  sp_secret :: string

record token_store_config =
  tk_type :: string
  tk_table :: string
  tk_region :: string
  tk_data_dir :: string
  tk_kms_arn :: string

record identity_config =
  ic_providers :: "idp_config list"
  ic_secondary :: "secondary_provider list"
  ic_token_store :: "token_store_config option"

record routing_config =
  rc_routes :: "route_entry list"
  rc_assertion :: assertion_config

record config =
  cf_idps :: "idp_config list"
  cf_secondary :: "secondary_provider list"
  cf_token_store :: "token_store_config option"
  cf_routes :: "route_entry list"
  cf_policies :: "policy_entry list"
  cf_assertion :: assertion_config

record token_pair =
  tp_access :: string
  tp_refresh :: string

text \<open>The zero values a failing function returns beside its error are not observed.\<close>

definition empty_call :: tool_call where
  "empty_call = \<lparr>tc_jsonrpc = '''', tc_id = GNil, tc_method = '''', tc_params = None\<rparr>"

subsection \<open>Error codes (\<^verbatim>\<open>errors.go\<close>; the sentinels are in \<open>Prelude\<close>)\<close>

definition code_invalid_request :: int where "code_invalid_request = -32600"
definition code_service_unavailable :: int where "code_service_unavailable = -32002"
definition code_unauthenticated :: int where "code_unauthenticated = -32001"
definition code_unauthorized :: int where "code_unauthorized = -32003"
definition code_policy_denied :: int where "code_policy_denied = -32004"
definition code_invalid_params :: int where "code_invalid_params = -32602"

lemmas code_defs =
  code_invalid_request_def code_service_unavailable_def code_unauthenticated_def
  code_unauthorized_def code_policy_denied_def code_invalid_params_def

subsection \<open>Interfaces (\<^verbatim>\<open>interfaces.go\<close>) and the request context\<close>

text \<open>
  A token store's operations take no context: the implementations pass it to their drivers
  for cancellation only. \<open>ctx\<close> holds the values that the source stores in a
  \<open>context.Context\<close>: the caller's credentials (\<^verbatim>\<open>auth/authctx\<close>), the service
  credential (\<^verbatim>\<open>proxy/credctx.go\<close>) and the on-behalf-of context
  (\<^verbatim>\<open>proxy/obo_pipeline.go\<close>).
\<close>

record 'w token_store =
  ts_get :: "string \<Rightarrow> string \<Rightarrow> ('w, goerr + token_pair) act"
  ts_save :: "string \<Rightarrow> string \<Rightarrow> token_pair \<Rightarrow> ('w, goerr option) act"
  ts_delete :: "string \<Rightarrow> string \<Rightarrow> ('w, goerr option) act"

record 'w obo_context =
  oc_store :: "'w token_store"
  oc_user :: string
  oc_provider :: string

record 'w ctx =
  cx_bearer :: "string option"
  cx_saml :: "string option"
  cx_cred :: "string option"
  cx_obo :: "'w obo_context option"

type_synonym 'w identity_service = "'w ctx \<Rightarrow> ('w, goerr + identity) act"

record 'w policy_engine =
  pe_evaluate :: "'w ctx \<Rightarrow> identity \<Rightarrow> tool_call \<Rightarrow> ('w, goerr + decision) act"
  pe_filter :: "'w ctx \<Rightarrow> identity \<Rightarrow> string list \<Rightarrow> ('w, goerr + string list) act"

type_synonym 'w backend_transport =
  "'w ctx \<Rightarrow> string \<Rightarrow> tool_call \<Rightarrow> string \<Rightarrow> ('w, goerr + bytes) act"

type_synonym 'w assertion_minter = "'w ctx \<Rightarrow> identity \<Rightarrow> string \<Rightarrow> ('w, goerr + string) act"

definition background :: "'w ctx" where
  "background = \<lparr>cx_bearer = None, cx_saml = None, cx_cred = None, cx_obo = None\<rparr>"

definition with_bearer_token :: "'w ctx \<Rightarrow> string \<Rightarrow> 'w ctx" where
  "with_bearer_token c t = c\<lparr>cx_bearer := Some t\<rparr>"

definition bearer_token_from_context :: "'w ctx \<Rightarrow> string option" where
  "bearer_token_from_context c = cx_bearer c"

definition with_saml_assertion :: "'w ctx \<Rightarrow> string \<Rightarrow> 'w ctx" where
  "with_saml_assertion c x = c\<lparr>cx_saml := Some x\<rparr>"

definition saml_assertion_from_context :: "'w ctx \<Rightarrow> string option" where
  "saml_assertion_from_context c = cx_saml c"

definition with_service_credential :: "'w ctx \<Rightarrow> string \<Rightarrow> 'w ctx" where
  "with_service_credential c t = c\<lparr>cx_cred := Some t\<rparr>"

definition service_credential_from_context :: "'w ctx \<Rightarrow> string option" where
  "service_credential_from_context c = cx_cred c"

definition with_obo_context :: "'w ctx \<Rightarrow> 'w token_store \<Rightarrow> string \<Rightarrow> string \<Rightarrow> 'w ctx" where
  "with_obo_context c st u p = c\<lparr>cx_obo := Some \<lparr>oc_store = st, oc_user = u, oc_provider = p\<rparr>\<rparr>"

definition obo_context_from_context :: "'w ctx \<Rightarrow> 'w obo_context option" where
  "obo_context_from_context c = cx_obo c"

lemmas ctx_defs =
  with_bearer_token_def bearer_token_from_context_def with_saml_assertion_def
  saml_assertion_from_context_def with_service_credential_def service_credential_from_context_def
  with_obo_context_def obo_context_from_context_def background_def

subsection \<open>The dry run (\<^verbatim>\<open>dryrun.go\<close>)\<close>

definition dry_tool_name :: "tool_call \<Rightarrow> string" where
  "dry_tool_name call =
     (case tc_params call of
        None \<Rightarrow> []
      | Some ps \<Rightarrow>
          if ps = [] then []
          else (case unmarshal_string ''name'' ps of None \<Rightarrow> [] | Some n \<Rightarrow> n))"

fun matches_any :: "string \<Rightarrow> string list \<Rightarrow> bool" where
  "matches_any tool [] = False"
| "matches_any tool (p # ps) = (if path_match p tool then True else matches_any tool ps)"

fun first_match :: "string \<Rightarrow> string list \<Rightarrow> string option" where
  "first_match tool [] = None"
| "first_match tool (p # ps) = (if path_match p tool then Some p else first_match tool ps)"

text \<open>The loop over the entries: the text of the first one that permits the tool.\<close>

fun dry_policy :: "string \<Rightarrow> string list \<Rightarrow> policy_entry list \<Rightarrow> string option" where
  "dry_policy tool groups [] = None"
| "dry_policy tool groups (e # es) =
     (if pe_group e \<notin> set groups then dry_policy tool groups es
      else if matches_any tool (rs_denied (pe_scope e)) then dry_policy tool groups es
      else (case first_match tool (rs_allowed (pe_scope e)) of
              Some p \<Rightarrow> Some (pe_group e @ '' -> '' @ p)
            | None \<Rightarrow> dry_policy tool groups es))"

fun dry_route :: "string \<Rightarrow> route_entry list \<Rightarrow> string option" where
  "dry_route prefix [] = None"
| "dry_route prefix (r # rs) =
     (if rt_prefix r = prefix then Some (rt_backend r) else dry_route prefix rs)"

definition dry_run :: "config \<Rightarrow> identity \<Rightarrow> tool_call \<Rightarrow> dryrun_result" where
  "dry_run cfg idn call =
     (let tool = dry_tool_name call in
      case dry_policy tool (id_groups idn) (cf_policies cfg) of
        None \<Rightarrow>
          \<lparr>dr_permitted = False, dr_policy = [], dr_route = [],
           dr_reason = ''no policy permits tool '' @ [CHR 0x22] @ tool @ [CHR 0x22]
             @ '' for the caller'' @ [CHR 0x27] @ ''s groups''\<rparr>
      | Some mp \<Rightarrow>
          (case dry_route (tool_prefix tool) (cf_routes cfg) of
             Some uri \<Rightarrow>
               \<lparr>dr_permitted = True, dr_policy = mp, dr_route = uri, dr_reason = []\<rparr>
           | None \<Rightarrow>
               \<lparr>dr_permitted = False, dr_policy = mp, dr_route = [],
                dr_reason = ''no route configured for tool prefix '' @ [CHR 0x22]
                  @ tool_prefix tool @ [CHR 0x22]\<rparr>))"

subsection \<open>What the loops compute\<close>

lemma matches_any_iff: "matches_any tool ps \<longleftrightarrow> (\<exists>p \<in> set ps. path_match p tool)"
  by (induction ps) auto

lemma first_match_find: "first_match tool ps = find (\<lambda>p. path_match p tool) ps"
  by (induction ps) auto

lemma dry_route_find: "dry_route prefix rs = map_option rt_backend (find (\<lambda>r. rt_prefix r = prefix) rs)"
  by (induction rs) auto

text \<open>An entry permits a tool when one of its groups is the caller's and its lists say so.\<close>

definition entry_permits :: "string list \<Rightarrow> string \<Rightarrow> policy_entry \<Rightarrow> bool" where
  "entry_permits groups tool e \<longleftrightarrow>
     pe_group e \<in> set groups \<and> \<not> (\<exists>p \<in> set (rs_denied (pe_scope e)). path_match p tool)
       \<and> (\<exists>p \<in> set (rs_allowed (pe_scope e)). path_match p tool)"

lemma dry_policy_None: "dry_policy tool groups es = None \<longleftrightarrow> \<not> (\<exists>e \<in> set es. entry_permits groups tool e)"
  by (induction es)
    (auto simp: entry_permits_def matches_any_iff first_match_find find_None_iff find_Some_iff
      split: option.splits)

lemma dry_policy_Some:
  "dry_policy tool groups es = Some t \<Longrightarrow>
     \<exists>e \<in> set es. \<exists>p \<in> set (rs_allowed (pe_scope e)).
       entry_permits groups tool e \<and> path_match p tool \<and> t = pe_group e @ '' -> '' @ p"
proof (induction es)
  case (Cons e es)
  show ?case
  proof (cases "first_match tool (rs_allowed (pe_scope e))")
    case None
    then show ?thesis using Cons by (auto split: if_splits)
  next
    case (Some p)
    then have "p \<in> set (rs_allowed (pe_scope e))" "path_match p tool"
      by (auto simp: first_match_find find_Some_iff)
    with Some Cons show ?thesis
      by (auto simp: entry_permits_def matches_any_iff split: if_splits)
  qed
qed simp

subsection \<open>A sample caller\<close>

definition demo_caller :: identity where
  "demo_caller = \<lparr>id_user = ''ann'', id_email = [], id_groups = [''dev''], id_entitlements = [], id_provider = ''idp''\<rparr>"

subsection \<open>What the dry run answers\<close>

text \<open>
  It permits exactly when some entry of the caller's groups allows the tool without denying it
  itself and some route has the tool's prefix.
\<close>

lemma dry_run_permits_iff:
  "dr_permitted (dry_run cfg idn call) \<longleftrightarrow>
      (\<exists>e \<in> set (cf_policies cfg). entry_permits (id_groups idn) (dry_tool_name call) e)
        \<and> (\<exists>r \<in> set (cf_routes cfg). rt_prefix r = tool_prefix (dry_tool_name call))"
proof -
  let ?t = "dry_tool_name call"
  have "dr_permitted (dry_run cfg idn call) \<longleftrightarrow>
      dry_policy ?t (id_groups idn) (cf_policies cfg) \<noteq> None \<and> dry_route (tool_prefix ?t) (cf_routes cfg) \<noteq> None"
    by (simp add: dry_run_def Let_def split: option.splits)
  then show ?thesis
    unfolding dry_policy_None dry_route_find by (auto simp: find_None_iff)
qed

end
