(* ===== verification/JsonRpc.thy ===== *)
theory JsonRpc
  imports Domain
begin

section \<open>JSON-RPC 2.0 messages (\<^verbatim>\<open>internal/proxy/jsonrpc.go\<close>)\<close>

text \<open>
  \<open>ParseToolCall\<close>, \<open>ErrorResponse\<close> and \<open>SuccessResponse\<close> on bytes, and the readers of a call's
  parameters. The lemmas show that every response is JSON and what a client reads from it.
\<close>

subsection \<open>Parsing a request\<close>

text \<open>The members of an object decoded into \<open>ToolCall\<close>; \<open>None\<close> is a type error.\<close>

definition decode_call :: "golib \<Rightarrow> (string \<times> json) list \<Rightarrow> tool_call option" where
  "decode_call G ms =
     (case (str_field (field_vals ''jsonrpc'' ms) [], any_field (gl_f64 G) (field_vals ''id'' ms) GNil,
            str_field (field_vals ''method'' ms) []) of
        (Some v, Some i, Some m) \<Rightarrow>
          Some \<lparr>tc_jsonrpc = v, tc_id = i, tc_method = m, tc_params = raw_field (field_vals ''params'' ms)\<rparr>
      | _ \<Rightarrow> None)"

definition unmarshal_call :: "golib \<Rightarrow> bytes \<Rightarrow> tool_call option" where
  "unmarshal_call G data =
     (case json_parse data of
        None \<Rightarrow> None
      | Some (JObj ms) \<Rightarrow> decode_call G ms
      | Some JNull \<Rightarrow> Some empty_call
      | Some _ \<Rightarrow> None)"

definition parse_tool_call :: "golib \<Rightarrow> bytes \<Rightarrow> goerr + tool_call" where
  "parse_tool_call G data =
     (case unmarshal_call G data of
        None \<Rightarrow> Inl (wrap_err ErrInvalidRequest (gl_json_err G data))
      | Some call \<Rightarrow>
          if tc_jsonrpc call \<noteq> ''2.0'' then
            Inl (wrap_err ErrInvalidRequest (''jsonrpc field must be '' @ [CHR 0x22] @ ''2.0''
                   @ [CHR 0x22] @ '', got '' @ go_quote (gl_printable G) (tc_jsonrpc call)))
          else if tc_method call = [] then
            Inl (wrap_err ErrInvalidRequest ''method field is required'')
          else Inr call)"

text \<open>
  The identifier for the answer to a request that does not parse: \<open>Handle\<close> decodes
  \<open>struct{ID any}\<close> first and ignores the error. Inside an array or object a number out of range
  is nil; as the member's own value it leaves what an earlier member of the name has set.
\<close>

primrec to_any_soft :: "float_fmt \<Rightarrow> json \<Rightarrow> goval" where
  "to_any_soft f64 JNull = GNil"
| "to_any_soft f64 (JBool b) = GBool b"
| "to_any_soft f64 (JNum l) = (case f64 l of None \<Rightarrow> GNil | Some t \<Rightarrow> GNum t)"
| "to_any_soft f64 (JStr r) = GStr (unquote r)"
| "to_any_soft f64 (JArr js) = GArr (map (to_any_soft f64) js)"
| "to_any_soft f64 (JObj ms) =
     GMap (obj_map [] (zip (map (\<lambda>m. unquote (fst m)) ms) (map snd (map (map_prod id (to_any_soft f64)) ms))))"

fun soft_field :: "float_fmt \<Rightarrow> json list \<Rightarrow> goval \<Rightarrow> goval" where
  "soft_field f64 [] acc = acc"
| "soft_field f64 (JNum l # js) acc = soft_field f64 js (case f64 l of None \<Rightarrow> acc | Some t \<Rightarrow> GNum t)"
| "soft_field f64 (j # js) acc = soft_field f64 js (to_any_soft f64 j)"

definition id_holder :: "golib \<Rightarrow> bytes \<Rightarrow> goval" where
  "id_holder G data =
     (case json_parse data of
        Some (JObj ms) \<Rightarrow> soft_field (gl_f64 G) (field_vals ''id'' ms) GNil
      | _ \<Rightarrow> GNil)"

definition tool_name_from_call :: "tool_call \<Rightarrow> string" where
  "tool_name_from_call call =
     (case tc_params call of
        None \<Rightarrow> []
      | Some ps \<Rightarrow> (case unmarshal_string ''name'' ps of None \<Rightarrow> [] | Some n \<Rightarrow> n))"

definition origin_jti_from_token :: "string \<Rightarrow> string" where
  "origin_jti_from_token token =
     (if token = [] then []
      else case jwt_claim ''jti'' token of None \<Rightarrow> [] | Some j \<Rightarrow> j)"

subsection \<open>Building a response\<close>

text \<open>
  The wire records \<open>jsonRPCResponse\<close> and \<open>jsonRPCError\<close>; \<open>result\<close> and \<open>error\<close> are left out
  when nil (\<open>omitempty\<close>).
\<close>

record jsonrpc_error =
  je_code :: int
  je_message :: string

record jsonrpc_response =
  jr_jsonrpc :: string
  jr_id :: goval
  jr_result :: goval
  jr_error :: "jsonrpc_error option"

definition error_json :: "jsonrpc_error \<Rightarrow> json" where
  "error_json e = JObj [(''code'', JNum (show_int (je_code e))), (''message'', JStr (quote (je_message e)))]"

definition response_json :: "jsonrpc_response \<Rightarrow> json" where
  "response_json r =
     JObj ([(''jsonrpc'', JStr (quote (jr_jsonrpc r))), (''id'', any_json (jr_id r))]
           @ (if jr_result r = GNil then [] else [(''result'', any_json (jr_result r))])
           @ (case jr_error r of None \<Rightarrow> [] | Some e \<Rightarrow> [(''error'', error_json e)]))"

definition error_response :: "goval \<Rightarrow> int \<Rightarrow> string \<Rightarrow> bytes" where
  "error_response i code message =
     json_print (response_json
       \<lparr>jr_jsonrpc = ''2.0'', jr_id = i, jr_result = GNil,
        jr_error = Some \<lparr>je_code = code, je_message = message\<rparr>\<rparr>)"

definition success_response :: "goval \<Rightarrow> goval \<Rightarrow> bytes" where
  "success_response i res =
     json_print (response_json
       \<lparr>jr_jsonrpc = ''2.0'', jr_id = i, jr_result = res, jr_error = None\<rparr>)"

subsection \<open>Identifiers fit into a response\<close>

lemma to_any_depth:
  "to_any f64 j = Some v \<Longrightarrow> json_depth j \<le> d \<Longrightarrow> json_depth (any_json v) \<le> d"
proof (induction j arbitrary: v d)
  case (JArr js)
  then obtain vs where vs: "those (map (to_any f64) js) = Some vs" and v: "v = GArr vs" by auto
  have "json_depth (any_json w) \<le> d - 1" if w: "w \<in> set vs" for w
  proof -
    obtain j where "j \<in> set js" "to_any f64 j = Some w" using those_map_set [OF vs w] by blast
    then show ?thesis using JArr.IH [of j w "d - 1"] JArr.prems(2) by simp
  qed
  then show ?case using v JArr.prems(2) by simp
next
  case (JObj ms)
  then obtain vs where vs: "those (map (snd \<circ> map_prod id (to_any f64)) ms) = Some vs"
      and v: "v = GMap (obj_map [] (zip (map (\<lambda>m. unquote (fst m)) ms) vs))"
    by (auto simp: comp_def)
  have "json_depth (any_json w) \<le> d - 1" if w: "w \<in> set vs" for w
  proof -
    obtain m where "m \<in> set ms" "to_any f64 (snd m) = Some w" using those_map_set [OF vs w] by auto
    then show ?thesis
      using JObj.IH [of m "snd m" w "d - 1"] JObj.prems(2) by (cases m) (auto simp: snds.simps)
  qed
  moreover have "snd m \<in> set vs" if "m \<in> set (obj_map [] (zip (map (\<lambda>m. unquote (fst m)) ms) vs))" for m
    using subsetD [OF set_obj_map that] by (cases m) (auto dest: set_zip_rightD)
  ultimately show ?case using v JObj.prems(2) by fastforce
qed auto

lemma any_field_depth:
  "any_field f64 js acc = Some v \<Longrightarrow> json_depth (any_json acc) \<le> d \<Longrightarrow>
     (\<And>j. j \<in> set js \<Longrightarrow> json_depth j \<le> d) \<Longrightarrow> json_depth (any_json v) \<le> d"
proof (induction js arbitrary: acc)
  case (Cons j js)
  then obtain w where w: "to_any f64 j = Some w" "any_field f64 js w = Some v"
    by (auto split: option.splits)
  moreover have "json_depth (any_json w) \<le> d" using to_any_depth [OF w(1)] Cons.prems(3) [of j] by simp
  ultimately show ?case using Cons by auto
qed simp

definition id_ok :: "goval \<Rightarrow> bool" where
  "id_ok v \<longleftrightarrow> nums_ok v \<and> json_depth (any_json v) < max_nesting"

lemma set_field_vals: "j \<in> set (field_vals f ms) \<Longrightarrow> \<exists>k. (k, j) \<in> set ms"
  by (auto simp: field_vals_def)

lemma parse_tool_call_Some:
  "parse_tool_call G data = Inr call \<Longrightarrow>
     (\<exists>ms. json_parse data = Some (JObj ms) \<and> decode_call G ms = Some call)
       \<and> tc_jsonrpc call = ''2.0'' \<and> tc_method call \<noteq> []"
  by (auto simp: parse_tool_call_def unmarshal_call_def empty_call_def
      split: option.splits json.splits if_splits)

lemma parse_tool_call_id_ok:
  assumes "f64_ok (gl_f64 G)" and "parse_tool_call G data = Inr call"
  shows "id_ok (tc_id call)"
proof -
  obtain ms where ms: "json_parse data = Some (JObj ms)" "decode_call G ms = Some call"
    using parse_tool_call_Some [OF assms(2)] by blast
  then have f: "any_field (gl_f64 G) (field_vals ''id'' ms) GNil = Some (tc_id call)"
    by (auto simp: decode_call_def split: option.splits)
  have d: "json_depth (JObj ms) \<le> max_nesting" using json_parse_ok [OF ms(1)] by simp
  have "j \<in> set (field_vals ''id'' ms) \<Longrightarrow> json_depth j \<le> max_nesting - 1" for j
    using set_field_vals d by fastforce
  then have "json_depth (any_json (tc_id call)) \<le> max_nesting - 1"
    by (rule any_field_depth [OF f, rotated]) (simp_all add: max_nesting_def)
  then show ?thesis
    using any_field_nums_ok [OF assms(1) _ f] by (simp add: id_ok_def)
qed

subsection \<open>Responses are JSON\<close>

text \<open>ASCII without controls, quotes and backslashes is its own JSON string body.\<close>

definition plain_text :: "string \<Rightarrow> bool" where
  "plain_text s \<longleftrightarrow> list_all (\<lambda>c. c \<noteq> quote_char \<and> c \<noteq> backslash \<and> \<not> byte c < 0x20 \<and> byte c < 0x80 \<and> \<not> html_char c) s"

lemma plain_text_ok: "plain_text s \<Longrightarrow> raw_ok s"
  by (rule raw_ok_plain_list) (auto simp: plain_text_def list_all_iff)

lemma plain_text_unquote: "plain_text s \<Longrightarrow> unquote s = s"
  by (induction s) (auto simp: plain_text_def unquote_simps)

lemma plain_text_quote: "plain_text s \<Longrightarrow> quote s = s"
  by (induction s; subst quote.simps)
    (auto simp: plain_text_def quote_ascii_def dest: arg_cong [where f = byte])

lemma show_nat_hd: "0 < n \<Longrightarrow> hd (show_nat n) \<noteq> CHR ''0''"
proof (induction n rule: show_nat.induct)
  case (1 n)
  show ?case
  proof (cases "n < 10")
    case True
    then have "byte (digit_char n) \<noteq> byte (CHR ''0'')"
      using 1(2) by (simp add: digit_char_def)
    then have "digit_char n \<noteq> CHR ''0''" by metis
    then show ?thesis using True by (simp add: show_nat.simps [of n])
  next
    case False
    then show ?thesis using 1(1) by (simp add: show_nat.simps [of n])
  qed
qed

lemma scan_num_show_nat: "scan_num (show_nat n) = Some (show_nat n, [])"
proof -
  obtain c r where c: "show_nat n = c # r" using show_nat_ne [of n] by (cases "show_nat n") auto
  have d: "is_digit x" if "x \<in> set (c # r)" for x using that show_nat_digits [of x n] c by simp
  then have tw: "takeWhile is_digit r = r" "dropWhile is_digit r = []"
    by (auto simp: takeWhile_eq_all_conv dropWhile_eq_Nil_conv)
  have "c \<noteq> CHR ''-''" using d [of c] by (auto simp: is_digit_def)
  moreover have "r = []" if "c = CHR ''0''"
  proof -
    have "n = 0" using show_nat_hd [of n] c that by auto
    then show ?thesis using c by (simp add: show_nat.simps)
  qed
  ultimately show ?thesis
    using d [of c] unfolding c
    by (auto simp: scan_num_def scan_sign_def scan_int_def scan_frac_def scan_exp_def tw)
qed

lemma num_ok_show_int [simp]: "num_ok (show_int i)"
proof (cases "i < 0")
  case True
  have "scan_sign {CHR ''-''} (show_nat n) = ([], show_nat n)" for n
  proof (cases "show_nat n")
    case (Cons c r)
    then have "is_digit c" using show_nat_digits [of c n] by simp
    then show ?thesis using Cons by (auto simp: scan_sign_def is_digit_def)
  qed simp
  then show ?thesis
    using True scan_num_show_nat [of "nat (- i)"]
    by (auto simp: num_ok_def show_int_def scan_num_def scan_sign_def split: prod.splits option.splits)
qed (simp add: num_ok_def show_int_def scan_num_show_nat)

lemma field_names_ok [simp]:
  "raw_ok ''code''" "raw_ok ''message''" "raw_ok ''jsonrpc''" "raw_ok ''id''" "raw_ok ''result''"
  "raw_ok ''error''" "raw_ok ''name''" "raw_ok ''method''" "raw_ok ''params''" "raw_ok ''tools''"
  by (rule plain_text_ok, simp add: plain_text_def html_char_def)+

lemma response_json_ok:
  assumes "id_ok (jr_id r)" and "id_ok (jr_result r)"
  shows "json_ok (response_json r)" and "json_depth (response_json r) \<le> max_nesting"
  using assms
  by (auto simp: response_json_def error_json_def id_ok_def quote_ok any_json_ok max_nesting_def
      split: option.splits)

lemma id_ok_GNil [simp]: "id_ok GNil"
  by (simp add: id_ok_def max_nesting_def)

text \<open>What a client reads back.\<close>

lemma error_response_parse:
  assumes "id_ok i"
  shows "json_parse (error_response i code msg) =
     Some (JObj [(''jsonrpc'', JStr ''2.0''), (''id'', any_json i),
                 (''error'', JObj [(''code'', JNum (show_int code)), (''message'', JStr (quote msg))])])"
proof -
  have "quote ''2.0'' = ''2.0''" by (rule plain_text_quote) (simp add: plain_text_def html_char_def)
  then show ?thesis
    using assms response_json_ok [of "\<lparr>jr_jsonrpc = ''2.0'', jr_id = i, jr_result = GNil,
        jr_error = Some \<lparr>je_code = code, je_message = msg\<rparr>\<rparr>"]
    by (simp add: error_response_def json_parse_print) (simp add: response_json_def error_json_def)
qed

lemma success_response_parse:
  assumes "id_ok i" and "id_ok r" and "r \<noteq> GNil"
  shows "json_parse (success_response i r) =
     Some (JObj [(''jsonrpc'', JStr ''2.0''), (''id'', any_json i), (''result'', any_json r)])"
proof -
  have "quote ''2.0'' = ''2.0''" by (rule plain_text_quote) (simp add: plain_text_def html_char_def)
  then show ?thesis
    using assms response_json_ok [of "\<lparr>jr_jsonrpc = ''2.0'', jr_id = i, jr_result = r, jr_error = None\<rparr>"]
    by (simp add: success_response_def json_parse_print) (simp add: response_json_def)
qed

end
