(* ===== verification/Backends.thy ===== *)
theory Backends
  imports JsonRpc
begin

section \<open>Backend transports (\<^verbatim>\<open>sse_transport.go\<close>, \<^verbatim>\<open>sse_backend_transport.go\<close>)\<close>

text \<open>
  The HTTP client is a parameter: whether it accepts a URL, and what \<open>Do\<close> answers to a
  request. A response body is the bytes that arrive, the error, if any, that ends them, and
  whether it is \<open>http.NoBody\<close>, which answers every read with the end of input, also after \<open>Close\<close>.
\<close>

record http_body =
  hb_bytes :: bytes
  hb_error :: "string option"
  hb_no_body :: bool

record http_response =
  hr_status :: int
  hr_header :: "string \<Rightarrow> string"
  hr_body :: http_body

record 'w http_request =
  rq_method :: string
  rq_url :: string
  rq_header :: "(string \<times> string) list"
  rq_body :: "bytes option"
  rq_ctx :: "'w ctx"

record 'w http_client =
  hc_new_request :: "string \<Rightarrow> string option"
  hc_do :: "'w http_request \<Rightarrow> ('w, string + http_response) act"

text \<open>\<open>io.ReadAll\<close>, and \<open>io.ReadAll(io.LimitReader(r, n))\<close>, which stops before a later error.\<close>

definition read_all :: "http_body \<Rightarrow> string + bytes" where
  "read_all b = (case hb_error b of None \<Rightarrow> Inr (hb_bytes b) | Some e \<Rightarrow> Inl e)"

definition read_limited :: "nat \<Rightarrow> http_body \<Rightarrow> string + bytes" where
  "read_limited n b = (if n \<le> length (hb_bytes b) then Inr (take n (hb_bytes b)) else read_all b)"

text \<open>\<open>Header.Set\<close> on the request's headers (every name the source sets is canonical).\<close>

definition header_set :: "string \<Rightarrow> string \<Rightarrow> (string \<times> string) list \<Rightarrow> (string \<times> string) list" where
  "header_set k v hs = filter (\<lambda>h. fst h \<noteq> k) hs @ [(k, v)]"

lemma map_of_header_set [simp]: "map_of (header_set k v hs) = (map_of hs)(k \<mapsto> v)"
proof
  fix x
  have "map_of (filter (\<lambda>h. fst h \<noteq> k) hs) x = (if x = k then None else map_of hs x)"
    by (induction hs) auto
  then show "map_of (header_set k v hs) x = ((map_of hs)(k \<mapsto> v)) x"
    by (auto simp: header_set_def map_add_def split: option.splits)
qed

subsection \<open>Marshalling a call\<close>

definition marshal_call :: "golib \<Rightarrow> tool_call \<Rightarrow> goerr + bytes" where
  "marshal_call G call =
     (let head = [(''jsonrpc'', JStr (quote (tc_jsonrpc call))), (''id'', any_json (tc_id call)),
                  (''method'', JStr (quote (tc_method call)))] in
      case tc_params call of
        None \<Rightarrow> Inr (json_print (JObj head))
      | Some ps \<Rightarrow>
          if ps = [] then Inr (json_print (JObj head))
          else (case marshal_raw ps of
                  None \<Rightarrow> Inl (plain_err (gl_json_err G ps))
                | Some j \<Rightarrow> Inr (json_print (JObj (head @ [(''params'', j)])))))"

subsection \<open>Plain HTTP\<close>

definition http_headers :: "string option \<Rightarrow> string \<Rightarrow> (string \<times> string) list" where
  "http_headers cred token =
     (let h1 = header_set ''Content-Type'' ''application/json'' [];
          h2 = (case cred of
                  Some c \<Rightarrow> if c \<noteq> [] then header_set ''Authorization'' (''Bearer '' @ c) h1 else h1
                | None \<Rightarrow> h1)
      in if token \<noteq> [] then header_set ''X-Abaris-Identity'' token h2 else h2)"

definition http_forward :: "golib \<Rightarrow> 'w http_client \<Rightarrow> 'w backend_transport" where
  "http_forward G H c url call token =
     (case marshal_call G call of
        Inl e \<Rightarrow> ret (Inl (prefix_err ''marshal tool call: '' e))
      | Inr body \<Rightarrow>
          (case hc_new_request H url of
             Some t \<Rightarrow> ret (Inl (wrap_err ErrServiceUnavailable (''create request: '' @ t)))
           | None \<Rightarrow> State_Monad.bind
               (hc_do H \<lparr>rq_method = ''POST'', rq_url = url,
                         rq_header = http_headers (service_credential_from_context c) token,
                         rq_body = Some body, rq_ctx = c\<rparr>)
               (\<lambda>r. ret (case r of
                    Inl t \<Rightarrow> Inl (wrap_err ErrServiceUnavailable t)
                  | Inr resp \<Rightarrow>
                      (case read_all (hr_body resp) of
                         Inl t \<Rightarrow> Inl (wrap_err ErrServiceUnavailable (''read response: '' @ t))
                       | Inr b \<Rightarrow> Inr b)))))"

text \<open>The constructor: for a nil client the default one.\<close>

definition new_http_backend_transport :: "golib \<Rightarrow> 'w http_client \<Rightarrow> 'w http_client option \<Rightarrow> 'w backend_transport" where
  "new_http_backend_transport G default_client client =
     http_forward G (case client of None \<Rightarrow> default_client | Some H \<Rightarrow> H)"

subsection \<open>MCP streamable HTTP\<close>

definition max_sse_response_size :: nat where
  "max_sse_response_size = 32 * 1024 * 1024"

definition mcp_protocol_version :: string where
  "mcp_protocol_version = ''2024-11-05''"

definition sse_headers :: "string \<Rightarrow> string \<Rightarrow> string \<Rightarrow> (string \<times> string) list" where
  "sse_headers cred token session =
     (let h1 = header_set ''Accept'' ''application/json, text/event-stream''
                 (header_set ''Content-Type'' ''application/json'' []);
          h2 = (if cred \<noteq> [] then header_set ''Authorization'' (''Bearer '' @ cred) h1 else h1);
          h3 = (if token \<noteq> [] then header_set ''X-Abaris-Identity'' token h2 else h2)
      in if session \<noteq> [] then header_set ''Mcp-Session-Id'' session h3 else h3)"

text \<open>The loop over the lines of a stream, with the type of the event being read.\<close>

fun first_message :: "string \<Rightarrow> string list \<Rightarrow> string option" where
  "first_message ev [] = None"
| "first_message ev (l # ls) =
     (let line = trim_right_cr l in
      if line = [] then first_message [] ls
      else if has_prefix line ''event:'' then first_message (trim_space (trim_prefix line ''event:'')) ls
      else if has_prefix line ''data:'' then
        (if ev = ''message'' \<or> ev = [] then Some (trim_space (trim_prefix line ''data:''))
         else first_message ev ls)
      else first_message ev ls)"

definition read_first_message :: "string + bytes \<Rightarrow> string \<Rightarrow> goerr + bytes" where
  "read_first_message r url =
     (case r of
        Inl t \<Rightarrow> Inl (wrap_err ErrServiceUnavailable (''sse backend: read stream from '' @ url @ '': '' @ t))
      | Inr body \<Rightarrow>
          (case first_message [] (split_on (CHR 0x0A) body) of
             Some d \<Rightarrow> Inr d
           | None \<Rightarrow> Inl (wrap_err ErrServiceUnavailable
                       (''sse backend: stream from '' @ url @ '' closed without message event''))))"

text \<open>
  \<open>post\<close> returns body, headers and status, or an error and a status (0 when there was no
  response). An error of \<open>io.ReadAll\<close> on a plain body is returned as it is.
\<close>

record sse_reply =
  sr_body :: bytes
  sr_header :: "string \<Rightarrow> string"

definition sse_post :: "golib \<Rightarrow> 'w http_client \<Rightarrow> 'w ctx \<Rightarrow> string \<Rightarrow> tool_call \<Rightarrow> string \<Rightarrow> string \<Rightarrow> string
    \<Rightarrow> ('w, (goerr + sse_reply) \<times> int) act" where
  "sse_post G H c url call cred token session =
     (case marshal_call G call of
        Inl e \<Rightarrow> ret (Inl (prefix_err ''sse backend: marshal call: '' e), 0)
      | Inr body \<Rightarrow>
          (case hc_new_request H url of
             Some t \<Rightarrow> ret (Inl (wrap_err ErrServiceUnavailable (''sse backend: create request: '' @ t)), 0)
           | None \<Rightarrow> State_Monad.bind
               (hc_do H \<lparr>rq_method = ''POST'', rq_url = url, rq_header = sse_headers cred token session,
                         rq_body = Some body, rq_ctx = c\<rparr>)
               (\<lambda>r. ret (case r of
                    Inl t \<Rightarrow> (Inl (wrap_err ErrServiceUnavailable (''sse backend: POST '' @ url @ '': '' @ t)), 0)
                  | Inr resp \<Rightarrow>
                      if hr_status resp \<noteq> 200 \<and> hr_status resp \<noteq> 202 then
                        (Inl (wrap_err ErrServiceUnavailable (''sse backend: POST '' @ url @ '' returned ''
                           @ show_int (hr_status resp) @ '': '' @ take 4096 (hb_bytes (hr_body resp)))),
                         hr_status resp)
                      else
                        (case (if contains (hr_header resp ''Content-Type'') ''text/event-stream''
                               then read_first_message (read_limited max_sse_response_size (hr_body resp)) url
                               else (case read_limited max_sse_response_size (hr_body resp) of
                                       Inl t \<Rightarrow> Inl (plain_err t)
                                     | Inr b \<Rightarrow> Inr b)) of
                           Inl e \<Rightarrow> (Inl e, hr_status resp)
                         | Inr b \<Rightarrow> (Inr \<lparr>sr_body = b, sr_header = hr_header resp\<rparr>, hr_status resp))))))"

text \<open>The literal parameters of \<open>initialize\<close>: a JSON object over five lines.\<close>

definition init_params :: bytes where
  "init_params =
     (let q = (\<lambda>s. [CHR 0x22] @ s @ [CHR 0x22]); tabs = (\<lambda>n. CHR 0x0A # replicate n (CHR 0x09)) in
      ''{'' @ tabs 3 @ q ''protocolVersion'' @ '': '' @ q mcp_protocol_version @ '',''
      @ tabs 3 @ q ''capabilities'' @ '': {},''
      @ tabs 3 @ q ''clientInfo'' @ '': {'' @ q ''name'' @ '': '' @ q ''abaris'' @ '', ''
      @ q ''version'' @ '': '' @ q ''1.0'' @ ''}'' @ tabs 2 @ ''}'')"

definition init_call :: tool_call where
  "init_call =
     \<lparr>tc_jsonrpc = ''2.0'', tc_id = GNum ''0'', tc_method = ''initialize'', tc_params = Some init_params\<rparr>"

text \<open>
  The error object of a JSON-RPC response, decoded into a pointer to
  \<open>struct{Code int; Message string}\<close>: \<open>Inl\<close> when \<open>Unmarshal\<close> returns an error. A code is an
  integer literal in the range of a Go \<open>int\<close>.
\<close>

definition int_literal :: "string \<Rightarrow> int option" where
  "int_literal l =
     (let neg = (l \<noteq> [] \<and> hd l = CHR ''-''); ds = (if neg then tl l else l) in
      if ds \<noteq> [] \<and> list_all is_digit ds then
        (let n = fold (\<lambda>c acc. acc * 10 + int (byte c - 48)) ds 0; v = (if neg then - n else n) in
         if - (2 ^ 63) \<le> v \<and> v < 2 ^ 63 then Some v else None)
      else None)"

fun int_field :: "json list \<Rightarrow> int \<Rightarrow> int option" where
  "int_field [] acc = Some acc"
| "int_field (JNum l # js) acc = (case int_literal l of None \<Rightarrow> None | Some v \<Rightarrow> int_field js v)"
| "int_field (JNull # js) acc = int_field js acc"
| "int_field (_ # js) acc = None"

definition error_value :: "json \<Rightarrow> jsonrpc_error \<Rightarrow> jsonrpc_error option" where
  "error_value j acc =
     (case j of
        JObj ms \<Rightarrow>
          (case (int_field (field_vals ''code'' ms) (je_code acc),
                 str_field (field_vals ''message'' ms) (je_message acc)) of
             (Some c, Some m) \<Rightarrow> Some \<lparr>je_code = c, je_message = m\<rparr>
           | _ \<Rightarrow> None)
      | _ \<Rightarrow> None)"

fun error_field :: "json list \<Rightarrow> jsonrpc_error option \<Rightarrow> jsonrpc_error option option" where
  "error_field [] acc = Some acc"
| "error_field (JNull # js) acc = error_field js None"
| "error_field (j # js) acc =
     (case error_value j (case acc of None \<Rightarrow> \<lparr>je_code = 0, je_message = []\<rparr> | Some e \<Rightarrow> e) of
        None \<Rightarrow> None
      | Some e \<Rightarrow> error_field js (Some e))"

definition response_error :: "bytes \<Rightarrow> jsonrpc_error option" where
  "response_error data =
     (case json_parse data of
        Some (JObj ms) \<Rightarrow> (case error_field (field_vals ''error'' ms) None of Some r \<Rightarrow> r | None \<Rightarrow> None)
      | _ \<Rightarrow> None)"

definition sse_initialize :: "golib \<Rightarrow> 'w http_client \<Rightarrow> 'w ctx \<Rightarrow> string \<Rightarrow> string \<Rightarrow> string
    \<Rightarrow> ('w, goerr + string) act" where
  "sse_initialize G H c url cred token =
     State_Monad.bind (sse_post G H c url init_call cred token [])
       (\<lambda>(r, _). ret (case r of
            Inl e \<Rightarrow> Inl (prefix_err ''sse backend: initialize: '' e)
          | Inr reply \<Rightarrow>
              (case response_error (sr_body reply) of
                 Some e \<Rightarrow> Inl (wrap_err ErrServiceUnavailable (''sse backend: initialize rejected by server: ''
                              @ show_int (je_code e) @ '' '' @ je_message e))
               | None \<Rightarrow> Inr (sr_header reply ''Mcp-Session-Id''))))"

definition sse_send :: "golib \<Rightarrow> 'w http_client \<Rightarrow> 'w ctx \<Rightarrow> string \<Rightarrow> tool_call \<Rightarrow> string \<Rightarrow> string \<Rightarrow> string
    \<Rightarrow> ('w, goerr + bytes) act" where
  "sse_send G H c url call cred token session =
     State_Monad.bind (sse_post G H c url call cred token session)
       (\<lambda>(r, status).
          (case r of
             Inr reply \<Rightarrow> ret (Inr (sr_body reply))
           | Inl e \<Rightarrow>
               if status = 404 \<and> session \<noteq> [] then
                 State_Monad.bind (sse_initialize G H c url cred token)
                   (\<lambda>s. case s of
                          Inl e' \<Rightarrow> ret (Inl e')
                        | Inr session' \<Rightarrow>
                            State_Monad.bind (sse_post G H c url call cred token session')
                              (\<lambda>(r', _). ret (case r' of Inl e' \<Rightarrow> Inl e' | Inr reply \<Rightarrow> Inr (sr_body reply))))
               else ret (Inl e)))"

definition sse_forward :: "golib \<Rightarrow> 'w http_client \<Rightarrow> 'w backend_transport" where
  "sse_forward G H c url call token =
     (let cred = (case service_credential_from_context c of None \<Rightarrow> [] | Some t \<Rightarrow> t) in
      State_Monad.bind (sse_initialize G H c url cred token)
        (\<lambda>s. case s of
               Inl e \<Rightarrow> ret (Inl e)
             | Inr session \<Rightarrow> sse_send G H c url call cred token session))"

text \<open>The constructor, whose default client has a time limit, and the preview of a body for the log.\<close>

definition new_sse_backend_transport :: "golib \<Rightarrow> 'w http_client \<Rightarrow> 'w http_client option \<Rightarrow> 'w backend_transport" where
  "new_sse_backend_transport G default_client client =
     sse_forward G (case client of None \<Rightarrow> default_client | Some H \<Rightarrow> H)"

lemma new_transports [simp]:
  "new_http_backend_transport G d None = http_forward G d" "new_http_backend_transport G d (Some H) = http_forward G H"
  "new_sse_backend_transport G d None = sse_forward G d" "new_sse_backend_transport G d (Some H) = sse_forward G H"
  by (simp_all add: new_http_backend_transport_def new_sse_backend_transport_def)

definition preview_string :: "string \<Rightarrow> nat \<Rightarrow> string" where
  "preview_string s n = (if length s \<le> n then s else take n s @ ''...'')"

subsection \<open>What is sent\<close>

text \<open>The credential that leaves is the service credential, or none.\<close>

lemma http_headers_authorization:
  "map_of (http_headers cred token) ''Authorization'' =
     (case cred of Some c \<Rightarrow> if c \<noteq> [] then Some (''Bearer '' @ c) else None | None \<Rightarrow> None)"
  by (simp add: http_headers_def Let_def split: option.splits)

lemma http_headers_identity:
  "map_of (http_headers cred token) ''X-Abaris-Identity'' = (if token \<noteq> [] then Some token else None)"
  by (simp add: http_headers_def Let_def split: option.splits)

lemma http_headers_keys:
  "dom (map_of (http_headers cred token)) \<subseteq> {''Content-Type'', ''Authorization'', ''X-Abaris-Identity''}"
  by (auto simp: http_headers_def Let_def split: option.splits if_splits)

lemma sse_headers_authorization:
  "map_of (sse_headers cred token session) ''Authorization'' =
     (if cred \<noteq> [] then Some (''Bearer '' @ cred) else None)"
  by (simp add: sse_headers_def Let_def)

lemma sse_headers_session:
  "map_of (sse_headers cred token session) ''Mcp-Session-Id'' = (if session \<noteq> [] then Some session else None)"
  by (simp add: sse_headers_def Let_def)

text \<open>A call without parameters, or with parameters that are JSON, can be marshalled.\<close>

definition params_ok :: "tool_call \<Rightarrow> bool" where
  "params_ok call \<longleftrightarrow> (case tc_params call of None \<Rightarrow> True | Some ps \<Rightarrow> ps = [] \<or> json_parse ps \<noteq> None)"

lemma marshal_call_ok: "params_ok call \<Longrightarrow> \<exists>b. marshal_call G call = Inr b"
  by (auto simp: params_ok_def marshal_call_def marshal_raw_def Let_def split: option.splits)

lemma raw_field_parse:
  assumes "json_ok (JObj ms)" and "json_depth (JObj ms) \<le> max_nesting"
    and "raw_field (field_vals f ms) = Some ps"
  shows "\<exists>j. json_parse ps = Some j"
proof -
  have ne: "field_vals f ms \<noteq> []" and ps: "ps = json_print (last (field_vals f ms))"
    using assms(3) by (auto simp: raw_field_def split: if_splits)
  then have "last (field_vals f ms) \<in> set (field_vals f ms)" by simp
  then obtain k where "(k, last (field_vals f ms)) \<in> set ms" using set_field_vals by blast
  then have "json_ok (last (field_vals f ms))" "json_depth (last (field_vals f ms)) \<le> max_nesting"
    using assms(1,2) by (fastforce simp: max_nesting_def)+
  then show ?thesis using ps json_parse_print by auto
qed

lemma parsed_params_ok:
  assumes "parse_tool_call G data = Inr call"
  shows "params_ok call"
proof -
  obtain ms where ms: "json_parse data = Some (JObj ms)" "decode_call G ms = Some call"
    using parse_tool_call_Some [OF assms] by blast
  have ok: "json_ok (JObj ms)" "json_depth (JObj ms) \<le> max_nesting"
    using json_parse_ok [OF ms(1)] by auto
  have "tc_params call = raw_field (field_vals ''params'' ms)"
    using ms(2) by (auto simp: decode_call_def split: option.splits)
  then show ?thesis
    using raw_field_parse [OF ok, of "''params''"] by (auto simp: params_ok_def split: option.splits)
qed

subsection \<open>Reading a stream\<close>

text \<open>
  Lines as a server writes them: whole events of other types are passed over, then the data of
  the first event of type \<open>message\<close> is the answer. A word is text without surrounding space.
\<close>

definition word_text :: "string \<Rightarrow> bool" where
  "word_text s \<longleftrightarrow> s \<noteq> [] \<and> trim_right_cr s = s \<and> trim_space s = s"

definition event_lines :: "string \<times> string \<Rightarrow> string list" where
  "event_lines e = [''event: '' @ fst e, ''data: '' @ snd e, []]"

lemma trim_right_cr_snoc: "trim_right_cr (s @ [c]) = (if c = CHR 0x0D then trim_right_cr s else s @ [c])"
  by (simp add: trim_right_cr_def)

lemma trim_right_cr_le: "length (trim_right_cr s) \<le> length s"
  using length_dropWhile_le [of _ "rev s"] by (simp add: trim_right_cr_def)

lemma trim_right_cr_append: "t \<noteq> [] \<Longrightarrow> trim_right_cr t = t \<Longrightarrow> trim_right_cr (s @ t) = s @ t"
proof (cases t rule: rev_cases)
  case (snoc ys c)
  assume "trim_right_cr t = t"
  then have "c \<noteq> CHR 0x0D"
    using trim_right_cr_le [of ys] snoc by (auto simp: trim_right_cr_snoc dest: arg_cong [where f = length])
  then show ?thesis using snoc trim_right_cr_snoc [of "s @ ys" c] by simp
qed simp

lemma trim_space_blank: "trim_space (CHR '' '' # s) = trim_space s"
  by (simp add: trim_space_def space_seqs_def)

lemma first_message_skip:
  assumes "word_text (fst e)" and "word_text (snd e)" and "fst e \<noteq> ''message''"
  shows "first_message ev (event_lines e @ ls) = first_message [] ls"
proof -
  have "trim_right_cr (''event: '' @ fst e) = ''event: '' @ fst e"
      "trim_right_cr (''data: '' @ snd e) = ''data: '' @ snd e"
    using assms trim_right_cr_append [of "fst e" "''event: ''"] trim_right_cr_append [of "snd e" "''data: ''"]
    by (auto simp: word_text_def)
  then show ?thesis
    using assms by (auto simp: event_lines_def word_text_def trim_prefix_def trim_space_blank trim_right_cr_def)
qed

lemma first_message_found:
  assumes "\<forall>e \<in> set es. word_text (fst e) \<and> word_text (snd e) \<and> fst e \<noteq> ''message''" and "word_text d"
  shows "first_message ev (concat (map event_lines es) @ event_lines (''message'', d) @ ls) = Some d"
  using assms(1)
proof (induction es arbitrary: ev)
  case Nil
  have "trim_right_cr (''data: '' @ d) = ''data: '' @ d"
    using assms(2) trim_right_cr_append [of d "''data: ''"] by (auto simp: word_text_def)
  moreover have "trim_right_cr ''event: message'' = ''event: message''" by (simp add: trim_right_cr_def)
  moreover have "trim_space ''message'' = ''message''" by code_simp
  ultimately show ?case
    using assms(2) by (simp add: event_lines_def word_text_def trim_prefix_def trim_space_blank)
next
  case (Cons e es)
  then show ?case using first_message_skip [of e ev] by simp
qed

subsection \<open>The contract of a backend transport\<close>

text \<open>
  What the broker relies on: of the request context a transport reads the service credential
  only, so nothing else in it, the caller's own credentials in particular, can reach a
  backend. Both transports have it over any client that does not read values from a context.
\<close>

locale transport_laws =
  fixes forward :: "'w backend_transport"
  assumes cred_only: "cx_cred c = cx_cred c' \<Longrightarrow> forward c url call token = forward c' url call token"
begin

lemma caller_credential_unseen:
  "forward (with_service_credential (with_bearer_token c t) s) url call token =
     forward (with_service_credential c s) url call token"
  "forward (with_service_credential (with_saml_assertion c x) s) url call token =
     forward (with_service_credential c s) url call token"
  by (rule cred_only, simp add: ctx_defs)+

end

locale client_laws =
  fixes H :: "'w http_client"
  assumes ctx_unread: "hc_do H (r\<lparr>rq_ctx := c\<rparr>) = hc_do H r"
begin

lemma do_ctx:
  "hc_do H \<lparr>rq_method = m, rq_url = u, rq_header = hs, rq_body = b, rq_ctx = c\<rparr> =
     hc_do H \<lparr>rq_method = m, rq_url = u, rq_header = hs, rq_body = b, rq_ctx = c'\<rparr>"
  using ctx_unread [of c "\<lparr>rq_method = m, rq_url = u, rq_header = hs, rq_body = b, rq_ctx = c'\<rparr>"] by simp

lemma post_ctx: "sse_post G H c = sse_post G H c'"
  by (intro ext) (simp add: sse_post_def do_ctx [of _ _ _ _ c c'] split: sum.splits option.splits)

lemma initialize_ctx: "sse_initialize G H c = sse_initialize G H c'"
  by (intro ext) (simp add: sse_initialize_def post_ctx [of _ c c'])

lemma send_ctx: "sse_send G H c = sse_send G H c'"
  unfolding sse_send_def [abs_def] post_ctx [of _ c c'] initialize_ctx [of _ c c'] ..

end

sublocale client_laws \<subseteq> http: transport_laws "http_forward G H" for G
proof
  fix c c' :: "'w ctx" and url token call
  assume "cx_cred c = cx_cred c'"
  then show "http_forward G H c url call token = http_forward G H c' url call token"
    by (simp add: http_forward_def service_credential_from_context_def do_ctx [of _ _ _ _ c c']
        split: sum.splits option.splits)
qed

sublocale client_laws \<subseteq> sse: transport_laws "sse_forward G H" for G
proof
  fix c c' :: "'w ctx" and url token call
  assume "cx_cred c = cx_cred c'"
  then show "sse_forward G H c url call token = sse_forward G H c' url call token"
    by (simp add: sse_forward_def service_credential_from_context_def initialize_ctx [of _ c c']
        send_ctx [of _ c c'])
qed

context client_laws begin

lemma http_cred_only:
  "cx_cred c = cx_cred c' \<Longrightarrow> http_forward G H c url call token = http_forward G H c' url call token"
  by (rule http.cred_only)

lemma sse_cred_only:
  "cx_cred c = cx_cred c' \<Longrightarrow> sse_forward G H c url call token = sse_forward G H c' url call token"
  by (rule sse.cred_only)

end

subsection \<open>A property of both transports\<close>

text \<open>
  C25: The caller's credentials stay with the broker. For both transports, and any HTTP client
  that does not read credentials from a request's context, what is sent with a service
  credential is the same whatever bearer token or SAML assertion the caller presented.
\<close>

theorem caller_credentials_stay:
  assumes "client_laws H"
  shows "http_forward G H (with_service_credential (with_saml_assertion (with_bearer_token c t) x) s) url call token =
      http_forward G H (with_service_credential c s) url call token
    \<and> sse_forward G H (with_service_credential (with_saml_assertion (with_bearer_token c t) x) s) url call token =
      sse_forward G H (with_service_credential c s) url call token"
  by (intro conjI client_laws.http_cred_only [OF assms] client_laws.sse_cred_only [OF assms]) (simp_all add: ctx_defs)

definition demo_http :: "unit http_client" where
  "demo_http = \<lparr>hc_new_request = (\<lambda>_. None),
     hc_do = (\<lambda>r. ret (Inr \<lparr>hr_status = 200, hr_header = (\<lambda>_. []), hr_body = \<lparr>hb_bytes = ''{}'', hb_error = None, hb_no_body = False\<rparr>\<rparr>))\<rparr>"

interpretation demo_http: client_laws demo_http
  by unfold_locales (simp add: demo_http_def)

theorem caller_credentials_stay_witness:
  "http_forward golib0 demo_http (with_service_credential (with_saml_assertion (with_bearer_token background ''secret'') ''<x/>'') ''s'')
       ''http://b'' empty_call ''t'' = http_forward golib0 demo_http (with_service_credential background ''s'') ''http://b'' empty_call ''t''"
  using caller_credentials_stay [OF demo_http.client_laws_axioms] by blast

end
