(* ===== verification/Opa.thy ===== *)
theory Opa
  imports Domain
begin

section \<open>The policy engine (\<^verbatim>\<open>internal/policy/opa_adapter.go\<close>, \<^verbatim>\<open>policies/abaris.rego\<close>)\<close>

text \<open>
  OPA itself is a library: \<open>glob.match\<close> and the texts of its errors are parameters
  (\<open>opa_lib\<close>). The policy module is the repository's and is translated rule by rule. A rule
  \<open>name := value if body\<close> is complete: its default when no body holds, an evaluation error when
  two bodies give different values. Strings are taken to be valid UTF-8, so that OPA's copying
  of input and data through JSON leaves them as they are.
\<close>

record opa_lib =
  ol_glob :: "string \<Rightarrow> string \<Rightarrow> bool"
  ol_conflict :: string

subsection \<open>Input and data\<close>

record opa_input =
  oi_groups :: "string list"
  oi_entitlements :: "string list"
  oi_tool :: string
  oi_operation :: string
  oi_allowed :: "string list"
  oi_denied :: "string list"

record data_entry =
  de_group :: string
  de_allowed :: "string list"
  de_denied :: "string list"

definition build_data_doc :: "policy_entry list \<Rightarrow> data_entry list" where
  "build_data_doc ps =
     map (\<lambda>p. \<lparr>de_group = pe_group p, de_allowed = rs_allowed (pe_scope p),
              de_denied = rs_denied (pe_scope p)\<rparr>) ps"

subsection \<open>The rules of \<^verbatim>\<open>abaris.authz\<close>\<close>

definition known_operations :: "string list" where
  "known_operations = [''read'', ''write'', ''delete'']"

definition operation_known :: "opa_input \<Rightarrow> bool" where
  "operation_known i \<longleftrightarrow> oi_operation i \<in> set known_operations"

definition operation_acceptable :: "opa_input \<Rightarrow> bool" where
  "operation_acceptable i \<longleftrightarrow> operation_known i \<or> oi_operation i = ''''"

definition caller_entries :: "data_entry list \<Rightarrow> opa_input \<Rightarrow> data_entry list" where
  "caller_entries ds i = filter (\<lambda>d. de_group d \<in> set (oi_groups i)) ds"

definition tool_denied :: "opa_lib \<Rightarrow> data_entry list \<Rightarrow> opa_input \<Rightarrow> bool" where
  "tool_denied L ds i \<longleftrightarrow>
     (\<exists>d \<in> set (caller_entries ds i). \<exists>p \<in> set (de_denied d). ol_glob L p (oi_tool i))"

definition rego_allow :: "opa_lib \<Rightarrow> data_entry list \<Rightarrow> opa_input \<Rightarrow> bool" where
  "rego_allow L ds i \<longleftrightarrow>
     operation_acceptable i \<and> \<not> tool_denied L ds i
       \<and> (\<exists>d \<in> set (caller_entries ds i). \<exists>p \<in> set (de_allowed d). ol_glob L p (oi_tool i))"

text \<open>The values of a complete rule, and its default.\<close>

definition complete_rule :: "opa_lib \<Rightarrow> string \<Rightarrow> string list \<Rightarrow> goerr + string" where
  "complete_rule L dflt vs =
     (case remdups vs of
        [] \<Rightarrow> Inr dflt
      | [v] \<Rightarrow> Inr v
      | _ \<Rightarrow> Inl (plain_err (ol_conflict L)))"

definition matched_rule_ids :: "opa_lib \<Rightarrow> data_entry list \<Rightarrow> opa_input \<Rightarrow> string list" where
  "matched_rule_ids L ds i =
     (if rego_allow L ds i \<and> \<not> tool_denied L ds i then
        concat (map (\<lambda>d. map (\<lambda>p. de_group d @ '' -> '' @ p)
                          (filter (\<lambda>p. ol_glob L p (oi_tool i)) (de_allowed d)))
                    (caller_entries ds i))
      else [])"

definition deny_default :: string where
  "deny_default = ''no policy permits this tool call for the caller'' @ [CHR 0x27] @ ''s groups''"

definition deny_unknown_op :: string where
  "deny_unknown_op = ''unauthorized: unknown operation type; deny-by-default applied''"

definition deny_read_only :: string where
  "deny_read_only = ''unauthorized: read-only group cannot perform write or delete operations''"

definition deny_no_policy :: string where
  "deny_no_policy = ''unauthorized: '' @ deny_default"

definition deny_reasons :: "opa_lib \<Rightarrow> data_entry list \<Rightarrow> opa_input \<Rightarrow> string list" where
  "deny_reasons L ds i =
     (if \<not> rego_allow L ds i \<and> \<not> operation_acceptable i then [deny_unknown_op] else [])
     @ (if \<not> rego_allow L ds i \<and> operation_known i \<and> ''read-only'' \<in> set (oi_groups i)
           \<and> oi_operation i \<noteq> ''read'' then [deny_read_only] else [])
     @ (if \<not> rego_allow L ds i \<and> operation_known i \<and> ''read-only'' \<notin> set (oi_groups i)
        then [deny_no_policy] else [])"

text \<open>The query binds the three rules; a result set is a list of bindings.\<close>

datatype rego_value = RBool bool | RStr string

type_synonym result_set = "(string \<times> rego_value) list list"

definition rego_eval :: "opa_lib \<Rightarrow> data_entry list \<Rightarrow> opa_input \<Rightarrow> goerr + result_set" where
  "rego_eval L ds i =
     (case complete_rule L [] (matched_rule_ids L ds i) of
        Inl e \<Rightarrow> Inl e
      | Inr rid \<Rightarrow>
          (case complete_rule L deny_default (deny_reasons L ds i) of
             Inl e \<Rightarrow> Inl e
           | Inr why \<Rightarrow>
               Inr [[(''allow'', RBool (rego_allow L ds i)), (''matched_rule'', RStr rid),
                     (''deny_reason'', RStr why)]]))"

subsection \<open>The adapter\<close>

text \<open>
  The prepared query is the data it was compiled with; \<open>oa_policies\<close> is the copy kept for
  reloading. What the library answers to each step of \<open>load\<close> is an argument: \<open>None\<close>, or the
  text of its error.
\<close>

record opa =
  oa_path :: string
  oa_query :: "data_entry list"
  oa_policies :: "policy_entry list"

record bundle_outcome =
  bo_write_txn :: "string option"
  bo_read_bundle :: "string option"
  bo_activate :: "string option"
  bo_commit :: "string option"
  bo_read_txn :: "string option"
  bo_prepare :: "string option"

definition bundle_loads :: bundle_outcome where
  "bundle_loads =
     \<lparr>bo_write_txn = None, bo_read_bundle = None, bo_activate = None, bo_commit = None,
      bo_read_txn = None, bo_prepare = None\<rparr>"

definition opa_load :: "golib \<Rightarrow> bundle_outcome \<Rightarrow> string \<Rightarrow> policy_entry list \<Rightarrow> opa \<Rightarrow> goerr option \<times> opa" where
  "opa_load G bo path ps a =
     (case bo_write_txn bo of
        Some t \<Rightarrow> (Some (plain_err (''open store transaction: '' @ t)), a)
      | None \<Rightarrow> (case bo_read_bundle bo of
        Some t \<Rightarrow> (Some (plain_err (''read bundle at '' @ go_quote (gl_printable G) path @ '': '' @ t)), a)
      | None \<Rightarrow> (case bo_activate bo of
        Some t \<Rightarrow> (Some (plain_err (''activate bundle: '' @ t)), a)
      | None \<Rightarrow> (case bo_commit bo of
        Some t \<Rightarrow> (Some (plain_err (''commit bundle activation: '' @ t)), a)
      | None \<Rightarrow> (case bo_read_txn bo of
        Some t \<Rightarrow> (Some (plain_err (''open read transaction: '' @ t)), a)
      | None \<Rightarrow> (case bo_prepare bo of
        Some t \<Rightarrow> (Some (plain_err (''prepare query: '' @ t)), a)
      | None \<Rightarrow> (None, a\<lparr>oa_query := build_data_doc ps, oa_policies := ps\<rparr>)))))))"

definition opa_new :: "golib \<Rightarrow> bundle_outcome \<Rightarrow> string \<Rightarrow> policy_entry list \<Rightarrow> goerr + opa" where
  "opa_new G bo path ps =
     (case opa_load G bo path ps \<lparr>oa_path = path, oa_query = [], oa_policies = []\<rparr> of
        (Some e, _) \<Rightarrow> Inl (prefix_err ''policy: load bundle: '' e)
      | (None, a) \<Rightarrow> Inr a)"

definition update_policies :: "golib \<Rightarrow> bundle_outcome \<Rightarrow> policy_entry list \<Rightarrow> opa \<Rightarrow> goerr option \<times> opa" where
  "update_policies G bo ps a = opa_load G bo (oa_path a) ps a"

text \<open>One tick of \<open>StartHotReload\<close>; an error is only logged.\<close>

definition hot_reload_tick :: "golib \<Rightarrow> bundle_outcome \<Rightarrow> opa \<Rightarrow> opa" where
  "hot_reload_tick G bo a = snd (opa_load G bo (oa_path a) (oa_policies a) a)"

subsection \<open>Evaluation\<close>

definition any_prefix :: "string \<Rightarrow> string list \<Rightarrow> bool" where
  "any_prefix s ps \<longleftrightarrow> list_ex (has_prefix s) ps"

definition short_name :: "string \<Rightarrow> string" where
  "short_name tool =
     (if CHR ''/'' \<in> set tool then tl (dropWhile (\<lambda>c. c \<noteq> CHR ''/'') tool) else tool)"

definition infer_operation :: "string \<Rightarrow> string" where
  "infer_operation tool =
     (let n = map (\<lambda>c. if c = CHR ''_'' then CHR ''-'' else c) (short_name tool) in
      if any_prefix n [''get-'', ''list-'', ''read-'', ''fetch-'', ''search-''] then ''read''
      else if any_prefix n [''create-'', ''update-'', ''put-'', ''post-'', ''patch-'', ''add-'', ''set-'']
        then ''write''
      else if any_prefix n [''delete-'', ''remove-'', ''destroy-'', ''purge-''] then ''delete''
      else [])"

definition tool_name_and_operation :: "tool_call \<Rightarrow> string \<times> string" where
  "tool_name_and_operation call =
     (case tc_params call of
        None \<Rightarrow> ([], [])
      | Some ps \<Rightarrow>
          (case unmarshal_string ''name'' ps of
             None \<Rightarrow> ([], [])
           | Some n \<Rightarrow> (n, infer_operation n)))"

text \<open>The code ranges over Go maps: only the sets of the two lists are determined.\<close>

definition scope_for_groups :: "policy_entry list \<Rightarrow> string list \<Rightarrow> string list \<times> string list" where
  "scope_for_groups ps groups =
     (let mine = filter (\<lambda>p. pe_group p \<in> set groups) ps in
      (add_new [] (concat (map (\<lambda>p. rs_allowed (pe_scope p)) mine)),
       add_new [] (concat (map (\<lambda>p. rs_denied (pe_scope p)) mine))))"

definition decision_from_result_set :: "result_set \<Rightarrow> decision" where
  "decision_from_result_set rs =
     (case rs of
        [] \<Rightarrow> \<lparr>d_permitted = False, d_rule = [], d_reason = ''no policy decision produced''\<rparr>
      | b # _ \<Rightarrow>
          if b = [] then \<lparr>d_permitted = False, d_rule = [], d_reason = ''no policy decision produced''\<rparr>
          else
            (let allowed = (case map_of b ''allow'' of Some (RBool x) \<Rightarrow> x | _ \<Rightarrow> False);
                 rid = (case map_of b ''matched_rule'' of Some (RStr s) \<Rightarrow> s | _ \<Rightarrow> []);
                 why = (case map_of b ''deny_reason'' of Some (RStr s) \<Rightarrow> s | _ \<Rightarrow> [])
             in if allowed then \<lparr>d_permitted = True, d_rule = rid, d_reason = []\<rparr>
                else \<lparr>d_permitted = False, d_rule = rid, d_reason = why\<rparr>))"

text \<open>
  \<open>Evaluate\<close> reads the shared adapter twice, each time under a lock of its own: the policies, for
  the input, and then the query. Here both are read at once; \<open>OpaConcurrency\<close> takes them apart.
\<close>

definition evaluation_input :: "policy_entry list \<Rightarrow> identity \<Rightarrow> tool_call \<Rightarrow> opa_input" where
  "evaluation_input ps idn call =
     (case tool_name_and_operation call of (tool, operation) \<Rightarrow>
      (case scope_for_groups ps (id_groups idn) of (allowed, denied) \<Rightarrow>
        \<lparr>oi_groups = id_groups idn, oi_entitlements = id_entitlements idn, oi_tool = tool,
         oi_operation = operation, oi_allowed = allowed, oi_denied = denied\<rparr>))"

definition eval_query :: "opa_lib \<Rightarrow> data_entry list \<Rightarrow> opa_input \<Rightarrow> goerr + result_set" where
  "eval_query L query i = rego_eval L query i"

definition decide :: "opa_lib \<Rightarrow> data_entry list \<Rightarrow> opa_input \<Rightarrow> goerr + decision" where
  "decide L query i =
     (case eval_query L query i of
        Inl e \<Rightarrow> Inl (wrap_err ErrServiceUnavailable (err_text e))
      | Inr rs \<Rightarrow> Inr (decision_from_result_set rs))"

definition opa_evaluate :: "opa_lib \<Rightarrow> opa \<Rightarrow> identity \<Rightarrow> tool_call \<Rightarrow> goerr + decision" where
  "opa_evaluate L a idn call = decide L (oa_query a) (evaluation_input (oa_policies a) idn call)"

lemmas opa_evaluate_unfold = opa_evaluate_def decide_def eval_query_def evaluation_input_def

definition filter_call :: "golib \<Rightarrow> string \<Rightarrow> tool_call" where
  "filter_call G name =
     \<lparr>tc_jsonrpc = ''2.0'', tc_id = GNil, tc_method = ''tools/call'',
      tc_params = Some (''{'' @ [CHR 0x22] @ ''name'' @ [CHR 0x22] @ '':''
                        @ go_quote (gl_printable G) name @ ''}'')\<rparr>"

fun filter_loop :: "(tool_call \<Rightarrow> goerr + decision) \<Rightarrow> golib \<Rightarrow> string list \<Rightarrow> goerr + string list" where
  "filter_loop ev G [] = Inr []"
| "filter_loop ev G (n # ns) =
     (case ev (filter_call G n) of
        Inl e \<Rightarrow> Inl e
      | Inr d \<Rightarrow>
          (case filter_loop ev G ns of
             Inl e \<Rightarrow> Inl e
           | Inr r \<Rightarrow> Inr (if d_permitted d then n # r else r)))"

definition opa_filter_tools :: "opa_lib \<Rightarrow> golib \<Rightarrow> opa \<Rightarrow> identity \<Rightarrow> string list \<Rightarrow> goerr + string list" where
  "opa_filter_tools L G a idn names = filter_loop (opa_evaluate L a idn) G names"

text \<open>The adapter behind the interface, its state read from the world by \<open>get\<close>.\<close>

definition opa_engine :: "opa_lib \<Rightarrow> golib \<Rightarrow> ('w \<Rightarrow> opa) \<Rightarrow> 'w policy_engine" where
  "opa_engine L G get =
     \<lparr>pe_evaluate = (\<lambda>c idn call. State (\<lambda>w. (opa_evaluate L (get w) idn call, w))),
      pe_filter = (\<lambda>c idn names. State (\<lambda>w. (opa_filter_tools L G (get w) idn names, w)))\<rparr>"

subsection \<open>The state machine of the adapter\<close>

text \<open>
  The prepared query always holds the policies the adapter keeps: it is set by \<open>opa_new\<close> and
  kept by every tick and update, whether the library's loading succeeds or fails.
\<close>

definition opa_wf :: "opa \<Rightarrow> bool" where
  "opa_wf a \<longleftrightarrow> oa_query a = build_data_doc (oa_policies a)"

datatype opa_event = Tick bundle_outcome | Update bundle_outcome "policy_entry list"

inductive opa_step :: "golib \<Rightarrow> opa \<Rightarrow> opa_event \<Rightarrow> opa \<Rightarrow> bool" for G where
  step_tick: "opa_step G a (Tick bo) (hot_reload_tick G bo a)"
| step_update: "opa_step G a (Update bo ps) (snd (update_policies G bo ps a))"

inductive_cases opa_step_TickE: "opa_step G a (Tick bo) b"
inductive_cases opa_step_UpdateE: "opa_step G a (Update bo ps) b"

inductive opa_run :: "golib \<Rightarrow> opa \<Rightarrow> opa_event list \<Rightarrow> opa \<Rightarrow> bool" for G where
  run_nil: "opa_run G a [] a"
| run_cons: "opa_step G a e b \<Longrightarrow> opa_run G b es c \<Longrightarrow> opa_run G a (e # es) c"

inductive_simps opa_run_simps: "opa_run G a [] b" "opa_run G a (e # es) c"

lemma opa_load_snd:
  "snd (opa_load G bo path ps a) =
     (if bo = bundle_loads then a\<lparr>oa_query := build_data_doc ps, oa_policies := ps\<rparr> else a)"
  by (cases bo) (auto simp: opa_load_def bundle_loads_def split: option.splits)

lemma opa_load_fst: "fst (opa_load G bo path ps a) = None \<longleftrightarrow> bo = bundle_loads"
  by (cases bo) (auto simp: opa_load_def bundle_loads_def split: option.splits)

lemma opa_new_wf:
  assumes "opa_new G bo path ps = Inr a"
  shows "opa_wf a \<and> oa_policies a = ps \<and> oa_path a = path"
proof -
  let ?a = "\<lparr>oa_path = path, oa_query = [], oa_policies = []\<rparr>"
  have "fst (opa_load G bo path ps ?a) = None" and "a = snd (opa_load G bo path ps ?a)"
    using assms by (auto simp: opa_new_def split: prod.splits option.splits)
  then show ?thesis by (simp add: opa_load_fst opa_load_snd opa_wf_def)
qed

lemma opa_new_loads [simp]:
  "opa_new G bundle_loads path ps = Inr \<lparr>oa_path = path, oa_query = build_data_doc ps, oa_policies = ps\<rparr>"
  by (simp add: opa_new_def opa_load_def bundle_loads_def)

lemma opa_step_wf: "opa_step G a e b \<Longrightarrow> opa_wf a \<Longrightarrow> opa_wf b \<and> oa_path b = oa_path a"
  by (induction rule: opa_step.induct)
    (auto simp: hot_reload_tick_def update_policies_def opa_load_snd opa_wf_def)

lemma opa_run_wf: "opa_run G a es b \<Longrightarrow> opa_wf a \<Longrightarrow> opa_wf b"
  by (induction rule: opa_run.induct) (auto dest: opa_step_wf)

text \<open>The policies in force are those of the last update that succeeded.\<close>

fun last_update :: "policy_entry list \<Rightarrow> opa_event list \<Rightarrow> policy_entry list" where
  "last_update ps [] = ps"
| "last_update ps (Tick bo # es) = last_update ps es"
| "last_update ps (Update bo qs # es) = last_update (if bo = bundle_loads then qs else ps) es"

lemma opa_step_policies: "opa_step G a e b \<Longrightarrow> oa_policies b = last_update (oa_policies a) [e]"
  by (induction rule: opa_step.induct) (auto simp: hot_reload_tick_def update_policies_def opa_load_snd)

lemma opa_run_policies: "opa_run G a es b \<Longrightarrow> oa_policies b = last_update (oa_policies a) es"
proof (induction rule: opa_run.induct)
  case (run_cons a e b es c)
  then show ?case using opa_step_policies [OF run_cons(1)] by (cases e) auto
qed simp

subsection \<open>What an evaluation answers\<close>

definition entry_matches :: "opa_lib \<Rightarrow> string \<Rightarrow> string list \<Rightarrow> bool" where
  "entry_matches L tool ps \<longleftrightarrow> (\<exists>p \<in> set ps. ol_glob L p tool)"

definition permits :: "opa_lib \<Rightarrow> policy_entry list \<Rightarrow> string list \<Rightarrow> string \<Rightarrow> bool" where
  "permits L ps groups tool \<longleftrightarrow>
     (\<forall>e \<in> set ps. pe_group e \<in> set groups \<longrightarrow> \<not> entry_matches L tool (rs_denied (pe_scope e)))
       \<and> (\<exists>e \<in> set ps. pe_group e \<in> set groups \<and> entry_matches L tool (rs_allowed (pe_scope e)))"

text \<open>The (group, pattern) pairs that allow a tool, as the texts that identify a rule.\<close>

definition rule_ids :: "opa_lib \<Rightarrow> policy_entry list \<Rightarrow> string list \<Rightarrow> string \<Rightarrow> string list" where
  "rule_ids L ps groups tool =
     concat (map (\<lambda>e. map (\<lambda>p. pe_group e @ '' -> '' @ p)
                       (filter (\<lambda>p. ol_glob L p tool) (rs_allowed (pe_scope e))))
       (filter (\<lambda>e. pe_group e \<in> set groups) ps))"

definition deny_text :: "string list \<Rightarrow> string \<Rightarrow> string" where
  "deny_text groups operation =
     (if operation = [] then deny_default
      else if ''read-only'' \<notin> set groups then deny_no_policy
      else if operation \<noteq> ''read'' then deny_read_only
      else deny_default)"

lemma infer_operation_cases: "infer_operation tool \<in> {''read'', ''write'', ''delete'', []}"
  by (simp add: infer_operation_def Let_def)

lemma infer_operation_Nil [simp]: "infer_operation [] = []"
  by (simp add: infer_operation_def short_name_def any_prefix_def)

lemma unmarshal_string_Nil [simp]: "unmarshal_string f [] = None"
  by (simp add: unmarshal_string_def json_parse_def)

lemma tool_name_and_operation_conv:
  "tool_name_and_operation call = (dry_tool_name call, infer_operation (dry_tool_name call))"
  by (auto simp: tool_name_and_operation_def dry_tool_name_def split: option.splits)

lemma rule_ids_empty: "rule_ids L ps groups tool = [] \<longleftrightarrow>
    \<not> (\<exists>e \<in> set ps. pe_group e \<in> set groups \<and> entry_matches L tool (rs_allowed (pe_scope e)))"
  by (auto simp: rule_ids_def entry_matches_def filter_empty_conv)

lemma matched_rule_ids_rule_ids:
  "matched_rule_ids L (build_data_doc ps) i =
     (if rego_allow L (build_data_doc ps) i then rule_ids L ps (oi_groups i) (oi_tool i) else [])"
  by (auto simp: matched_rule_ids_def rule_ids_def caller_entries_def build_data_doc_def rego_allow_def
      filter_map comp_def)

lemma rego_allow_permits:
  "operation_acceptable i \<Longrightarrow>
     rego_allow L (build_data_doc ps) i \<longleftrightarrow> permits L ps (oi_groups i) (oi_tool i)"
  by (auto simp: rego_allow_def permits_def tool_denied_def caller_entries_def build_data_doc_def
      entry_matches_def)

lemma complete_rule_empty [simp]: "complete_rule L d [] = Inr d"
  by (simp add: complete_rule_def)

lemma complete_rule_one: "complete_rule L d [v] = Inr v"
  by (simp add: complete_rule_def)

lemma complete_rule_cases:
  assumes "vs \<noteq> []"
  shows "complete_rule L d vs =
     (if \<forall>v \<in> set vs. v = hd vs then Inr (hd vs) else Inl (plain_err (ol_conflict L)))"
proof -
  obtain x zs where r: "remdups vs = x # zs" using assms by (cases "remdups vs") auto
  have vs: "set vs = insert x (set zs)" using set_remdups [of vs] r by simp
  have new: "x \<notin> set zs" using distinct_remdups [of vs] r by simp
  have hd: "hd vs \<in> set vs" using assms by simp
  have one: "(\<forall>v \<in> set vs. v = hd vs) \<longleftrightarrow> zs = []"
  proof
    assume eq: "\<forall>v \<in> set vs. v = hd vs"
    have "z = x" if "z \<in> set zs" for z using eq vs that by auto
    then show "zs = []" using new by (cases zs) auto
  next
    assume "zs = []"
    then show "\<forall>v \<in> set vs. v = hd vs" using vs hd by simp
  qed
  show ?thesis
  proof (cases zs)
    case Nil
    then have "hd vs = x" using vs hd by simp
    then show ?thesis using Nil r one by (simp add: complete_rule_def)
  next
    case (Cons y ys)
    then show ?thesis using r one by (simp add: complete_rule_def)
  qed
qed

lemma deny_reasons_value:
  assumes "\<not> rego_allow L ds i" and "oi_operation i \<in> {''read'', ''write'', ''delete'', []}"
  shows "complete_rule L deny_default (deny_reasons L ds i) = Inr (deny_text (oi_groups i) (oi_operation i))"
  using assms
  by (auto simp: deny_reasons_def deny_text_def operation_acceptable_def operation_known_def
      known_operations_def complete_rule_one)

lemma deny_reasons_allowed: "rego_allow L ds i \<Longrightarrow> deny_reasons L ds i = []"
  by (simp add: deny_reasons_def)

lemmas opa_outcome_simps =
  rego_eval_def matched_rule_ids_rule_ids rego_allow_permits deny_reasons_value deny_reasons_allowed
  decision_from_result_set_def

text \<open>All pairs that allow the tool have one text: the rule is unambiguous.\<close>

definition one_rule :: "opa_lib \<Rightarrow> policy_entry list \<Rightarrow> string list \<Rightarrow> string \<Rightarrow> bool" where
  "one_rule L ps groups tool \<longleftrightarrow>
     (\<forall>r \<in> set (rule_ids L ps groups tool). r = hd (rule_ids L ps groups tool))"

lemma opa_evaluate_spec:
  assumes "opa_wf a"
  shows "opa_evaluate L a idn call =
     (if \<not> permits L (oa_policies a) (id_groups idn) (dry_tool_name call) then
        Inr \<lparr>d_permitted = False, d_rule = [],
             d_reason = deny_text (id_groups idn) (infer_operation (dry_tool_name call))\<rparr>
      else if one_rule L (oa_policies a) (id_groups idn) (dry_tool_name call) then
        Inr \<lparr>d_permitted = True,
             d_rule = hd (rule_ids L (oa_policies a) (id_groups idn) (dry_tool_name call)),
             d_reason = []\<rparr>
      else Inl (wrap_err ErrServiceUnavailable (ol_conflict L)))"
proof -
  let ?t = "dry_tool_name call"
  let ?i = "\<lparr>oi_groups = id_groups idn, oi_entitlements = id_entitlements idn, oi_tool = ?t,
      oi_operation = infer_operation ?t, oi_allowed = fst (scope_for_groups (oa_policies a) (id_groups idn)),
      oi_denied = snd (scope_for_groups (oa_policies a) (id_groups idn))\<rparr>"
  have op: "infer_operation ?t \<in> {''read'', ''write'', ''delete'', []}" by (rule infer_operation_cases)
  then have acc: "operation_acceptable ?i"
    by (auto simp: operation_acceptable_def operation_known_def known_operations_def)
  note allow = rego_allow_permits [OF acc, of L "oa_policies a"]
  have ev: "opa_evaluate L a idn call =
      (case rego_eval L (build_data_doc (oa_policies a)) ?i of
         Inl e \<Rightarrow> Inl (wrap_err ErrServiceUnavailable (err_text e))
       | Inr rs \<Rightarrow> Inr (decision_from_result_set rs))"
    using assms(1)
    by (simp add: opa_evaluate_unfold tool_name_and_operation_conv opa_wf_def split: prod.splits)
  show ?thesis
  proof (cases "permits L (oa_policies a) (id_groups idn) ?t")
    case False
    then have "\<not> rego_allow L (build_data_doc (oa_policies a)) ?i" using allow by simp
    then show ?thesis
      using False deny_reasons_value [of L "build_data_doc (oa_policies a)" ?i] op
      by (simp add: ev rego_eval_def matched_rule_ids_rule_ids decision_from_result_set_def)
  next
    case True
    then have al: "rego_allow L (build_data_doc (oa_policies a)) ?i" using allow by simp
    let ?ids = "rule_ids L (oa_policies a) (id_groups idn) ?t"
    have "?ids \<noteq> []" using True by (auto simp: rule_ids_empty permits_def)
    then show ?thesis
      using True al complete_rule_cases [of ?ids L "[]"]
      by (simp add: ev rego_eval_def matched_rule_ids_rule_ids decision_from_result_set_def
          deny_reasons_allowed one_rule_def plain_err_def)
  qed
qed

subsection \<open>Filtering a list\<close>

lemma filter_loop_Inr:
  "filter_loop ev G ns = Inr ts \<Longrightarrow>
     (\<forall>n \<in> set ns. \<exists>d. ev (filter_call G n) = Inr d)
       \<and> ts = filter (\<lambda>n. case ev (filter_call G n) of Inl e \<Rightarrow> False | Inr d \<Rightarrow> d_permitted d) ns"
  by (induction ns arbitrary: ts) (auto split: sum.splits)

lemma filter_loop_Inl:
  "filter_loop ev G ns = Inl e \<Longrightarrow> \<exists>n \<in> set ns. ev (filter_call G n) = Inl e"
  by (induction ns) (auto split: sum.splits)

lemma filter_loop_error:
  "n \<in> set ns \<Longrightarrow> ev (filter_call G n) = Inl e \<Longrightarrow> \<exists>e'. filter_loop ev G ns = Inl e'"
  by (induction ns) (auto split: sum.splits)

text \<open>
  The call that \<open>FilterTools\<close> builds with \<open>%q\<close> names the tool it was built for when the name is
  printable ASCII (\<open>%q\<close> is Go quoting, which JSON does not read in every case).
\<close>

lemma filter_call_name:
  assumes "print_ascii n"
  shows "dry_tool_name (filter_call G n) = n"
proof -
  let ?j = "JObj [(''name'', JStr (q_body (gl_printable G) n))]"
  have q: "raw_ok (q_body (gl_printable G) n)" "unquote (q_body (gl_printable G) n) = n"
    using q_body_ascii [OF assms] by auto
  have name: "raw_ok ''name''" by (rule raw_ok_plain_list) auto
  have ps: "tc_params (filter_call G n) = Some (json_print ?j)"
    by (simp add: filter_call_def go_quote_def member_text_def)
  have "json_parse (json_print ?j) = Some ?j"
    by (rule json_parse_print) (simp_all add: q name max_nesting_def)
  then have "unmarshal_string ''name'' (json_print ?j) = Some n"
    by (simp add: unmarshal_string_def get_string_def field_vals_Cons q unquote_simps fold_name.simps
        del: json_print.simps)
  moreover have "json_print ?j \<noteq> []" by simp
  ultimately show ?thesis by (simp add: dry_tool_name_def ps del: json_print.simps)
qed

lemma opa_evaluate_name:
  "dry_tool_name call = dry_tool_name call' \<Longrightarrow> opa_evaluate L a idn call = opa_evaluate L a idn call'"
  by (simp add: opa_evaluate_unfold tool_name_and_operation_conv)

subsection \<open>The contract of a policy engine\<close>

text \<open>
  What the broker relies on: asking changes nothing; the answer to a call depends on its tool
  name; the filter keeps exactly the names whose calls would be permitted, in order, for names
  that are printable ASCII.
\<close>

definition says_yes :: "goerr + decision \<Rightarrow> bool" where
  "says_yes r = (case r of Inl e \<Rightarrow> False | Inr d \<Rightarrow> d_permitted d)"

lemma says_yes_simps [simp]: "says_yes (Inl e) = False" "says_yes (Inr d) = d_permitted d"
  by (simp_all add: says_yes_def)

lemma opa_says_yes:
  "opa_wf a \<Longrightarrow> says_yes (opa_evaluate L a idn call) \<Longrightarrow>
     permits L (oa_policies a) (id_groups idn) (dry_tool_name call)
       \<and> one_rule L (oa_policies a) (id_groups idn) (dry_tool_name call)"
  by (auto simp: opa_evaluate_spec split: if_splits)

locale engine_laws =
  fixes engine :: "'w policy_engine"
  assumes evaluate_pure: "after (pe_evaluate engine c idn call) w = w"
    and filter_pure: "after (pe_filter engine c idn ns) w = w"
    and evaluate_name: "dry_tool_name call = dry_tool_name call' \<Longrightarrow>
      result (pe_evaluate engine c idn call) w = result (pe_evaluate engine c' idn call') w"
    and filter_subset: "result (pe_filter engine c idn ns) w = Inr ts \<Longrightarrow> \<exists>P. ts = filter P ns"
    and filter_agrees: "result (pe_filter engine c idn ns) w = Inr ts \<Longrightarrow> n \<in> set ns \<Longrightarrow>
      print_ascii n \<Longrightarrow> dry_tool_name call = n \<Longrightarrow>
      n \<in> set ts \<longleftrightarrow> says_yes (result (pe_evaluate engine c idn call) w)"
begin

text \<open>What a list shows, a call gets; what a call gets, the list shows.\<close>

lemma listed_is_callable:
  assumes "result (pe_filter engine c idn ns) w = Inr ts" and "n \<in> set ts" and "print_ascii n"
    and "dry_tool_name call = n"
  shows "says_yes (result (pe_evaluate engine c' idn call) w)"
proof -
  have "n \<in> set ns" using filter_subset [OF assms(1)] assms(2) by auto
  then show ?thesis
    using filter_agrees [OF assms(1) _ assms(3,4)] assms(2) evaluate_name [of call call c' idn w c] by simp
qed

lemma callable_is_listed:
  assumes "result (pe_filter engine c idn ns) w = Inr ts" and "n \<in> set ns" and "print_ascii n"
    and "dry_tool_name call = n" and "says_yes (result (pe_evaluate engine c' idn call) w)"
  shows "n \<in> set ts"
  using filter_agrees [OF assms(1-4)] assms(5) evaluate_name [of call call c' idn w c] by simp

end

lemma opa_evaluate_filter_call:
  "print_ascii n \<Longrightarrow> dry_tool_name call = n \<Longrightarrow>
     opa_evaluate L a idn (filter_call G n) = opa_evaluate L a idn call"
  by (rule opa_evaluate_name) (simp add: filter_call_name)

interpretation opa: engine_laws "opa_engine L G get"
proof
  fix c idn ns w ts
  assume "result (pe_filter (opa_engine L G get) c idn ns) w = Inr ts"
  then have f: "filter_loop (opa_evaluate L (get w) idn) G ns = Inr ts"
    by (simp add: opa_engine_def opa_filter_tools_def)
  then show "\<exists>P. ts = filter P ns" using filter_loop_Inr [OF f] by blast
  fix n call
  assume "n \<in> set ns" "print_ascii n" "dry_tool_name call = n"
  then show "n \<in> set ts \<longleftrightarrow> says_yes (result (pe_evaluate (opa_engine L G get) c idn call) w)"
    using filter_loop_Inr [OF f] opa_evaluate_filter_call [of n call L "get w" idn G]
    by (simp add: opa_engine_def says_yes_def)
qed (auto simp: opa_engine_def opa_filter_tools_def opa_evaluate_unfold tool_name_and_operation_conv)

subsection \<open>The dry run and the engine\<close>

text \<open>
  What OPA documents of \<open>glob.match\<close> with the delimiter \<open>/\<close>, as far as it is used here: ordinary text
  matches itself, a star at the end of it any text without a slash, and whatever follows ordinary text
  in a pattern, a name that matches begins with that text. Nothing is said of braces, brackets, question
  marks, escapes and double stars elsewhere in a pattern, which Go's \<open>path.Match\<close> reads differently.
\<close>

definition documented_glob :: "(string \<Rightarrow> string \<Rightarrow> bool) \<Rightarrow> bool" where
  "documented_glob glob \<longleftrightarrow>
     (\<forall>q t. ordinary q \<longrightarrow> (glob q t \<longleftrightarrow> t = q))
     \<and> (\<forall>q t. ordinary q \<longrightarrow> (glob (q @ ''*'') t \<longleftrightarrow> (\<exists>r. t = q @ r \<and> CHR ''/'' \<notin> set r)))
     \<and> (\<forall>q p t. ordinary q \<longrightarrow> glob (q @ p) t \<longrightarrow> has_prefix t q)"

text \<open>The patterns of the two simple kinds, which are those of \<^verbatim>\<open>src/config/policies\<close>.\<close>

definition simple_pattern :: "string \<Rightarrow> bool" where
  "simple_pattern p \<longleftrightarrow> ordinary p \<or> p \<noteq> [] \<and> last p = CHR ''*'' \<and> ordinary (butlast p)"

lemma path_match_documented: "documented_glob path_match"
  by (auto simp: documented_glob_def ordinary_def path_match_literal path_match_prefix_star
      dest: path_match_literal_prefix)

lemma simple_pattern_glob:
  assumes "documented_glob glob" and "simple_pattern p"
  shows "glob p t = path_match p t"
proof (cases "ordinary p")
  case True
  then show ?thesis using assms(1) path_match_documented by (simp add: documented_glob_def)
next
  case False
  then obtain q where q: "p = q @ ''*''" "ordinary q"
    using assms(2) append_butlast_last_id [of p] by (metis simple_pattern_def)
  then show ?thesis using assms(1) path_match_documented by (simp add: documented_glob_def)
qed

text \<open>A pattern whose first segment is ordinary text matches only names of that segment.\<close>

lemma glob_tool_prefix:
  assumes "documented_glob glob" and "ordinary (tool_prefix p)" and "glob p t"
  shows "tool_prefix t = tool_prefix p"
proof (cases "CHR ''/'' \<in> set p")
  case True
  let ?q = "tool_prefix p"
  have p: "p = (?q @ ''/'') @ tl (dropWhile (\<lambda>c. c \<noteq> CHR ''/'') p)"
    using True hd_dropWhile [of "\<lambda>c. c \<noteq> CHR ''/''" p] takeWhile_dropWhile_id [of "\<lambda>c. c \<noteq> CHR ''/''" p]
    by (cases "dropWhile (\<lambda>c. c \<noteq> CHR ''/'') p") (auto simp: tool_prefix_takeWhile dropWhile_eq_Nil_conv)
  have "ordinary (?q @ ''/'')" using assms(2) by (auto simp: ordinary_def literal_def)
  then have "has_prefix t (?q @ ''/'')" using assms(1,3) p by (metis documented_glob_def)
  then show ?thesis using tool_prefix_no_slash by (auto simp: has_prefix_iff)
next
  case False
  then have "tool_prefix p = p" by (simp add: tool_prefix_takeWhile takeWhile_eq_all_conv) metis
  then have "t = p" using assms by (simp add: documented_glob_def)
  then show ?thesis by simp
qed

text \<open>Where the globs agree on the caller's patterns, whatever the engine permits the dry run's policy step permits.\<close>

definition globs_agree :: "opa_lib \<Rightarrow> policy_entry list \<Rightarrow> string list \<Rightarrow> string \<Rightarrow> bool" where
  "globs_agree L ps groups tool \<longleftrightarrow>
     (\<forall>e \<in> set ps. pe_group e \<in> set groups \<longrightarrow>
        (\<forall>p \<in> set (rs_allowed (pe_scope e)) \<union> set (rs_denied (pe_scope e)). ol_glob L p tool = path_match p tool))"

lemma permits_dry_policy:
  assumes "permits L ps groups tool" and "globs_agree L ps groups tool"
  shows "dry_policy tool groups ps \<noteq> None"
proof -
  obtain e where e: "e \<in> set ps" "pe_group e \<in> set groups" "entry_matches L tool (rs_allowed (pe_scope e))"
      "\<not> entry_matches L tool (rs_denied (pe_scope e))"
    using assms(1) by (auto simp: permits_def)
  then have "entry_permits groups tool e" using assms(2) by (force simp: entry_permits_def entry_matches_def globs_agree_def)
  then show ?thesis using e(1) by (auto simp: dry_policy_None)
qed

text \<open>For a caller of one policy group the two agree.\<close>

lemma dry_policy_permits:
  assumes "dry_policy tool groups ps \<noteq> None" and "globs_agree L ps groups tool"
    and "\<And>e f. e \<in> set ps \<Longrightarrow> f \<in> set ps \<Longrightarrow> pe_group e \<in> set groups \<Longrightarrow> pe_group f \<in> set groups \<Longrightarrow> e = f"
  shows "permits L ps groups tool"
proof -
  obtain e where e: "e \<in> set ps" "entry_permits groups tool e" using assms(1) by (auto simp: dry_policy_None)
  then have g: "pe_group e \<in> set groups" by (simp add: entry_permits_def)
  then have m: "entry_matches L tool (rs_allowed (pe_scope e))" "\<not> entry_matches L tool (rs_denied (pe_scope e))"
    using e assms(2) by (force simp: entry_permits_def entry_matches_def globs_agree_def)+
  then show ?thesis using e(1) g assms(3) unfolding permits_def by metis
qed

subsection \<open>A sample engine\<close>

definition demo_policies :: "policy_entry list" where
  "demo_policies = [\<lparr>pe_group = ''dev'', pe_scope = \<lparr>rs_allowed = [''github/*''], rs_denied = []\<rparr>\<rparr>]"

definition demo_opa :: opa where
  "demo_opa = \<lparr>oa_path = [], oa_query = build_data_doc demo_policies, oa_policies = demo_policies\<rparr>"

definition demo_opa_lib :: opa_lib where
  "demo_opa_lib = \<lparr>ol_glob = path_match, ol_conflict = ''conflict''\<rparr>"

lemma demo_opa_wf: "opa_wf demo_opa"
  by (simp add: opa_wf_def demo_opa_def)

lemma demo_match: "path_match ''github/*'' ''github/get-x''" "path_match ''github/get-*'' ''github/get-x''"
  by code_simp+

lemma demo_permits: "permits demo_opa_lib demo_policies [''dev''] ''github/get-x''"
  by (simp add: permits_def demo_policies_def entry_matches_def demo_opa_lib_def demo_match)

lemma demo_one: "one_rule demo_opa_lib demo_policies [''dev''] ''github/get-x''"
  by (simp add: one_rule_def rule_ids_def demo_policies_def demo_opa_lib_def demo_match)

lemma demo_groups [simp]: "id_groups demo_caller = [''dev'']"
  by (simp add: demo_caller_def)

lemma demo_printable: "print_ascii ''github/get-x''"
  by (simp add: print_ascii_def)

subsection \<open>Properties of the policy engine\<close>

text \<open>
  C4: The engine decides as the policies say. In every state the adapter can be in, \<open>Evaluate\<close>
  denies a call unless some policy of a group of the caller allows the tool and none denies it;
  then it permits it with the text of the rule that allowed it, provided all matching allow
  rules have the same text, and otherwise reports the engine's conflict error.
\<close>

theorem evaluate_decides_by_policies:
  assumes "opa_new G bo path ps = Inr a0" and "opa_run G a0 es a"
  shows "opa_evaluate L a idn call =
    (let now = last_update ps es; tool = dry_tool_name call; groups = id_groups idn in
     if \<not> permits L now groups tool then
       Inr \<lparr>d_permitted = False, d_rule = [], d_reason = deny_text groups (infer_operation tool)\<rparr>
     else if one_rule L now groups tool then
       Inr \<lparr>d_permitted = True, d_rule = hd (rule_ids L now groups tool), d_reason = []\<rparr>
     else Inl (wrap_err ErrServiceUnavailable (ol_conflict L)))"
proof -
  have a0: "opa_wf a0" "oa_policies a0 = ps" using opa_new_wf [OF assms(1)] by simp_all
  then have "opa_wf a" "oa_policies a = last_update ps es"
    using opa_run_wf [OF assms(2)] opa_run_policies [OF assms(2)] by simp_all
  then show ?thesis using opa_evaluate_spec [of a L idn call] by (simp add: Let_def)
qed

theorem evaluate_decides_by_policies_witness:
  "\<exists>a0 a. opa_new golib0 bundle_loads [] [] = Inr a0 \<and> opa_run golib0 a0 [Update bundle_loads demo_policies] a
     \<and> opa_evaluate demo_opa_lib a demo_caller (filter_call golib0 ''github/get-x'') =
         Inr \<lparr>d_permitted = True, d_rule = ''dev -> github/*'', d_reason = []\<rparr>"
proof -
  obtain a0 where a0: "opa_new golib0 bundle_loads [] [] = Inr a0"
    by (simp add: opa_new_def opa_load_def bundle_loads_def)
  let ?a = "snd (update_policies golib0 bundle_loads demo_policies a0)"
  have run: "opa_run golib0 a0 [Update bundle_loads demo_policies] ?a"
    by (rule opa_run.run_cons [OF opa_step.step_update opa_run.run_nil])
  have "hd (rule_ids demo_opa_lib demo_policies [''dev''] ''github/get-x'') = ''dev -> github/*''"
    by (simp add: rule_ids_def demo_policies_def demo_opa_lib_def demo_match)
  then show ?thesis
    using evaluate_decides_by_policies [OF a0 run, of demo_opa_lib demo_caller "filter_call golib0 ''github/get-x''"]
      a0 run demo_permits demo_one
    by (auto simp: filter_call_name demo_printable Let_def)
qed

text \<open>
  If among the names of a discovery there is one that a caller may use but that two allow rules of
  different text match, the filter fails as a whole.
\<close>

lemma ambiguous_tool_fails_the_filter:
  assumes "opa_wf a" and "n \<in> set ns" and "print_ascii n"
    and "permits L (oa_policies a) (id_groups idn) n" and "\<not> one_rule L (oa_policies a) (id_groups idn) n"
  shows "\<exists>e. opa_filter_tools L G a idn ns = Inl e"
proof -
  have "opa_evaluate L a idn (filter_call G n) = Inl (wrap_err ErrServiceUnavailable (ol_conflict L))"
    using opa_evaluate_spec [OF assms(1), of L idn "filter_call G n"] assms(3-5) by (simp add: filter_call_name)
  from filter_loop_error [OF assms(2), where ev = "opa_evaluate L a idn", OF this] show ?thesis by (simp add: opa_filter_tools_def)
qed

text \<open>If there is none, the filter answers the permitted names.\<close>

lemma filter_loop_answers:
  "\<forall>n \<in> set ns. \<exists>d. ev (filter_call G n) = Inr d \<Longrightarrow>
     filter_loop ev G ns = Inr (filter (\<lambda>n. case ev (filter_call G n) of Inl e \<Rightarrow> False | Inr d \<Rightarrow> d_permitted d) ns)"
  by (induction ns) (auto split: sum.splits)

lemma opa_filter_permits:
  assumes "opa_wf a" and "\<forall>n \<in> set ns. print_ascii n \<and> (permits L (oa_policies a) (id_groups idn) n \<longrightarrow>
    one_rule L (oa_policies a) (id_groups idn) n)"
  shows "opa_filter_tools L G a idn ns = Inr (filter (permits L (oa_policies a) (id_groups idn)) ns)"
proof -
  have ev: "\<exists>d. opa_evaluate L a idn (filter_call G n) = Inr d \<and> d_permitted d = permits L (oa_policies a) (id_groups idn) n"
    if "n \<in> set ns" for n
    using opa_evaluate_spec [OF assms(1), of L idn "filter_call G n"] assms(2) that by (simp add: filter_call_name)
  have "filter (\<lambda>n. case opa_evaluate L a idn (filter_call G n) of Inl e \<Rightarrow> False | Inr d \<Rightarrow> d_permitted d) ns =
      filter (permits L (oa_policies a) (id_groups idn)) ns"
    using ev by (intro filter_cong [OF refl]) force
  then show ?thesis
    using filter_loop_answers [of ns "opa_evaluate L a idn" G] ev unfolding opa_filter_tools_def by force
qed

text \<open>
  C19: What a discovery shows is what a call gets. Of a list of names of printable ASCII the filter,
  whenever it answers, answers exactly those, in order, for which a call of that name by the same
  caller would be permitted; it adds none and drops none. (Of other names \<open>%q\<close> can make text that is
  no JSON, so that permitted ones are dropped.)
\<close>

theorem filter_agrees_with_evaluate:
  assumes "opa_filter_tools L G a idn ns = Inr ts"
    and "list_all (\<lambda>n. print_ascii n \<and> dry_tool_name (call_of n) = n) ns"
  shows "ts = filter (\<lambda>n. says_yes (opa_evaluate L a idn (call_of n))) ns"
proof -
  have f: "filter_loop (opa_evaluate L a idn) G ns = Inr ts" using assms(1) by (simp add: opa_filter_tools_def)
  have "opa_evaluate L a idn (filter_call G n) = opa_evaluate L a idn (call_of n)" if "n \<in> set ns" for n
    using that assms(2) by (intro opa_evaluate_filter_call) (auto simp: list_all_iff)
  then show ?thesis
    using filter_loop_Inr [OF f] by (auto simp: says_yes_def intro!: filter_cong)
qed

theorem filter_agrees_with_evaluate_witness:
  "opa_filter_tools demo_opa_lib golib0 demo_opa demo_caller [''jira/list'', ''github/get-x''] = Inr [''github/get-x'']"
proof -
  let ?ns = "[''jira/list'', ''github/get-x'']"
  have pa: "print_ascii ''jira/list''" by (simp add: print_ascii_def)
  have "\<not> path_match ''github/*'' ''jira/list''" by code_simp
  then have no: "\<not> permits demo_opa_lib demo_policies [''dev''] ''jira/list''"
    by (simp add: permits_def demo_policies_def entry_matches_def demo_opa_lib_def)
  have pol: "oa_policies demo_opa = demo_policies" by (simp add: demo_opa_def)
  note ev = opa_evaluate_spec [OF demo_opa_wf, of demo_opa_lib demo_caller, unfolded pol]
  have e: "\<exists>d. opa_evaluate demo_opa_lib demo_opa demo_caller (filter_call golib0 n) = Inr d" if "n \<in> set ?ns" for n
    using that ev [of "filter_call golib0 n"] no demo_permits demo_one by (auto simp: filter_call_name pa demo_printable)
  then obtain ts where ts: "opa_filter_tools demo_opa_lib golib0 demo_opa demo_caller ?ns = Inr ts"
    using filter_loop_answers [of ?ns "opa_evaluate demo_opa_lib demo_opa demo_caller" golib0]
    unfolding opa_filter_tools_def by blast
  have "says_yes (opa_evaluate demo_opa_lib demo_opa demo_caller (filter_call golib0 ''github/get-x''))"
    "\<not> says_yes (opa_evaluate demo_opa_lib demo_opa demo_caller (filter_call golib0 ''jira/list''))"
    using ev no demo_permits demo_one by (simp_all add: filter_call_name pa demo_printable)
  then show ?thesis
    using filter_agrees_with_evaluate [OF ts, of "filter_call golib0"] ts by (simp add: filter_call_name pa demo_printable)
qed

end
