(* ===== verification/Broker.thy ===== *)
theory Broker
  imports Backends Opa
begin

section \<open>The broker (\<^verbatim>\<open>internal/proxy/broker.go\<close>)\<close>

text \<open>
  The broker holds its collaborators as interface values. Log entries, and the identifiers and
  times that go into them, are not modelled.
\<close>

subsection \<open>Construction\<close>

type_synonym 'w credential_store = "'w ctx \<Rightarrow> string \<Rightarrow> ('w, goerr + string) act"

type_synonym 'w obo_pipeline = "'w ctx \<Rightarrow> tool_call \<Rightarrow> route_entry \<Rightarrow> ('w, goerr + bytes) act"

record 'w broker =
  bk_identity :: "'w identity_service"
  bk_policy :: "'w policy_engine"
  bk_transport :: "'w backend_transport"
  bk_sse :: "'w backend_transport"
  bk_minter :: "'w assertion_minter"
  bk_creds :: "'w credential_store"
  bk_routes :: "route_entry list"
  bk_store :: "'w token_store option"
  bk_obo :: "'w obo_pipeline option"

text \<open>An interface field left nil is \<open>None\<close>; of the logger only its presence matters.\<close>

record 'w broker_config =
  bc_identity :: "'w identity_service option"
  bc_policy :: "'w policy_engine option"
  bc_transport :: "'w backend_transport option"
  bc_sse :: "'w backend_transport option"
  bc_minter :: "'w assertion_minter option"
  bc_creds :: "'w credential_store option"
  bc_logger :: bool
  bc_routes :: "route_entry list"
  bc_store :: "'w token_store option"
  bc_obo :: "'w obo_pipeline option"

definition new_broker :: "golib \<Rightarrow> 'w http_client \<Rightarrow> 'w broker_config \<Rightarrow> goerr + 'w broker" where
  "new_broker G default_client cfg =
     (case bc_identity cfg of None \<Rightarrow> Inl (plain_err ''broker: IdentityService is required'')
      | Some i \<Rightarrow>
     (case bc_policy cfg of None \<Rightarrow> Inl (plain_err ''broker: PolicyEngine is required'')
      | Some p \<Rightarrow>
     (case bc_transport cfg of None \<Rightarrow> Inl (plain_err ''broker: BackendTransport is required'')
      | Some t \<Rightarrow>
     (case bc_minter cfg of None \<Rightarrow> Inl (plain_err ''broker: IdentityAssertionMinter is required'')
      | Some m \<Rightarrow>
     (case bc_creds cfg of None \<Rightarrow> Inl (plain_err ''broker: CredentialStore is required'')
      | Some c \<Rightarrow>
          if \<not> bc_logger cfg then Inl (plain_err ''broker: Logger is required'')
          else Inr \<lparr>bk_identity = i, bk_policy = p, bk_transport = t,
                    bk_sse = (case bc_sse cfg of None \<Rightarrow> new_sse_backend_transport G default_client None | Some s \<Rightarrow> s),
                    bk_minter = m, bk_creds = c, bk_routes = bc_routes cfg, bk_store = bc_store cfg,
                    bk_obo = bc_obo cfg\<rparr>)))))"

definition update_routes :: "'w broker \<Rightarrow> route_entry list \<Rightarrow> 'w broker" where
  "update_routes b routes = b\<lparr>bk_routes := routes\<rparr>"

subsection \<open>Routing\<close>

fun find_route :: "string \<Rightarrow> route_entry list \<Rightarrow> route_entry option" where
  "find_route prefix [] = None"
| "find_route prefix (r # rs) = (if rt_prefix r = prefix then Some r else find_route prefix rs)"

definition resolve_route :: "golib \<Rightarrow> 'w broker \<Rightarrow> string \<Rightarrow> goerr + route_entry" where
  "resolve_route G b tool =
     (case find_route (tool_prefix tool) (bk_routes b) of
        Some r \<Rightarrow> Inr r
      | None \<Rightarrow> Inl (wrap_err ErrNoRoute (go_quote (gl_printable G) (tool_prefix tool))))"

definition transport_for :: "'w broker \<Rightarrow> route_entry \<Rightarrow> 'w backend_transport" where
  "transport_for b r = (if rt_transport r = ''sse'' then bk_sse b else bk_transport b)"

subsection \<open>The call that is forwarded\<close>

text \<open>\<open>map[string]json.RawMessage\<close>: exact keys, unlike the struct decoding of the policy side.\<close>

definition params_map :: "bytes \<Rightarrow> (string \<times> json) list option" where
  "params_map ps =
     (case json_parse ps of
        Some (JObj ms) \<Rightarrow> Some (obj_map [] (map (\<lambda>m. (unquote (fst m), snd m)) ms))
      | Some JNull \<Rightarrow> Some []
      | _ \<Rightarrow> None)"

definition raw_string :: "json \<Rightarrow> string option" where
  "raw_string j = (case j of JStr r \<Rightarrow> Some (unquote r) | JNull \<Rightarrow> Some [] | _ \<Rightarrow> None)"

definition strip_prefix_from_call :: "tool_call \<Rightarrow> string \<Rightarrow> tool_call" where
  "strip_prefix_from_call call prefix =
     (case tc_params call of
        None \<Rightarrow> call
      | Some ps \<Rightarrow>
          if prefix = [] then call
          else (case params_map ps of
                  None \<Rightarrow> call
                | Some m \<Rightarrow>
                    (case map_of m ''name'' of
                       None \<Rightarrow> call
                     | Some j \<Rightarrow>
                         (case raw_string j of
                            None \<Rightarrow> call
                          | Some name \<Rightarrow>
                              (let stripped = trim_prefix name (prefix @ ''/'') in
                               if stripped = name then call
                               else call\<lparr>tc_params := Some (json_print (JObj
                                      (map (\<lambda>e. (quote (fst e), html_json (snd e)))
                                        (map_put ''name'' (JStr (quote stripped)) m))))\<rparr>)))))"

subsection \<open>Discovery\<close>

fun extract_tool_names :: "json list \<Rightarrow> string list" where
  "extract_tool_names [] = []"
| "extract_tool_names (j # js) =
     (case get_string ''name'' j of
        Some n \<Rightarrow> if n \<noteq> [] then n # extract_tool_names js else extract_tool_names js
      | None \<Rightarrow> extract_tool_names js)"

text \<open>A field of type \<open>[]json.RawMessage\<close>: the outer \<open>None\<close> is a type error, the inner one nil.\<close>

fun raws_field :: "json list \<Rightarrow> json list option \<Rightarrow> json list option option" where
  "raws_field [] acc = Some acc"
| "raws_field (JArr js # vs) acc = raws_field vs (Some js)"
| "raws_field (JNull # vs) acc = raws_field vs None"
| "raws_field (_ # vs) acc = None"

definition with_tools :: "json \<Rightarrow> json list option" where
  "with_tools j =
     (case j of
        JObj ms \<Rightarrow> (case raws_field (field_vals ''tools'' ms) None of Some r \<Rightarrow> r | None \<Rightarrow> None)
      | _ \<Rightarrow> None)"

definition tools_of_result :: "json \<Rightarrow> string list" where
  "tools_of_result j =
     (case with_tools j of
        Some items \<Rightarrow> extract_tool_names items
      | None \<Rightarrow> (case j of JArr items \<Rightarrow> extract_tool_names items | _ \<Rightarrow> []))"

definition parse_tool_list_response :: "golib \<Rightarrow> bytes \<Rightarrow> goerr + string list" where
  "parse_tool_list_response G data =
     (case json_parse data of
        Some (JObj ms) \<Rightarrow>
          (case error_field (field_vals ''error'' ms) None of
             None \<Rightarrow> Inl (plain_err (''unmarshal response: '' @ gl_json_err G data))
           | Some (Some e) \<Rightarrow>
               Inl (plain_err (''backend error '' @ show_int (je_code e) @ '': '' @ je_message e))
           | Some None \<Rightarrow>
               (let vs = field_vals ''result'' ms in
                Inr (if vs = [] then [] else tools_of_result (last vs))))
      | Some JNull \<Rightarrow> Inr []
      | _ \<Rightarrow> Inl (plain_err (''unmarshal response: '' @ gl_json_err G data)))"

definition list_call :: tool_call where
  "list_call = \<lparr>tc_jsonrpc = ''2.0'', tc_id = GNum ''1'', tc_method = ''tools/list'', tc_params = None\<rparr>"

definition qualify :: "string \<Rightarrow> string \<Rightarrow> string" where
  "qualify prefix t = (if contains t ''/'' then t else prefix @ ''/'' @ t)"

text \<open>The inner loop over one backend's tools; \<open>seen\<close> is the code's set of names.\<close>

fun add_tools :: "string \<Rightarrow> string list \<Rightarrow> string set \<times> string list \<Rightarrow> string set \<times> string list" where
  "add_tools prefix [] acc = acc"
| "add_tools prefix (t # ts) (seen, all) =
     (let q = qualify prefix t in
      add_tools prefix ts (if q \<in> seen then (seen, all) else (insert q seen, all @ [q])))"

text \<open>The credential for one backend: \<open>None\<close> skips it.\<close>

definition list_credential :: "'w broker \<Rightarrow> 'w ctx \<Rightarrow> identity option \<Rightarrow> route_entry \<Rightarrow> ('w, string option) act" where
  "list_credential b c idn r =
     (let standard = State_Monad.bind (bk_creds b c (rt_prefix r))
            (\<lambda>x. ret (case x of Inl e \<Rightarrow> None | Inr cred \<Rightarrow> Some cred)) in
      if rt_obo r = [] then standard
      else (case (bk_store b, idn) of
              (Some st, Some i) \<Rightarrow> State_Monad.bind (ts_get st (id_user i) (rt_obo r))
                (\<lambda>x. ret (case x of Inl e \<Rightarrow> None | Inr pair \<Rightarrow> Some (tp_access pair)))
            | _ \<Rightarrow> standard))"

definition list_backend :: "golib \<Rightarrow> 'w broker \<Rightarrow> 'w ctx \<Rightarrow> identity option \<Rightarrow> route_entry
    \<Rightarrow> ('w, string list) act" where
  "list_backend G b c idn r =
     State_Monad.bind (list_credential b c idn r)
       (\<lambda>cred. case cred of
          None \<Rightarrow> ret []
        | Some t \<Rightarrow>
            State_Monad.bind
              (transport_for b r (with_service_credential c t) (rt_backend r) list_call [])
              (\<lambda>x. ret (case x of
                   Inl e \<Rightarrow> []
                 | Inr body \<Rightarrow>
                     (case parse_tool_list_response G body of Inl e \<Rightarrow> [] | Inr ts \<Rightarrow> ts))))"

fun aggregate_loop :: "golib \<Rightarrow> 'w broker \<Rightarrow> 'w ctx \<Rightarrow> identity option \<Rightarrow> route_entry list
    \<Rightarrow> string set \<times> string list \<Rightarrow> ('w, string list) act" where
  "aggregate_loop G b c idn [] acc = ret (snd acc)"
| "aggregate_loop G b c idn (r # rs) acc =
     State_Monad.bind (list_backend G b c idn r)
       (\<lambda>ts. aggregate_loop G b c idn rs (add_tools (rt_prefix r) ts acc))"

definition aggregate_tools :: "golib \<Rightarrow> 'w broker \<Rightarrow> 'w ctx \<Rightarrow> ('w, goerr + string list) act" where
  "aggregate_tools G b c =
     State_Monad.bind
       (case bk_store b of
          None \<Rightarrow> ret None
        | Some st \<Rightarrow> State_Monad.bind (bk_identity b c)
            (\<lambda>x. ret (case x of Inl e \<Rightarrow> None | Inr i \<Rightarrow> Some i)))
       (\<lambda>idn. State_Monad.bind (aggregate_loop G b c idn (bk_routes b) ({}, [])) (\<lambda>ts. ret (Inr ts)))"

definition identity_error_response :: "goval \<Rightarrow> goerr \<Rightarrow> bytes" where
  "identity_error_response i e =
     (if err_is e = ErrUnauthenticated then
        error_response i code_unauthenticated ''unauthenticated: no identity credential present''
      else if err_is e = ErrServiceUnavailable then
        error_response i code_service_unavailable ''service unavailable: identity provider unreachable''
      else error_response i code_unauthorized ''unauthorized: invalid or expired credential'')"

definition handle_discovery :: "golib \<Rightarrow> 'w broker \<Rightarrow> 'w ctx \<Rightarrow> tool_call \<Rightarrow> ('w, bytes) act" where
  "handle_discovery G b c call =
     State_Monad.bind (bk_identity b c) (\<lambda>r. case r of
        Inl e \<Rightarrow> ret (identity_error_response (tc_id call) e)
      | Inr idn \<Rightarrow> State_Monad.bind (aggregate_tools G b c) (\<lambda>r. case r of
        Inl e \<Rightarrow> ret (error_response (tc_id call) code_service_unavailable
                   ''service unavailable: could not aggregate tool lists from backends'')
      | Inr all \<Rightarrow> State_Monad.bind (pe_filter (bk_policy b) c idn all) (\<lambda>r. case r of
        Inl e \<Rightarrow> ret (error_response (tc_id call) code_service_unavailable
                   ''service unavailable: policy engine error'')
      | Inr permitted \<Rightarrow>
          ret (success_response (tc_id call) (GMap [(''tools'', GArr (map GStr permitted))])))))"

subsection \<open>Execution\<close>

definition handle_standard :: "'w broker \<Rightarrow> 'w ctx \<Rightarrow> tool_call \<Rightarrow> identity \<Rightarrow> route_entry \<Rightarrow> ('w, bytes) act" where
  "handle_standard b c call idn route =
     State_Monad.bind (bk_creds b c (rt_prefix route)) (\<lambda>r. case r of
        Inl e \<Rightarrow> ret (error_response (tc_id call) code_service_unavailable
                   ''service unavailable: could not retrieve service credentials'')
      | Inr cred \<Rightarrow>
          (let bearer = (case bearer_token_from_context c of None \<Rightarrow> [] | Some t \<Rightarrow> t) in
           State_Monad.bind (bk_minter b c idn (origin_jti_from_token bearer)) (\<lambda>r. case r of
             Inl e \<Rightarrow> ret (error_response (tc_id call) code_service_unavailable
                   ''service unavailable: could not mint identity assertion token'')
           | Inr token \<Rightarrow>
               State_Monad.bind
                 (transport_for b route (with_service_credential c cred) (rt_backend route) call token)
                 (\<lambda>r. case r of
                    Inl e \<Rightarrow> ret (error_response (tc_id call) code_service_unavailable
                               ''service unavailable: backend unreachable'')
                  | Inr body \<Rightarrow> ret body))))"

definition handle_obo :: "'w broker \<Rightarrow> 'w ctx \<Rightarrow> tool_call \<Rightarrow> route_entry \<Rightarrow> ('w, bytes) act" where
  "handle_obo b c call route =
     (case bk_obo b of
        None \<Rightarrow> ret (error_response (tc_id call) code_service_unavailable
                  ''service unavailable: OBO pipeline not configured'')
      | Some obo \<Rightarrow> State_Monad.bind (obo c call route) (\<lambda>r. case r of
          Inl e \<Rightarrow> ret (error_response (tc_id call) code_service_unavailable
                     (''service unavailable: OBO pipeline error: '' @ err_text e))
        | Inr body \<Rightarrow> ret body))"

definition handle_execution :: "golib \<Rightarrow> 'w broker \<Rightarrow> 'w ctx \<Rightarrow> tool_call \<Rightarrow> ('w, bytes) act" where
  "handle_execution G b c call =
     (let tool = tool_name_from_call call in
      State_Monad.bind (bk_identity b c) (\<lambda>r. case r of
        Inl e \<Rightarrow> ret (identity_error_response (tc_id call) e)
      | Inr idn \<Rightarrow> State_Monad.bind (pe_evaluate (bk_policy b) c idn call) (\<lambda>r. case r of
        Inl e \<Rightarrow> ret (error_response (tc_id call) code_service_unavailable
                   ''service unavailable: policy engine error'')
      | Inr d \<Rightarrow>
          if \<not> d_permitted d then
            ret (error_response (tc_id call) code_policy_denied ''unauthorized: insufficient entitlements'')
          else (case resolve_route G b tool of
              Inl e \<Rightarrow> ret (error_response (tc_id call) code_invalid_params
                   (''invalid params: no route configured for tool prefix ''
                    @ go_quote (gl_printable G) (tool_prefix tool)))
            | Inr route \<Rightarrow>
                (let fwd = strip_prefix_from_call call (rt_prefix route) in
                 if rt_obo route \<noteq> [] then handle_obo b c fwd route
                 else handle_standard b c fwd idn route)))))"

subsection \<open>The entry point\<close>

definition handle :: "golib \<Rightarrow> 'w broker \<Rightarrow> 'w ctx \<Rightarrow> bytes \<Rightarrow> ('w, bytes) act" where
  "handle G b c data =
     (case parse_tool_call G data of
        Inl e \<Rightarrow> ret (error_response (id_holder G data) code_invalid_request
                  ''invalid request: does not conform to JSON-RPC 2.0'')
      | Inr call \<Rightarrow>
          if tc_method call = ''tools/list'' then handle_discovery G b c call
          else if tc_method call = ''tools/call'' then handle_execution G b c call
          else ret (error_response (tc_id call) code_invalid_request
                 (''unknown method '' @ go_quote (gl_printable G) (tc_method call))))"

subsection \<open>Log previews\<close>

fun trim_invalid :: "bytes \<Rightarrow> nat \<Rightarrow> bytes" where
  "trim_invalid s 0 = s"
| "trim_invalid s (Suc n) = (if utf8_valid s \<or> s = [] then s else trim_invalid (butlast s) n)"

definition preview_bytes :: "bytes \<Rightarrow> nat \<Rightarrow> string" where
  "preview_bytes b n =
     (if length b \<le> n then b else trim_invalid (take n b) (length (take n b)) @ ''...'')"

subsection \<open>The answer to a request that is not a call\<close>

lemma to_any_soft: "to_any f64 j = Some v \<Longrightarrow> to_any_soft f64 j = v"
proof (induction j arbitrary: v)
  case (JArr js)
  then obtain vs where vs: "map (to_any f64) js = map Some vs" and v: "v = GArr vs"
    by (auto simp: those_Some_iff)
  have "map (to_any_soft f64) js = vs"
  proof (rule nth_equalityI)
    show len: "length (map (to_any_soft f64) js) = length vs" using vs by (metis length_map)
    show "map (to_any_soft f64) js ! i = vs ! i" if "i < length (map (to_any_soft f64) js)" for i
    proof -
      have "to_any f64 (js ! i) = Some (vs ! i)"
        using vs that len by (metis length_map nth_map)
      then show ?thesis using JArr.IH [of "js ! i"] that by simp
    qed
  qed
  then show ?case using v by simp
next
  case (JObj ms)
  from JObj.prems obtain vs where vs: "map (\<lambda>m. to_any f64 (snd m)) ms = map Some vs"
      and v: "v = GMap (obj_map [] (zip (map (\<lambda>m. unquote (fst m)) ms) vs))"
    by (auto simp: those_Some_iff comp_def)
  have "map (\<lambda>m. to_any_soft f64 (snd m)) ms = vs"
  proof (rule nth_equalityI)
    show len: "length (map (\<lambda>m. to_any_soft f64 (snd m)) ms) = length vs" using vs by (metis length_map)
    show "map (\<lambda>m. to_any_soft f64 (snd m)) ms ! i = vs ! i"
      if "i < length (map (\<lambda>m. to_any_soft f64 (snd m)) ms)" for i
    proof -
      have "to_any f64 (snd (ms ! i)) = Some (vs ! i)"
        using arg_cong [OF vs, of "\<lambda>l. l ! i"] that len by simp
      then show ?thesis
        using JObj.IH [of "ms ! i" "snd (ms ! i)"] nth_mem [of i ms] that
        by (cases "ms ! i") (auto simp: snds.simps)
    qed
  qed
  then show ?case using v by (simp add: comp_def)
qed (auto split: option.splits)

lemma soft_field_Cons:
  "soft_field f64 (j # js) acc = soft_field f64 js
     (case j of JNum l \<Rightarrow> (case f64 l of None \<Rightarrow> acc | Some t \<Rightarrow> GNum t) | _ \<Rightarrow> to_any_soft f64 j)"
  by (cases j) simp_all

lemma any_field_soft: "any_field f64 js acc = Some v \<Longrightarrow> v = soft_field f64 js acc"
  by (induction js arbitrary: acc)
    (auto simp: soft_field_Cons split: option.splits json.splits dest: to_any_soft)

lemma soft_field_cases:
  "soft_field f64 js acc = acc \<or> (\<exists>j \<in> set js. soft_field f64 js acc = to_any_soft f64 j)"
  by (induction f64 js acc rule: soft_field.induct) (auto split: option.splits)

lemma id_holder_parsed:
  assumes "parse_tool_call G data = Inr call"
  shows "id_holder G data = tc_id call"
proof -
  obtain ms where ms: "json_parse data = Some (JObj ms)" "decode_call G ms = Some call"
    using parse_tool_call_Some [OF assms] by blast
  then have "any_field (gl_f64 G) (field_vals ''id'' ms) GNil = Some (tc_id call)"
    by (auto simp: decode_call_def split: option.splits)
  then show ?thesis using any_field_soft ms(1) by (fastforce simp: id_holder_def)
qed

subsection \<open>The order of the checks\<close>

text \<open>What \<open>handleExecution\<close> does, branch by branch; the world stops where the handler stops.\<close>

lemma execution_unidentified:
  "result (bk_identity b c) w = Inl e \<Longrightarrow>
     run (handle_execution G b c call) w =
       (identity_error_response (tc_id call) e, after (bk_identity b c) w)"
  by (simp add: handle_execution_def Let_def run_result_after world_simps)

lemma execution_refused:
  assumes "result (bk_identity b c) w = Inr idn" and "w' = after (bk_identity b c) w"
    and "\<not> says_yes (result (pe_evaluate (bk_policy b) c idn call) w')"
  shows "run (handle_execution G b c call) w =
    ((case result (pe_evaluate (bk_policy b) c idn call) w' of
        Inl e \<Rightarrow> error_response (tc_id call) code_service_unavailable
                   ''service unavailable: policy engine error''
      | Inr d \<Rightarrow> error_response (tc_id call) code_policy_denied
                   ''unauthorized: insufficient entitlements''),
     after (pe_evaluate (bk_policy b) c idn call) w')"
  using assms by (auto simp: handle_execution_def Let_def run_result_after world_simps split: sum.splits)

lemma execution_unrouted:
  assumes "result (bk_identity b c) w = Inr idn" and "w' = after (bk_identity b c) w"
    and "says_yes (result (pe_evaluate (bk_policy b) c idn call) w')"
    and "find_route (tool_prefix (tool_name_from_call call)) (bk_routes b) = None"
  shows "run (handle_execution G b c call) w =
    (error_response (tc_id call) code_invalid_params
       (''invalid params: no route configured for tool prefix ''
        @ go_quote (gl_printable G) (tool_prefix (tool_name_from_call call))),
     after (pe_evaluate (bk_policy b) c idn call) w')"
  using assms
  by (auto simp: handle_execution_def Let_def run_result_after world_simps resolve_route_def says_yes_def split: sum.splits)

lemma execution_routed:
  assumes "result (bk_identity b c) w = Inr idn" and "w' = after (bk_identity b c) w"
    and "says_yes (result (pe_evaluate (bk_policy b) c idn call) w')"
    and "find_route (tool_prefix (tool_name_from_call call)) (bk_routes b) = Some route"
  shows "run (handle_execution G b c call) w =
    run (if rt_obo route \<noteq> [] then handle_obo b c (strip_prefix_from_call call (rt_prefix route)) route
         else handle_standard b c (strip_prefix_from_call call (rt_prefix route)) idn route)
      (after (pe_evaluate (bk_policy b) c idn call) w')"
  using assms
  by (auto simp: handle_execution_def run_result_after world_simps resolve_route_def says_yes_def Let_def split: sum.splits)

lemma find_route_find: "find_route p rs = find (\<lambda>r. rt_prefix r = p) rs"
  by (induction rs) auto

lemma find_route_None: "find_route p rs = None \<longleftrightarrow> (\<forall>r \<in> set rs. rt_prefix r \<noteq> p)"
  by (induction rs) auto

subsection \<open>The tools a discovery offers\<close>

definition tools_ok :: "string set \<times> string list \<Rightarrow> bool" where
  "tools_ok acc \<longleftrightarrow> fst acc = set (snd acc) \<and> distinct (snd acc) \<and> (\<forall>t \<in> set (snd acc). CHR ''/'' \<in> set t)"

lemma qualify_slash: "CHR ''/'' \<in> set (qualify p t)"
  by (simp add: qualify_def)

lemma add_tools_Cons:
  "add_tools p (t # ts) acc = add_tools p ts
     (if qualify p t \<in> fst acc then acc else (insert (qualify p t) (fst acc), snd acc @ [qualify p t]))"
  by (cases acc) (simp add: Let_def)

lemma add_tools_ok: "tools_ok acc \<Longrightarrow> tools_ok (add_tools p ts acc)"
proof (induction ts arbitrary: acc)
  case (Cons t ts)
  show ?case
    unfolding add_tools_Cons by (rule Cons.IH) (use Cons.prems in \<open>auto simp: tools_ok_def qualify_slash\<close>)
qed simp

lemma add_tools_set:
  "fst acc = set (snd acc) \<Longrightarrow> set (snd (add_tools p ts acc)) = set (snd acc) \<union> qualify p ` set ts"
proof (induction ts arbitrary: acc)
  case (Cons t ts)
  let ?acc = "if qualify p t \<in> fst acc then acc else (insert (qualify p t) (fst acc), snd acc @ [qualify p t])"
  have "set (snd (add_tools p ts ?acc)) = set (snd ?acc) \<union> qualify p ` set ts"
    by (rule Cons.IH) (use Cons.prems in auto)
  then show ?case unfolding add_tools_Cons using Cons.prems by auto
qed simp

lemma aggregate_loop_ok:
  "tools_ok acc \<Longrightarrow> distinct (result (aggregate_loop G b c idn rs acc) w)
     \<and> (\<forall>t \<in> set (result (aggregate_loop G b c idn rs acc) w). CHR ''/'' \<in> set t)"
proof (induction rs arbitrary: acc w)
  case (Cons r rs)
  show ?case
    using Cons.IH [OF add_tools_ok [OF Cons.prems], of "rt_prefix r" "result (list_backend G b c idn r) w"
        "after (list_backend G b c idn r) w"]
    by (simp add: world_simps)
qed (simp add: tools_ok_def)

text \<open>A tool on the list is a qualified name that one of the routes' backends answered with.\<close>

lemma aggregate_loop_origin:
  assumes "tools_ok acc" and "t \<in> set (result (aggregate_loop G b c idn rs acc) w)"
  shows "t \<in> set (snd acc) \<or> (\<exists>r \<in> set rs. \<exists>w' x. x \<in> set (result (list_backend G b c idn r) w')
           \<and> t = qualify (rt_prefix r) x)"
  using assms
proof (induction rs arbitrary: acc w)
  case (Cons r rs)
  let ?acc = "add_tools (rt_prefix r) (result (list_backend G b c idn r) w) acc"
  from Cons.prems(2) have "t \<in> set (result (aggregate_loop G b c idn rs ?acc) (after (list_backend G b c idn r) w))"
    by (simp add: world_simps)
  then have "t \<in> set (snd ?acc) \<or> (\<exists>r \<in> set rs. \<exists>w' x. x \<in> set (result (list_backend G b c idn r) w')
      \<and> t = qualify (rt_prefix r) x)"
    using Cons.IH [OF add_tools_ok [OF Cons.prems(1)]] by blast
  moreover have "set (snd ?acc) = set (snd acc) \<union> qualify (rt_prefix r) ` set (result (list_backend G b c idn r) w)"
    using Cons.prems(1) by (intro add_tools_set) (simp add: tools_ok_def)
  ultimately show ?case by auto
qed simp

lemma aggregate_tools_result:
  "\<exists>ts. result (aggregate_tools G b c) w = Inr ts \<and> distinct ts \<and> (\<forall>t \<in> set ts. CHR ''/'' \<in> set t)"
proof -
  have "tools_ok ({}, [])" by (simp add: tools_ok_def)
  note ok = aggregate_loop_ok [OF this, of G b c _ "bk_routes b"]
  have "\<exists>idn w'. result (aggregate_tools G b c) w = Inr (result (aggregate_loop G b c idn (bk_routes b) ({}, [])) w')"
    unfolding aggregate_tools_def result_bind result_ret by blast
  then show ?thesis using ok by fastforce
qed

text \<open>
  The list is the first occurrences of the names that the backends offer, in the order of the
  routes. Here for backends whose answers do not depend on the moment and a broker without a token
  store: \<open>cred r\<close> is the credential of a route and \<open>reply r k\<close> what its transport answers to a
  \<open>tools/list\<close> with the credential \<open>k\<close>.
\<close>

definition first_occurrences :: "'a list \<Rightarrow> 'a list" where
  "first_occurrences xs = rev (remdups (rev xs))"

definition offered_names :: "golib \<Rightarrow> string \<Rightarrow> goerr + string \<Rightarrow> (string \<Rightarrow> goerr + bytes) \<Rightarrow> string list" where
  "offered_names G prefix cred reply =
     (case cred of
        Inl e \<Rightarrow> []
      | Inr k \<Rightarrow> (case reply k of
          Inl e \<Rightarrow> []
        | Inr body \<Rightarrow> (case parse_tool_list_response G body of
            Inl e \<Rightarrow> []
          | Inr ts \<Rightarrow> map (\<lambda>t. if CHR ''/'' \<in> set t then t else prefix @ ''/'' @ t) ts)))"

definition steady_backends :: "'w broker \<Rightarrow> 'w ctx \<Rightarrow> (route_entry \<Rightarrow> goerr + string)
    \<Rightarrow> (route_entry \<Rightarrow> string \<Rightarrow> goerr + bytes) \<Rightarrow> bool" where
  "steady_backends b c cred reply \<longleftrightarrow>
     bk_store b = None
     \<and> (\<forall>r \<in> set (bk_routes b). \<forall>v. result (bk_creds b c (rt_prefix r)) v = cred r
          \<and> (\<forall>k. result (transport_for b r (with_service_credential c k) (rt_backend r) list_call []) v = reply r k))"

lemma first_occurrences_snoc:
  "first_occurrences (xs @ [x]) = first_occurrences xs @ (if x \<in> set xs then [] else [x])"
  by (simp add: first_occurrences_def)

lemma set_first_occurrences [simp]: "set (first_occurrences xs) = set xs"
  by (simp add: first_occurrences_def)

lemma qualify_if: "qualify p t = (if CHR ''/'' \<in> set t then t else p @ ''/'' @ t)"
  by (simp add: qualify_def contains_char)

lemma add_tools_occurrences:
  "acc = (set xs, first_occurrences xs) \<Longrightarrow>
     add_tools p ts acc = (set (xs @ map (qualify p) ts), first_occurrences (xs @ map (qualify p) ts))"
proof (induction ts arbitrary: acc xs)
  case (Cons t ts)
  have "(if qualify p t \<in> fst acc then acc else (insert (qualify p t) (fst acc), snd acc @ [qualify p t])) =
      (set (xs @ [qualify p t]), first_occurrences (xs @ [qualify p t]))"
    using Cons.prems by (auto simp: first_occurrences_snoc)
  from Cons.IH [OF this] show ?case unfolding add_tools_Cons by simp
qed simp

lemma steady_list_backend:
  assumes "steady_backends b c cred reply" and "r \<in> set (bk_routes b)"
  shows "map (qualify (rt_prefix r)) (result (list_backend G b c idn r) v) = offered_names G (rt_prefix r) (cred r) (reply r)"
proof -
  have "result (list_credential b c idn r) v' = (case cred r of Inl e \<Rightarrow> None | Inr k \<Rightarrow> Some k)" for v'
    using assms by (auto simp: list_credential_def Let_def world_simps steady_backends_def split: option.splits sum.splits)
  then show ?thesis
    using assms by (auto simp: list_backend_def world_simps steady_backends_def offered_names_def qualify_if split: sum.splits)
qed

lemma steady_loop:
  assumes "steady_backends b c cred reply" and "set rs \<subseteq> set (bk_routes b)" and "acc = (set xs, first_occurrences xs)"
  shows "result (aggregate_loop G b c idn rs acc) v =
    first_occurrences (xs @ concat (map (\<lambda>r. offered_names G (rt_prefix r) (cred r) (reply r)) rs))"
  using assms(2,3)
proof (induction rs arbitrary: acc xs v)
  case (Cons r rs)
  have r: "r \<in> set (bk_routes b)" and rs: "set rs \<subseteq> set (bk_routes b)" using Cons.prems(1) by simp_all
  show ?case
    using Cons.IH [OF rs add_tools_occurrences [OF Cons.prems(2)]]
    by (simp add: world_simps steady_list_backend [OF assms(1) r] del: add_tools.simps)
qed simp

lemma steady_aggregate:
  assumes "steady_backends b c cred reply"
  shows "result (aggregate_tools G b c) v = Inr (first_occurrences
    (concat (map (\<lambda>r. offered_names G (rt_prefix r) (cred r) (reply r)) (bk_routes b))))"
proof -
  have "({}, []) = (set [], first_occurrences [])" by (simp add: first_occurrences_def)
  from steady_loop [OF assms subset_refl this] show ?thesis
    using assms by (simp add: aggregate_tools_def world_simps steady_backends_def)
qed

lemma run_discovery:
  assumes "result (bk_identity b c) w = Inr idn" and "w1 = after (bk_identity b c) w"
    and "result (aggregate_tools G b c) w1 = Inr all" and "w2 = after (aggregate_tools G b c) w1"
  shows "run (handle_discovery G b c call) w =
    ((case result (pe_filter (bk_policy b) c idn all) w2 of
        Inl e \<Rightarrow> error_response (tc_id call) code_service_unavailable
                   ''service unavailable: policy engine error''
      | Inr ts \<Rightarrow> success_response (tc_id call) (GMap [(''tools'', GArr (map GStr ts))])),
     after (pe_filter (bk_policy b) c idn all) w2)"
  using assms by (simp add: handle_discovery_def run_result_after world_simps split: sum.splits)

subsection \<open>Previews\<close>

lemma trim_invalid_valid: "length s \<le> n \<Longrightarrow> utf8_valid (trim_invalid s n)"
  by (induction s n rule: trim_invalid.induct) auto

lemma trim_invalid_take: "\<exists>k \<le> length s. trim_invalid s n = take k s"
proof (induction s n rule: trim_invalid.induct)
  case (1 s)
  show ?case by (intro exI [of _ "length s"]) simp
next
  case (2 s n)
  show ?case
  proof (cases "utf8_valid s \<or> s = []")
    case True
    then show ?thesis by (intro exI [of _ "length s"]) auto
  next
    case False
    then obtain k where k: "k \<le> length (butlast s)" "trim_invalid (butlast s) n = take k (butlast s)"
      using 2 by blast
    moreover have "take k (butlast s) = take k s"
      using k(1) False by (cases s rule: rev_cases) auto
    ultimately show ?thesis using False by (intro exI [of _ k]) auto
  qed
qed

subsection \<open>Properties of the broker\<close>

text \<open>
  C17: A call that is not permitted stops at the policy engine. When the engine denies the call,
  \<open>handleExecution\<close> answers the policy denial, when the engine fails, that the service is unavailable;
  in both cases it leaves the world as the identity and policy checks left it: no credential is
  fetched, no assertion minted, no backend and no pipeline asked.
\<close>

theorem refused_calls_stop:
  assumes "result (bk_identity b c) w = Inr idn" and "w' = after (bk_identity b c) w"
    and "\<not> says_yes (result (pe_evaluate (bk_policy b) c idn call) w')"
  shows "run (handle_execution G b c call) w =
    (case result (pe_evaluate (bk_policy b) c idn call) w' of
       Inl e \<Rightarrow> error_response (tc_id call) code_service_unavailable ''service unavailable: policy engine error''
     | Inr d \<Rightarrow> error_response (tc_id call) code_policy_denied ''unauthorized: insufficient entitlements'',
     after (pe_evaluate (bk_policy b) c idn call) w')"
  using execution_refused [OF assms] .

definition sample_broker :: "opa broker" where
  "sample_broker =
     \<lparr>bk_identity = (\<lambda>c. ret (Inr demo_caller)), bk_policy = opa_engine demo_opa_lib golib0 id,
      bk_transport = (\<lambda>c url call t. ret (Inr ''{}'')), bk_sse = (\<lambda>c url call t. ret (Inr ''{}'')),
      bk_minter = (\<lambda>c i j. ret (Inr ''assertion'')), bk_creds = (\<lambda>c p. ret (Inr ''service'')),
      bk_routes = [], bk_store = None, bk_obo = None\<rparr>"

lemma sample_broker_simps [simp]:
  "bk_identity sample_broker c = ret (Inr demo_caller)" "bk_policy sample_broker = opa_engine demo_opa_lib golib0 id"
  "bk_routes sample_broker = []"
  by (simp_all add: sample_broker_def)

theorem refused_calls_stop_witness:
  "run (handle_execution golib0 sample_broker background (filter_call golib0 ''jira/get-x'')) demo_opa =
     (error_response GNil code_policy_denied ''unauthorized: insufficient entitlements'', demo_opa)"
proof -
  let ?call = "filter_call golib0 ''jira/get-x''"
  have "\<not> path_match ''github/*'' ''jira/get-x''" by code_simp
  then have no: "\<not> permits demo_opa_lib demo_policies [''dev''] ''jira/get-x''"
    by (simp add: permits_def demo_policies_def entry_matches_def demo_opa_lib_def)
  have ev: "\<exists>d. opa_evaluate demo_opa_lib demo_opa demo_caller ?call = Inr d \<and> \<not> d_permitted d"
    using opa_evaluate_spec [OF demo_opa_wf, of demo_opa_lib demo_caller ?call] no
    by (simp add: filter_call_name print_ascii_def demo_opa_def)
  then show ?thesis
    using refused_calls_stop [of sample_broker background demo_opa demo_caller demo_opa ?call golib0]
    by (auto simp: opa_engine_def filter_call_def)
qed


definition sample_list :: bytes where
  "sample_list = json_print (JObj [(''result'', JObj [(''tools'', JArr
     [JObj [(''name'', JStr ''get-x'')], JObj [(''name'', JStr ''github/get-x'')], JObj [(''name'', JStr ''jira/list'')]])])])"

definition sample_routes :: "route_entry list" where
  "sample_routes = [\<lparr>rt_prefix = ''github'', rt_backend = ''http://github'', rt_obo = [], rt_transport = []\<rparr>,
     \<lparr>rt_prefix = ''jira'', rt_backend = ''http://jira'', rt_obo = [], rt_transport = []\<rparr>]"

definition listing_broker :: "opa broker" where
  "listing_broker = sample_broker\<lparr>bk_routes := sample_routes, bk_transport := (\<lambda>c url call t. ret (Inr sample_list))\<rparr>"

lemma sample_list_parse: "parse_tool_list_response G sample_list = Inr [''get-x'', ''github/get-x'', ''jira/list'']"
proof -
  have t: "plain_text ''get-x''" "plain_text ''github/get-x''" "plain_text ''jira/list''" "plain_text ''name''" "plain_text ''tools''"
    "plain_text ''result''" by (simp_all add: plain_text_def html_char_def)
  let ?j = "JObj [(''result'', JObj [(''tools'', JArr
     [JObj [(''name'', JStr ''get-x'')], JObj [(''name'', JStr ''github/get-x'')], JObj [(''name'', JStr ''jira/list'')]])])]"
  have "json_parse sample_list = Some ?j"
    unfolding sample_list_def by (rule json_parse_print) (simp_all add: t plain_text_ok max_nesting_def)
  moreover have "fold_name ''result'' = ''RESULT''" "fold_name ''error'' = ''ERROR''" by code_simp+
  ultimately show ?thesis
    by (simp add: parse_tool_list_response_def field_vals_Cons t plain_text_unquote tools_of_result_def with_tools_def
        get_string_def)
qed

lemma listing_names:
  "first_occurrences (concat (map (\<lambda>r. offered_names golib0 (rt_prefix r) (Inr ''service'') (\<lambda>k. Inr sample_list)) sample_routes)) =
     [''github/get-x'', ''jira/list'', ''jira/get-x'']"
  by (simp add: offered_names_def sample_list_parse sample_routes_def) (simp add: first_occurrences_def)

lemma listing_broker_simps:
  "bk_identity listing_broker c = ret (Inr demo_caller)" "bk_policy listing_broker = opa_engine demo_opa_lib golib0 id"
  "bk_routes listing_broker = sample_routes"
  by (simp_all add: listing_broker_def sample_broker_def)

lemma listing_steady: "steady_backends listing_broker c (\<lambda>r. Inr ''service'') (\<lambda>r k. Inr sample_list)"
  by (simp add: steady_backends_def listing_broker_def sample_broker_def sample_routes_def transport_for_def)

lemma listing_world:
  "after (aggregate_tools golib0 listing_broker c) w = w"
proof -
  have loop: "after (aggregate_loop golib0 listing_broker c None rs acc) w = w" for rs acc w
    by (induction rs arbitrary: acc w)
      (simp_all add: world_simps list_backend_def list_credential_def Let_def listing_broker_def sample_broker_def transport_for_def)
  have "bk_store listing_broker = None" by (simp add: listing_broker_def sample_broker_def)
  then show ?thesis by (simp add: aggregate_tools_def world_simps loop)
qed

lemma sample_decisions:
  "permits demo_opa_lib demo_policies [''dev''] ''github/get-x''" "\<not> permits demo_opa_lib demo_policies [''dev''] ''jira/list''"
  "\<not> permits demo_opa_lib demo_policies [''dev''] ''jira/get-x''"
proof -
  have "\<not> path_match ''github/*'' ''jira/list''" "\<not> path_match ''github/*'' ''jira/get-x''" by code_simp+
  then show "permits demo_opa_lib demo_policies [''dev''] ''github/get-x''"
    "\<not> permits demo_opa_lib demo_policies [''dev''] ''jira/list''" "\<not> permits demo_opa_lib demo_policies [''dev''] ''jira/get-x''"
    using demo_permits by (simp_all add: permits_def demo_policies_def entry_matches_def demo_opa_lib_def)
qed



definition ambiguous_policies :: "policy_entry list" where
  "ambiguous_policies = [\<lparr>pe_group = ''dev'', pe_scope = \<lparr>rs_allowed = [''github/*'', ''github/get-*''], rs_denied = []\<rparr>\<rparr>]"


text \<open>
  C38: A log preview never cuts a rune: it is the text itself when it fits, and otherwise a valid
  UTF-8 prefix of it of at most the given length, followed by dots.
\<close>

theorem previews_are_bounded_prefixes:
  "if length s \<le> n then preview_bytes s n = s
   else \<exists>k \<le> n. preview_bytes s n = take k s @ ''...'' \<and> utf8_valid (take k s)"
proof (cases "length s \<le> n")
  case False
  obtain k where k: "k \<le> length (take n s)" "trim_invalid (take n s) (length (take n s)) = take k (take n s)"
    using trim_invalid_take by blast
  moreover have "utf8_valid (trim_invalid (take n s) (length (take n s)))" by (rule trim_invalid_valid) simp
  moreover have "k \<le> n" using k(1) by simp
  moreover then have "take k (take n s) = take k s" by (simp add: min_def)
  ultimately show ?thesis using False by (auto simp: preview_bytes_def)
qed (simp add: preview_bytes_def)

text \<open>
  The preview of the SSE transport is the same text when its cut is at the end of a rune; inside
  one it is not UTF-8.
\<close>

lemma trim_invalid_whole: "utf8_valid s \<Longrightarrow> trim_invalid s n = s"
  by (cases n) simp_all

lemma preview_string_agrees: "utf8_valid (take n s) \<Longrightarrow> preview_string s n = preview_bytes s n"
  by (cases "length s \<le> n") (simp_all add: preview_string_def preview_bytes_def trim_invalid_whole)

lemma preview_string_cuts_runes: "\<not> utf8_valid (preview_string (map char_of [0xC3 :: nat, 0xA9]) 1)"
  by (simp add: preview_string_def) code_simp

subsection \<open>The identifier of a malformed request\<close>

lemma to_any_soft_depth: "json_depth j \<le> d \<Longrightarrow> json_depth (any_json (to_any_soft f64 j)) \<le> d"
proof (induction j arbitrary: d)
  case (JArr js)
  have "json_depth (any_json (to_any_soft f64 j)) \<le> d - 1" if "j \<in> set js" for j
    using JArr.IH [OF that, of "d - 1"] JArr.prems that by simp
  then show ?case using JArr.prems by simp
next
  case (JObj ms)
  let ?vs = "map snd (map (map_prod id (to_any_soft f64)) ms)"
  have v: "json_depth (any_json v) \<le> d - 1" if v: "v \<in> set ?vs" for v
  proof -
    obtain m where "m \<in> set ms" "v = to_any_soft f64 (snd m)" using v by auto
    then show ?thesis using JObj.IH [of m "snd m" "d - 1"] JObj.prems by (cases m) (auto simp: snds.simps)
  qed
  have "snd m \<in> set ?vs" if "m \<in> set (obj_map [] (zip (map (\<lambda>m. unquote (fst m)) ms) ?vs))" for m
    using subsetD [OF set_obj_map that] by (cases m) (auto dest: set_zip_rightD)
  then show ?case using v JObj.prems by fastforce
qed (auto split: option.splits)

lemma to_any_soft_nums_ok: "f64_ok f64 \<Longrightarrow> nums_ok (to_any_soft f64 j)"
proof (induction j)
  case (JObj ms)
  let ?vs = "map snd (map (map_prod id (to_any_soft f64)) ms)"
  have v: "nums_ok v" if "v \<in> set ?vs" for v
    using that JObj by (auto simp: snds.simps)
  have "snd m \<in> set ?vs" if "m \<in> set (obj_map [] (zip (map (\<lambda>m. unquote (fst m)) ms) ?vs))" for m
    using subsetD [OF set_obj_map that] by (cases m) (auto dest: set_zip_rightD)
  then show ?case using v by (auto simp: list_all_iff)
qed (auto simp: f64_ok_def list_all_iff split: option.splits)

lemma id_holder_ok: "f64_ok (gl_f64 G) \<Longrightarrow> id_ok (id_holder G data)"
proof -
  assume f: "f64_ok (gl_f64 G)"
  have "id_holder G data = GNil \<or> (\<exists>ms v. json_parse data = Some (JObj ms) \<and> v \<in> set (field_vals ''id'' ms)
      \<and> id_holder G data = to_any_soft (gl_f64 G) v)"
    using soft_field_cases [of "gl_f64 G" _ GNil] by (fastforce simp: id_holder_def split: option.splits json.splits)
  then show ?thesis
  proof (elim disjE exE conjE)
    fix ms v assume ms: "json_parse data = Some (JObj ms)" "v \<in> set (field_vals ''id'' ms)"
      and h: "id_holder G data = to_any_soft (gl_f64 G) v"
    obtain k where k: "(k, v) \<in> set ms" using set_field_vals [of v "''id''" ms] ms(2) by auto
    have "json_depth (JObj ms) \<le> max_nesting" using json_parse_ok [OF ms(1)] by simp
    then have "json_depth v \<le> max_nesting - 1" using k by fastforce
    from to_any_soft_depth [OF this, of "gl_f64 G"] show ?thesis
      using to_any_soft_nums_ok [OF f, of v] by (simp add: h id_ok_def)
  qed (simp add: id_ok_def max_nesting_def)
qed

text \<open>
  C18: Every request that is not a JSON-RPC call gets an answer, and nothing else happens. Whatever the
  bytes are, when they do not parse as a call, \<open>Handle\<close> leaves the world as it is and answers
  one JSON object: version 2.0, the request's \<open>id\<close> as far as one can be read, and an error
  object with code -32600.
\<close>

theorem malformed_requests_are_answered:
  assumes "f64_ok (gl_f64 G)" and "parse_tool_call G data = Inl e"
  shows "after (handle G b c data) w = w
    \<and> json_parse (result (handle G b c data) w) = Some (JObj
        [(''jsonrpc'', JStr ''2.0''), (''id'', any_json (id_holder G data)),
         (''error'', JObj [(''code'', JNum ''-32600''),
            (''message'', JStr (quote ''invalid request: does not conform to JSON-RPC 2.0''))])])"
proof -
  have code: "show_int code_invalid_request = ''-32600''"
    by (simp add: code_invalid_request_def show_int_def show_nat.simps digit_char_def char_of_eq)
  have "handle G b c data = ret (error_response (id_holder G data) code_invalid_request
      ''invalid request: does not conform to JSON-RPC 2.0'')"
    using assms(2) by (simp add: handle_def)
  then show ?thesis
    using error_response_parse [OF id_holder_ok [OF assms(1), of data], of code_invalid_request
        "''invalid request: does not conform to JSON-RPC 2.0''"]
    unfolding code by simp
qed

theorem malformed_requests_are_answered_witness:
  "json_parse (result (handle golib0 sample_broker background ''oops'') demo_opa) = Some (JObj
     [(''jsonrpc'', JStr ''2.0''), (''id'', any_json (id_holder golib0 ''oops'')),
      (''error'', JObj [(''code'', JNum ''-32600''),
         (''message'', JStr (quote ''invalid request: does not conform to JSON-RPC 2.0''))])])"
proof -
  have "json_parse ''oops'' = None" by code_simp
  then have "parse_tool_call golib0 ''oops'' = Inl (wrap_err ErrInvalidRequest (gl_json_err golib0 ''oops''))"
    by (simp add: parse_tool_call_def unmarshal_call_def)
  from malformed_requests_are_answered [OF golib0_f64_ok this, of sample_broker background demo_opa] show ?thesis by blast
qed

end
