(* ===== verification/Forwarding.thy ===== *)
theory Forwarding
  imports Broker
begin

section \<open>What the broker forwards\<close>

text \<open>
  \<open>stripPrefixFromCall\<close> rewrites one member of \<open>params\<close> and prints the rest again. The lemmas
  here show that the printed parameters parse back to the same members, and that the tool they
  name is the approved one without the route's prefix, as long as the policy side (struct
  decoding, which folds case) and the forwarding side (a map with exact keys) read the same
  member.
\<close>

subsection \<open>The forwarded call names the approved tool\<close>

lemma html_raw_ascii_append:
  "(\<And>c. c \<in> set q \<Longrightarrow> byte c < 0x80 \<and> \<not> html_char c) \<Longrightarrow> html_raw (q @ t) = q @ html_raw t"
proof (induction q)
  case (Cons a q)
  then have "byte a < 0x80 \<and> \<not> html_char a" by simp
  moreover have "byte (CHR 0xE2) = 226" by simp
  ultimately have "html_raw (a # q @ t) = a # html_raw (q @ t)"
    by (intro html_raw_simps(3)) auto
  then show ?case using Cons by simp
qed simp

lemma html_raw_rune_append:
  assumes "rune_width q = Some (length q)" and "\<not> byte (hd q) < 0x80" and "\<not> line_sep q"
  shows "html_raw (q @ t) = q @ html_raw t"
proof (cases q)
  case (Cons c r)
  have w: "lead_width (byte c) = Some (Suc (length r))" and tl: "tail_ok (byte c) r"
    using assms(1) Cons by (auto simp: rune_width_Some_iff)
  have cont: "0x80 \<le> byte x \<and> byte x < 0xC0" if "x \<in> set r" for x
    using tl that by (cases r) (auto simp: tail_ok_def second_ok_def cont_byte_def list_all_iff split: if_splits)
  then have "html_raw (r @ t) = r @ html_raw t"
  proof (induction r)
    case (Cons x r)
    then have "\<not> html_char x \<and> x \<noteq> CHR 0xE2" by (fastforce simp: html_char_def)
    then show ?case using Cons by (simp add: html_raw_simps)
  qed simp
  moreover have "html_raw (c # r @ t) = c # html_raw (r @ t)"
  proof -
    have h: "\<not> html_char c" using assms(2) Cons by (auto simp: html_char_def)
    moreover have "\<not> line_sep (take 3 (c # r @ t))"
    proof
      assume ls: "line_sep (take 3 (c # r @ t))"
      then have "c = CHR 0xE2" by (auto simp: line_sep_def)
      then have "length r = 2" using w by (simp add: lead_width_def)
      then show False using ls assms(3) Cons by simp
    qed
    ultimately show ?thesis by (subst html_raw.simps) simp
  qed
  ultimately show ?thesis using Cons by simp
qed simp

lemma html_char_byte: "html_char c \<longleftrightarrow> byte c \<in> {60, 62, 38}"
proof -
  have inj: "c = d \<longleftrightarrow> byte c = byte d" for d using char_of_eq [of c "byte d"] by auto
  show ?thesis
    unfolding html_char_def inj [of "CHR ''<''"] inj [of "CHR ''>''"] inj [of "CHR 0x26"] by simp
qed

lemma hex_digit_plain: "d < 16 \<Longrightarrow> byte (hex_digit d) < 0x80 \<and> \<not> html_char (hex_digit d)"
  by (simp add: hex_digit_def html_char_byte)

lemma u_escape_plain: "n < 65536 \<Longrightarrow> x \<in> set (u_escape n) \<Longrightarrow> byte x < 0x80 \<and> \<not> html_char x"
  using hex_digit_plain [of "n div 4096"] hex_digit_plain [of "n div 256 mod 16"]
    hex_digit_plain [of "n div 16 mod 16"] hex_digit_plain [of "n mod 16"]
  by (auto simp: u_escape_def less_mult_imp_div_less) (simp_all add: html_char_byte)

lemma quote_ascii_plain:
  "byte c < 0x80 \<Longrightarrow> x \<in> set (quote_ascii c) \<Longrightarrow> byte x < 0x80 \<and> \<not> html_char x"
  using u_escape_plain [of "byte c" x]
  by (auto simp: quote_ascii_def split: if_splits) (auto simp: html_char_byte)

lemma line_sep_value: "line_sep q \<Longrightarrow> rune_value q < 65536"
  by (auto simp: line_sep_def rune_value_def)

lemma html_raw_quote [simp]: "html_raw (quote s) = quote s"
proof (induction s rule: length_induct)
  case (1 s)
  then have IH: "html_raw (quote t) = quote t" if "length t < length s" for t using that by blast
  show ?case
  proof (cases s)
    case Nil
    then show ?thesis by (simp add: quote.simps html_raw_simps)
  next
    case (Cons c r)
    show ?thesis
    proof (cases "byte c < 0x80")
      case True
      then have "quote s = quote_ascii c @ quote r" using Cons by (subst quote.simps) simp
      then show ?thesis
        using html_raw_ascii_append [of "quote_ascii c"] quote_ascii_plain [OF True] IH [of r] Cons by auto
    next
      case high: False
      show ?thesis
      proof (cases "rune_width s")
        case None
        then have "quote s = u_escape 0xFFFD @ quote r" using Cons high by (subst quote.simps) simp
        then show ?thesis
          using html_raw_ascii_append [of "u_escape 0xFFFD" "quote r"] u_escape_plain [of 65533] IH [of r] Cons
          by auto
      next
        case (Some n)
        let ?q = "take n s"
        note b = rune_width_bounds [OF Some]
        have d: "html_raw (quote (drop n s)) = quote (drop n s)" by (rule IH) (use b Cons in auto)
        have "html_raw (u_escape m @ quote (drop n s)) = u_escape m @ quote (drop n s)" if "m < 65536" for m
          using html_raw_ascii_append [of "u_escape m"] u_escape_plain [OF that] d by auto
        moreover have "html_raw (?q @ quote (drop n s)) = ?q @ quote (drop n s)" if "\<not> line_sep ?q"
        proof -
          have "rune_width ?q = Some (length ?q)" using rune_width_take [OF Some, of "[]"] b by simp
          moreover have "hd ?q = c" using b Cons by (cases n) auto
          ultimately show ?thesis using html_raw_rune_append [of ?q] that high d by simp
        qed
        moreover have "quote s = (if line_sep ?q then u_escape (rune_value ?q) else ?q) @ quote (drop n s)"
          using Cons high Some by (subst quote.simps) simp
        ultimately show ?thesis by (cases "line_sep ?q") (auto simp: line_sep_value)
      qed
    qed
  qed
qed

text \<open>The escapes of \<open>Marshal\<close> do not change what a literal denotes, whatever bytes it holds.\<close>

lemma raw_ok_tail: "raw_ok (q @ r) \<Longrightarrow> (\<And>c. c \<in> set q \<Longrightarrow> \<not> byte c < 0x80) \<Longrightarrow> raw_ok r"
proof (induction q)
  case (Cons c q)
  have "c \<noteq> backslash" using Cons.prems(2) [of c] by auto
  then have "raw_ok (q @ r)" using Cons.prems(1) by (auto elim: raw_ok_cases)
  then show ?case using Cons by simp
qed simp

lemma html_raw_conts:
  "list_all cont_byte (take k (html_raw s)) \<Longrightarrow> take k (html_raw s) = take k s"
proof (induction k arbitrary: s)
  case (Suc k)
  have esc: "\<not> list_all cont_byte (take (Suc k) (u_escape n @ t))" for n t by (simp add: u_escape_def cont_byte_def)
  show ?case
  proof (cases s)
    case (Cons c r)
    then have "html_raw s = c # html_raw r" using Suc.prems esc by (auto simp: html_raw.simps [of "c # r"] split: if_splits)
    then show ?thesis using Suc Cons by simp
  qed (simp add: html_raw_simps)
qed simp

lemma tail_ok_conts: "tail_ok x q \<Longrightarrow> list_all cont_byte q"
  by (cases q) (auto simp: tail_ok_def second_ok_def cont_byte_def split: if_splits)

lemma rune_width_html_raw:
  assumes "rune_width (c # r) = None"
  shows "rune_width (c # html_raw r) = None"
proof (rule ccontr)
  assume "rune_width (c # html_raw r) \<noteq> None"
  then obtain n where n: "rune_width (c # html_raw r) = Some n" by auto
  then have t: "lead_width (byte c) = Some n" "n \<le> Suc (length (html_raw r))" "tail_ok (byte c) (take (n - 1) (html_raw r))"
    by (auto simp: rune_width_Some_iff)
  have eq: "take (n - 1) (html_raw r) = take (n - 1) r" by (rule html_raw_conts [OF tail_ok_conts [OF t(3)]])
  have "n \<le> Suc (length r)" using arg_cong [OF eq, of length] t(2) by (simp add: min_def split: if_splits)
  then show False using assms t eq by (simp add: rune_width_def)
qed

lemma unquote_hex:
  assumes "length q = 4" and "hex4 q = Some rr"
  shows "unquote (backslash # CHR ''u'' # q @ r) =
    (if high_surrogate rr \<and> (\<exists>lo. getu4 r = Some lo \<and> low_surrogate lo)
     then encode_rune (0x10000 + (rr - 0xD800) * 1024 + (the (getu4 r) - 0xDC00)) @ unquote (drop 6 r)
     else (if high_surrogate rr \<or> low_surrogate rr then rune_error else encode_rune rr) @ unquote r)"
  using assms by (subst unquote.simps) (auto split: option.splits)

lemma getu4_hex: "length q = 4 \<Longrightarrow> getu4 (backslash # CHR ''u'' # q @ r) = hex4 q"
  by (simp add: getu4_def)

lemma line_sep_rune: "line_sep q \<Longrightarrow> rune_value q \<in> {8232, 8233}"
  by (auto simp: line_sep_def rune_value_def)

lemma line_sep_width: "line_sep q \<Longrightarrow> rune_width q = Some 3"
  by (auto simp: line_sep_def rune_width_def lead_width_def tail_ok_def second_ok_def cont_byte_def)

lemma getu4_html_raw:
  assumes "raw_ok r"
  shows "(\<exists>q t. r = backslash # CHR ''u'' # q @ t \<and> length q = 4 \<and> raw_ok t
      \<and> html_raw r = backslash # CHR ''u'' # q @ html_raw t)
    \<or> (\<forall>lo. getu4 r = Some lo \<longrightarrow> \<not> low_surrogate lo) \<and> (\<forall>lo. getu4 (html_raw r) = Some lo \<longrightarrow> \<not> low_surrogate lo)"
  using assms
proof (cases rule: raw_ok_cases)
  case Nil
  then show ?thesis by (simp add: html_raw_simps getu4_def)
next
  case (plain c t)
  have u: "getu4 (u_escape n @ x) = Some n" if "n < 65536" for n x
    using that hex4_digits [of n] by (simp add: getu4_def u_escape_def)
  have "\<not> low_surrogate lo" if "getu4 (html_raw r) = Some lo" for lo
  proof (cases "html_char c")
    case True
    then show ?thesis using that plain u [of "byte c"] by (auto simp: html_raw_simps low_surrogate_def html_char_byte)
  next
    case plainc: False
    show ?thesis
    proof (cases "line_sep (take 3 r)")
      case True
      then have "html_raw r = u_escape (rune_value (take 3 r)) @ html_raw (drop 3 r)"
        using plainc plain(1) by (simp add: html_raw.simps [of "c # t"])
      then show ?thesis using that u [OF line_sep_value [OF True]] line_sep_rune [OF True] by (auto simp: low_surrogate_def)
    next
      case False
      then have "html_raw r = c # html_raw t" using plainc plain(1) by (simp add: html_raw.simps [of "c # t"])
      then show ?thesis using that plain by (simp add: getu4_def)
    qed
  qed
  then show ?thesis using plain by (simp add: getu4_def)
next
  case (escape e t)
  then have "e \<noteq> CHR ''u''" by (auto simp: simple_escape_def)
  then show ?thesis using escape by (simp add: html_raw_escape getu4_def)
next
  case (hex q t)
  then show ?thesis using html_raw_escape [of "CHR ''u''" "q @ t"] html_raw_hex [of q t] by auto
qed

text \<open>Escaping keeps what a literal denotes.\<close>

lemma unquote_html_raw: "raw_ok s \<Longrightarrow> unquote (html_raw s) = unquote s"
proof (induction s rule: length_induct)
  case (1 s)
  then have IH: "unquote (html_raw t) = unquote t" if "length t < length s" "raw_ok t" for t using that by blast
  from 1(2) show ?case
  proof (cases rule: raw_ok_cases)
    case Nil
    then show ?thesis by (simp add: html_raw_simps)
  next
    case (escape e r)
    then obtain x where "simple_escape e = Some x" by auto
    then show ?thesis using escape IH [of r] by (simp add: html_raw_escape unquote_simps)
  next
    case (hex q r)
    then obtain rr where rr: "hex4 q = Some rr" by auto
    have h: "html_raw s = backslash # CHR ''u'' # q @ html_raw r"
      using hex html_raw_escape [of "CHR ''u''" "q @ r"] html_raw_hex [of q r] by simp
    have r: "unquote (html_raw r) = unquote r" using IH [of r] hex by simp
    from getu4_html_raw [OF hex(4)] show ?thesis
    proof
      assume "\<exists>q t. r = backslash # CHR ''u'' # q @ t \<and> length q = 4 \<and> raw_ok t \<and> html_raw r = backslash # CHR ''u'' # q @ html_raw t"
      then obtain q' t where t: "r = backslash # CHR ''u'' # q' @ t" "length q' = 4" "raw_ok t"
          "html_raw r = backslash # CHR ''u'' # q' @ html_raw t" by blast
      have "unquote (html_raw t) = unquote t" using IH [of t] t hex by simp
      moreover have "getu4 r = hex4 q'" "getu4 (html_raw r) = hex4 q'" "drop 6 r = t" "drop 6 (html_raw r) = html_raw t"
        using t(2) getu4_hex by (simp_all only: t(4)) (simp_all add: t(1) getu4_hex)
      ultimately show ?thesis by (simp only: hex(1) h [unfolded hex(1)] unquote_hex [OF hex(2) rr] r)
    next
      assume "(\<forall>lo. getu4 r = Some lo \<longrightarrow> \<not> low_surrogate lo) \<and> (\<forall>lo. getu4 (html_raw r) = Some lo \<longrightarrow> \<not> low_surrogate lo)"
      then show ?thesis
        using r unquote_hex [OF hex(2) rr, of r] unquote_hex [OF hex(2) rr, of "html_raw r"] hex(1) h by auto
    qed
  next
    case (plain c r)
    show ?thesis
    proof (cases "byte c < 0x80")
      case True
      have "c \<noteq> CHR 0xE2" using True by auto
      moreover have "unquote (u_escape (byte c) @ html_raw r) = c # unquote (html_raw r)"
        using unquote_u_escape [of "byte c"] True
        by (simp add: encode_rune_def high_surrogate_def low_surrogate_def char_of_eq)
      ultimately show ?thesis
        using True plain IH [of r] by (cases "html_char c") (simp_all add: html_raw_simps unquote_simps)
    next
      case high: False
      show ?thesis
      proof (cases "rune_width s")
        case None
        have "\<not> line_sep (take 3 s)"
        proof
          assume "line_sep (take 3 s)"
          from rune_width_ext [OF line_sep_width [OF this], of "drop 3 s"] show False using None by simp
        qed
        then have "html_raw s = c # html_raw r" using high plain(1) by (auto simp: html_raw.simps [of "c # r"] html_char_byte)
        then show ?thesis
          using None rune_width_html_raw [of c r] plain high IH [of r]
          by (simp add: unquote.simps [of "c # r"] unquote.simps [of "c # html_raw r"])
      next
        case (Some n)
        have hd: "\<not> byte (hd s) < 0x80" using high plain by simp
        note b = rune_width_bounds [OF Some]
        have s: "s = take n s @ drop n s" by simp
        have ok: "raw_ok (drop n s)" using raw_ok_tail [of "take n s" "drop n s"] 1(2) tail_high [OF Some hd] by simp
        have d: "unquote (html_raw (drop n s)) = unquote (drop n s)" using IH [OF _ ok] b plain by simp
        have u: "unquote s = take n s @ unquote (drop n s)" using unquote_rune [OF Some hd, of "drop n s"] by simp
        show ?thesis
        proof (cases "line_sep (take n s)")
          case True
          then have n: "n = 3" using b by (auto simp: line_sep_def dest: arg_cong [of _ _ length])
          then have "html_raw s = u_escape (rune_value (take 3 s)) @ html_raw (drop 3 s)"
            using True plain(1) high by (auto simp: html_raw.simps [of "c # r"] html_char_byte)
          then show ?thesis using line_sep_unquote [of "take 3 s"] True n u d by simp
        next
          case False
          have "rune_width (take n s) = Some (length (take n s))" using rune_width_take [OF Some, of "[]"] b by simp
          moreover have "hd (take n s) = c" using b plain by (cases n) auto
          ultimately have "html_raw s = take n s @ html_raw (drop n s)"
            using html_raw_rune_append [of "take n s" "drop n s"] False high by simp
          then show ?thesis using unquote_rune [OF Some hd, of "html_raw (drop n s)"] u d by simp
        qed
      qed
    qed
  qed
qed

text \<open>So the forwarded values decode to what the values of the call decode to.\<close>

lemma to_any_soft_html: "json_ok j \<Longrightarrow> to_any_soft f64 (html_json j) = to_any_soft f64 j"
proof (induction j)
  case (JArr js)
  then show ?case by (auto simp: list_all_iff)
next
  case (JObj ms)
  have "map (\<lambda>m. unquote (html_raw (fst m))) ms = map (\<lambda>m. unquote (fst m)) ms"
      "map (\<lambda>x. to_any_soft f64 (html_json (snd x))) ms = map (\<lambda>x. to_any_soft f64 (snd x)) ms"
    using JObj by (fastforce simp: list_all_iff unquote_html_raw snds.simps)+
  then show ?case by (simp add: comp_def cong: map_cong)
qed (simp_all add: unquote_html_raw)

text \<open>
  The two readings of \<open>params\<close> agree when one member, with the exact key \<open>name\<close>, is the only
  one whose key folds to it.
\<close>

definition one_name :: "bytes \<Rightarrow> bool" where
  "one_name ps \<longleftrightarrow>
     (case json_parse ps of
        Some (JObj ms) \<Rightarrow>
          length (field_vals ''name'' ms) = 1 \<and> ''name'' \<in> (\<lambda>m. unquote (fst m)) ` set ms
      | _ \<Rightarrow> False)"

lemma field_vals_one:
  assumes "length (field_vals f ms) = 1" and "(k, v) \<in> set ms" and "unquote k = f"
  shows "field_vals f ms = [v] \<and> (\<forall>m \<in> set ms. fold_name (unquote (fst m)) = fold_name f \<longrightarrow> m = (k, v))"
proof -
  have len: "length (filter (field_match f) ms) = 1" using assms(1) by (simp add: field_vals_def)
  then obtain m where m: "filter (field_match f) ms = [m]" by (auto simp: length_Suc_conv)
  have "(k, v) \<in> set (filter (field_match f) ms)" using assms(2,3) by (simp add: field_match_def)
  then have "m = (k, v)" using m by simp
  moreover have "x = m" if "x \<in> set ms" "field_match f x" for x
  proof -
    have "x \<in> set (filter (field_match f) ms)" using that by simp
    then show ?thesis unfolding m by simp
  qed
  ultimately show ?thesis using m by (auto simp: field_vals_def field_match_def)
qed

text \<open>The members of an object as a map: sorted, decoded keys.\<close>

lemma params_map_props:
  assumes "json_parse ps = Some (JObj ms)" and "params_map ps = Some m"
  shows "map_sorted m" and "set m \<subseteq> (\<lambda>x. (unquote (fst x), snd x)) ` set ms"
    and "map_of m = map_of (rev (map (\<lambda>x. (unquote (fst x), snd x)) ms))"
  using assms obj_map_sorted [of "[]"] set_obj_map [of "[]" "map (\<lambda>x. (unquote (fst x), snd x)) ms"]
  by (auto simp: params_map_def map_of_obj_map rev_map)

lemma map_of_unique:
  assumes "(k, v) \<in> set xs" and "\<And>w. (k, w) \<in> set xs \<Longrightarrow> w = v"
  shows "map_of xs k = Some v"
  using assms by (metis map_of_SomeD weak_map_of_SomeI)

lemma field_vals_quoted:
  assumes "distinct (map fst xs)" and "\<And>x. x \<in> set xs \<Longrightarrow> utf8_valid (fst x)"
    and "\<And>x. x \<in> set xs \<Longrightarrow> fold_name (fst x) = fold_name f \<Longrightarrow> fst x = f"
  shows "field_vals f (map (\<lambda>e. (quote (fst e), g (snd e))) xs) =
    (case map_of xs f of None \<Rightarrow> [] | Some v \<Rightarrow> [g v])"
  using assms
proof (induction xs)
  case (Cons x xs)
  have IH: "field_vals f (map (\<lambda>e. (quote (fst e), g (snd e))) xs) =
      (case map_of xs f of None \<Rightarrow> [] | Some v \<Rightarrow> [g v])"
    using Cons by simp
  show ?case
  proof (cases "fst x = f")
    case True
    then have "map_of xs f = None" using Cons.prems(1) by (auto simp: map_of_eq_None_iff)
    then show ?thesis using IH True Cons.prems(2) [of x] by (cases x) (simp add: field_vals_Cons)
  next
    case False
    then have "fold_name (fst x) \<noteq> fold_name f" using Cons.prems(3) [of x] by auto
    then show ?thesis using IH False Cons.prems(2) [of x] by (cases x) (simp add: field_vals_Cons)
  qed
qed simp

lemma strip_prefix_unfold:
  assumes "tc_params call = Some ps" and "pre \<noteq> []" and "json_parse ps = Some (JObj ms)"
    and "params_map ps = Some m" and "map_of m ''name'' = Some (JStr r)" and "unquote r = pre @ ''/'' @ t"
  shows "strip_prefix_from_call call pre = call\<lparr>tc_params := Some (json_print (JObj
           (map (\<lambda>e. (quote (fst e), html_json (snd e))) (map_put ''name'' (JStr (quote t)) m))))\<rparr>"
proof -
  have "trim_prefix (unquote r) (pre @ ''/'') = t" using assms(6) trim_prefix_append [of "pre @ ''/''" t] by simp
  moreover have "t \<noteq> unquote r" using assms(6) by (metis append_self_conv2 append_assoc list.distinct(1) append_is_Nil_conv)
  ultimately show ?thesis using assms by (simp add: strip_prefix_from_call_def raw_string_def Let_def)
qed

text \<open>
  The new parameters parse to the same members with the name shortened and every other value
  as it was (up to the HTML escapes of \<open>Marshal\<close>).
\<close>

lemma strip_prefix_params:
  assumes "json_parse ps = Some (JObj ms)" and "params_map ps = Some m"
  shows "json_parse (json_print (JObj (map (\<lambda>e. (quote (fst e), html_json (snd e)))
            (map_put ''name'' (JStr (quote t)) m))))
         = Some (JObj (map (\<lambda>e. (quote (fst e), html_json (snd e))) (map_put ''name'' (JStr (quote t)) m)))"
proof (rule json_parse_print)
  have ok: "json_ok (JObj ms)" "json_depth (JObj ms) \<le> max_nesting" using json_parse_ok [OF assms(1)] by auto
  have mem: "set (map_put k v m) \<subseteq> insert (k, v) (set m)" for k :: string and v :: json
    by (induction k v m rule: map_put.induct) auto
  have e: "json_ok (html_json (snd e)) \<and> json_depth (html_json (snd e)) \<le> max_nesting - 1"
    if "e \<in> set (map_put ''name'' (JStr (quote t)) m)" for e
  proof -
    note in_put = that
    consider "e = (''name'', JStr (quote t))" | x where "x \<in> set ms" "e = (unquote (fst x), snd x)"
    proof (cases "e = (''name'', JStr (quote t))")
      case False
      then have "e \<in> set m" using subsetD [OF mem in_put] by simp
      then show ?thesis using that(2) subsetD [OF params_map_props(2) [OF assms]] by blast
    qed (rule that(1))
    then show ?thesis
    proof cases
      case 1
      then show ?thesis by (simp add: quote_ok max_nesting_def)
    next
      case 2
      then have "json_ok (snd x)" "json_depth (snd x) \<le> max_nesting - 1" using ok by fastforce+
      then have "json_ok (html_json (snd x))" "json_depth (html_json (snd x)) \<le> max_nesting - 1"
        using html_json_ok html_json_depth by blast+
      then show ?thesis using 2(2) by simp
    qed
  qed
  show "json_ok (JObj (map (\<lambda>e. (quote (fst e), html_json (snd e))) (map_put ''name'' (JStr (quote t)) m)))"
    using e by (auto simp: quote_ok)
  show "json_depth (JObj (map (\<lambda>e. (quote (fst e), html_json (snd e)))
      (map_put ''name'' (JStr (quote t)) m))) \<le> max_nesting"
    using e by (auto simp: max_nesting_def)
qed

lemma one_name_cases:
  assumes "one_name ps" and "unmarshal_string ''name'' ps = Some n"
  obtains ms m j where "json_parse ps = Some (JObj ms)" and "params_map ps = Some m"
    and "map_of m ''name'' = Some j" and "field_vals ''name'' ms = [j]" and "raw_string j = Some n"
    and "\<And>x. x \<in> set m \<Longrightarrow> fold_name (fst x) = fold_name ''name'' \<Longrightarrow> fst x = ''name''"
proof -
  obtain ms where ms: "json_parse ps = Some (JObj ms)" "length (field_vals ''name'' ms) = 1"
      "''name'' \<in> (\<lambda>m. unquote (fst m)) ` set ms"
    using assms(1) by (auto simp: one_name_def split: option.splits json.splits)
  then obtain k j where kj: "(k, j) \<in> set ms" "unquote k = ''name''" by auto
  note one = field_vals_one [OF ms(2) kj]
  define m where "m = obj_map [] (map (\<lambda>m. (unquote (fst m), snd m)) ms)"
  have pm: "params_map ps = Some m" using ms(1) by (simp add: params_map_def m_def)
  note props = params_map_props [OF ms(1) pm]
  have "map_of m ''name'' = Some j"
    unfolding props(3)
  proof (rule map_of_unique)
    show "(''name'', j) \<in> set (rev (map (\<lambda>x. (unquote (fst x), snd x)) ms))" using kj by force
    show "w = j" if "(''name'', w) \<in> set (rev (map (\<lambda>x. (unquote (fst x), snd x)) ms))" for w
      using that one kj(2) by auto
  qed
  moreover have "raw_string j = Some n"
    using assms(2) ms(1) one
    by (cases j) (auto simp: unmarshal_string_def get_string_def raw_string_def)
  moreover have "fst x = ''name''" if "x \<in> set m" "fold_name (fst x) = fold_name ''name''" for x
    using that one kj(2) props(2) by force
  ultimately show ?thesis using that ms(1) pm one by blast
qed

lemma strip_prefix_name:
  assumes "tc_params call = Some ps" and "one_name ps" and "unmarshal_string ''name'' ps = Some (pre @ ''/'' @ t)"
    and "pre \<noteq> []"
  shows "tool_name_from_call (strip_prefix_from_call call pre) = to_valid t"
proof -
  obtain ms m j where *: "json_parse ps = Some (JObj ms)" "params_map ps = Some m"
      "map_of m ''name'' = Some j" "field_vals ''name'' ms = [j]" "raw_string j = Some (pre @ ''/'' @ t)"
      and only: "\<And>x. x \<in> set m \<Longrightarrow> fold_name (fst x) = fold_name ''name'' \<Longrightarrow> fst x = ''name''"
    by (rule one_name_cases [OF assms(2,3)]) blast
  obtain r where r: "j = JStr r" "unquote r = pre @ ''/'' @ t"
    using *(5) assms(4) by (cases j) (auto simp: raw_string_def)
  let ?m = "map_put ''name'' (JStr (quote t)) m"
  note props = params_map_props [OF *(1,2)]
  have keys: "fst ` set ?m = insert ''name'' (fst ` set m)" by (rule fst_set_map_put)
  have "distinct (map fst ?m)" using map_put_sorted [OF props(1)] by (rule map_sorted_distinct)
  moreover have "utf8_valid (fst x)" if "x \<in> set ?m" for x
  proof -
    have "fst x \<in> insert ''name'' (fst ` set m)" using keys that by blast
    then consider "fst x = ''name''" | y where "y \<in> set m" "fst x = fst y" by blast
    then show ?thesis
    proof cases
      case 2
      then show ?thesis using subsetD [OF props(2) 2(1)] by auto
    qed simp
  qed
  moreover have "fst x = ''name''" if "x \<in> set ?m" "fold_name (fst x) = fold_name ''name''" for x
  proof -
    have "fst x \<in> insert ''name'' (fst ` set m)" using keys that(1) by blast
    then consider "fst x = ''name''" | y where "y \<in> set m" "fst x = fst y" by blast
    then show ?thesis
    proof cases
      case 2
      then show ?thesis using only [of y] that(2) by simp
    qed
  qed
  ultimately have fv: "field_vals ''name'' (map (\<lambda>e. (quote (fst e), html_json (snd e))) ?m) = [JStr (quote t)]"
    using field_vals_quoted [of ?m "''name''" html_json] map_of_map_put [OF props(1)] by simp
  show ?thesis
    using strip_prefix_unfold [OF assms(1,4) *(1,2) *(3) [unfolded r(1)] r(2)]
      strip_prefix_params [OF *(1,2), of t] fv
    by (simp add: tool_name_from_call_def unmarshal_string_def get_string_def unquote_quote del: json_print.simps)
qed

text \<open>The members of the new parameters, as \<open>Unmarshal\<close> into a map reads them back.\<close>

lemma map_of_rev_distinct: "distinct (map fst xs) \<Longrightarrow> map_of (rev xs) = map_of xs"
  by (rule map_of_inject_set [THEN iffD2]) (simp_all flip: rev_map)

lemma map_of_values: "map_of (map (\<lambda>e. (fst e, g (snd e))) xs) k = map_option g (map_of xs k)"
  by (induction xs) auto

lemma printed_map:
  assumes "json_parse ps' = Some (JObj (map (\<lambda>e. (quote (fst e), g (snd e))) xs))"
    and "distinct (map fst xs)" and "\<And>x. x \<in> set xs \<Longrightarrow> utf8_valid (fst x)"
  shows "\<exists>m'. params_map ps' = Some m' \<and> (\<forall>k. map_of m' k = map_option g (map_of xs k))"
proof -
  obtain m' where m': "params_map ps' = Some m'" using assms(1) by (simp add: params_map_def)
  have "map (\<lambda>x. (unquote (fst x), snd x)) (map (\<lambda>e. (quote (fst e), g (snd e))) xs) = map (\<lambda>e. (fst e, g (snd e))) xs"
    using assms(3) by simp
  then have "map_of m' = map_of (rev (map (\<lambda>e. (fst e, g (snd e))) xs))"
    using params_map_props(3) [OF assms(1) m'] by (simp only:)
  also have "\<dots> = map_of (map (\<lambda>e. (fst e, g (snd e))) xs)"
    by (rule map_of_rev_distinct) (use assms(2) in \<open>simp add: comp_def\<close>)
  finally have "map_of m' k = map_option g (map_of xs k)" for k
    by (simp add: map_of_values)
  then show ?thesis using m' by blast
qed

lemma strip_prefix_members:
  assumes "tc_params call = Some ps" and "one_name ps" and "unmarshal_string ''name'' ps = Some (pre @ ''/'' @ t)"
    and "pre \<noteq> []"
  shows "\<exists>ps' m m'. strip_prefix_from_call call pre = call\<lparr>tc_params := Some ps'\<rparr>
    \<and> params_map ps = Some m \<and> params_map ps' = Some m' \<and> map_of m' ''name'' = Some (JStr (quote t))
    \<and> (\<forall>f64 k. k \<noteq> ''name'' \<longrightarrow> map_option (to_any_soft f64) (map_of m' k) = map_option (to_any_soft f64) (map_of m k))"
proof -
  obtain ms m j where *: "json_parse ps = Some (JObj ms)" "params_map ps = Some m"
      "map_of m ''name'' = Some j" "raw_string j = Some (pre @ ''/'' @ t)"
    by (rule one_name_cases [OF assms(2,3)]) blast
  obtain r where r: "j = JStr r" "unquote r = pre @ ''/'' @ t"
    using *(4) assms(4) by (cases j) (auto simp: raw_string_def)
  let ?m = "map_put ''name'' (JStr (quote t)) m"
  let ?ps = "json_print (JObj (map (\<lambda>e. (quote (fst e), html_json (snd e))) ?m))"
  note props = params_map_props [OF *(1,2)]
  have "utf8_valid (fst x)" if "x \<in> set ?m" for x
  proof -
    have "fst x \<in> insert ''name'' (fst ` set m)" using that fst_set_map_put [of "''name''" "JStr (quote t)" m] by blast
    moreover have "fst ` set m \<subseteq> (\<lambda>x. unquote (fst x)) ` set ms" using image_mono [OF props(2), of fst] by (simp add: image_image)
    ultimately show ?thesis by auto
  qed
  moreover have "distinct (map fst ?m)" using map_put_sorted [OF props(1)] by (rule map_sorted_distinct)
  ultimately obtain m' where m': "params_map ?ps = Some m'" "\<And>k. map_of m' k = map_option html_json (map_of ?m k)"
    using printed_map [OF strip_prefix_params [OF *(1,2)]] by blast
  have ok: "json_ok v" if "map_of m k = Some v" for k v
    using map_of_SomeD [OF that] props(2) json_parse_ok [OF *(1)] by fastforce
  have "map_option (to_any_soft f64) (map_of m' k) = map_option (to_any_soft f64) (map_of m k)" if "k \<noteq> ''name''" for f64 k
    using that ok to_any_soft_html by (cases "map_of m k") (auto simp: m'(2) map_of_map_put [OF props(1)])
  moreover have "map_of m' ''name'' = Some (JStr (quote t))" by (simp add: m'(2) map_of_map_put [OF props(1)])
  ultimately show ?thesis
    unfolding strip_prefix_unfold [OF assms(1,4) *(1,2) *(3) [unfolded r(1)] r(2)]
    by (intro exI [of _ ?ps] exI [of _ m] exI [of _ m']) (simp add: *(2) m'(1) del: json_print.simps)
qed

text \<open>
  C12: The backend gets the approved call without the route's prefix, and nothing else changed. For
  parameters in which exactly one member is \<open>name\<close> up to case, and it is spelled so, a call of
  \<open>prefix/tool\<close> is forwarded as the same call (version, identifier, method) with parameters that
  name \<open>tool\<close> (bytes that are not UTF-8 replaced, as \<open>Marshal\<close> does), whichever way they are
  read, and whose other members, read back into a map, decode to the values of the call's
  parameters, with the literals of numbers unchanged.
\<close>

theorem forwarded_call_names_the_tool:
  assumes "tc_params call = Some ps" and "one_name ps" and "unmarshal_string ''name'' ps = Some (pre @ ''/'' @ t)"
    and "pre \<noteq> []"
  shows "tool_name_from_call (strip_prefix_from_call call pre) = to_valid t
    \<and> (\<exists>ps' m m'. strip_prefix_from_call call pre = call\<lparr>tc_params := Some ps'\<rparr>
      \<and> params_map ps = Some m \<and> params_map ps' = Some m' \<and> map_of m' ''name'' = Some (JStr (quote t))
      \<and> (\<forall>f64 k. k \<noteq> ''name'' \<longrightarrow>
          map_option (to_any_soft f64) (map_of m' k) = map_option (to_any_soft f64) (map_of m k)))"
  using strip_prefix_name [OF assms] strip_prefix_members [OF assms] by blast

theorem forwarded_call_names_the_tool_witness:
  "\<exists>call ps' m'. tool_name_from_call call = ''github/get-x''
     \<and> strip_prefix_from_call call ''github'' = call\<lparr>tc_params := Some ps'\<rparr>
     \<and> tool_name_from_call (strip_prefix_from_call call ''github'') = to_valid ''get-x''
     \<and> params_map ps' = Some m' \<and> map_option (to_any_soft Some) (map_of m' ''id'') = Some (GNum ''7'')"
proof -
  let ?j = "JObj [(''id'', JNum ''7''), (''name'', JStr ''github/get-x'')]"
  let ?call = "\<lparr>tc_jsonrpc = ''2.0'', tc_id = GNil, tc_method = ''tools/call'', tc_params = Some (json_print ?j)\<rparr>"
  have p: "plain_text ''github/get-x''" "plain_text ''name''" "plain_text ''id''"
    by (simp_all add: plain_text_def html_char_def)
  have n: "num_ok ''7''" "fold_name ''id'' \<noteq> fold_name ''name''" by code_simp+
  have j: "json_parse (json_print ?j) = Some ?j"
    by (rule json_parse_print) (simp_all add: p n plain_text_ok max_nesting_def)
  have one: "one_name (json_print ?j)"
    unfolding one_name_def j by (simp add: field_vals_Cons p n plain_text_unquote)
  have u: "unmarshal_string ''name'' (json_print ?j) = Some (''github'' @ ''/'' @ ''get-x'')"
    unfolding unmarshal_string_def j by (simp add: get_string_def field_vals_Cons p n plain_text_unquote)
  have name: "tool_name_from_call ?call = ''github/get-x''"
    using u by (simp add: tool_name_from_call_def del: json_print.simps)
  have map: "params_map (json_print ?j) = Some [(''id'', JNum ''7''), (''name'', JStr ''github/get-x'')]"
    unfolding params_map_def j by (simp add: p plain_text_unquote)
  have "tool_name_from_call (strip_prefix_from_call ?call ''github'') = to_valid ''get-x''
    \<and> (\<exists>ps' m m'. strip_prefix_from_call ?call ''github'' = ?call\<lparr>tc_params := Some ps'\<rparr>
      \<and> params_map (json_print ?j) = Some m \<and> params_map ps' = Some m' \<and> map_of m' ''name'' = Some (JStr (quote ''get-x''))
      \<and> (\<forall>f64 k. k \<noteq> ''name'' \<longrightarrow>
          map_option (to_any_soft f64) (map_of m' k) = map_option (to_any_soft f64) (map_of m k)))"
    by (rule forwarded_call_names_the_tool [OF _ one u]) simp_all
  then obtain ps' m m' where ps': "tool_name_from_call (strip_prefix_from_call ?call ''github'') = to_valid ''get-x''"
      "strip_prefix_from_call ?call ''github'' = ?call\<lparr>tc_params := Some ps'\<rparr>" "params_map ps' = Some m'"
      and m: "params_map (json_print ?j) = Some m"
      and kept: "\<forall>f64 k. k \<noteq> ''name'' \<longrightarrow> map_option (to_any_soft f64) (map_of m' k) = map_option (to_any_soft f64) (map_of m k)"
    by blast
  have "m = [(''id'', JNum ''7''), (''name'', JStr ''github/get-x'')]" using m unfolding map by simp
  then have id: "map_option (to_any_soft Some) (map_of m' ''id'') = Some (GNum ''7'')"
    using kept [rule_format, of "''id''" Some] by (simp del: map_option_eq_Some)
  show ?thesis by (rule exI [of _ ?call], rule exI [of _ ps'], rule exI [of _ m']) (intro conjI name ps' id)
qed

end
