(* ===== verification/OboPipeline.thy ===== *)
theory OboPipeline
  imports Forwarding
begin

section \<open>On behalf of: \<^verbatim>\<open>obo_pipeline.go\<close> and \<^verbatim>\<open>refresh_transport.go\<close>\<close>

text \<open>
  The refreshing transport and the pipeline that forwards a call with the user's own downstream
  token. The lemmas go through them branch by branch: what is sent, what is stored and deleted,
  and where each error ends.
\<close>

subsection \<open>The refreshing round tripper\<close>

text \<open>
  A round tripper answers a request; the on-behalf-of context travels in the request. Reading
  the body of a request built from bytes does not fail, so that branch of \<open>RoundTrip\<close> is absent.
\<close>

type_synonym 'w round_tripper = "'w http_request \<Rightarrow> ('w, goerr + http_response) act"

type_synonym 'w token_refresher = "string \<Rightarrow> string \<Rightarrow> string \<Rightarrow> ('w, goerr + token_pair) act"

text \<open>
  A closed response body: \<open>net/http\<close> answers a read after \<open>Close\<close> with an error, unless the
  response had no body at all (\<open>http.NoBody\<close>).
\<close>

definition close_body :: "http_response \<Rightarrow> http_response" where
  "close_body r =
     (if hb_no_body (hr_body r) then r
      else r\<lparr>hr_body := \<lparr>hb_bytes = [], hb_error = Some ''http: read on closed response body'', hb_no_body = False\<rparr>\<rparr>)"

definition retry_request :: "'w http_request \<Rightarrow> string \<Rightarrow> 'w http_request" where
  "retry_request req access = req\<lparr>rq_header := header_set ''Authorization'' (''Bearer '' @ access) (rq_header req)\<rparr>"

definition refresh_round_trip :: "'w round_tripper \<Rightarrow> 'w token_refresher option \<Rightarrow> 'w round_tripper" where
  "refresh_round_trip inner refresher req =
     State_Monad.bind (inner req) (\<lambda>r. case r of
        Inl e \<Rightarrow> ret (Inl e)
      | Inr resp \<Rightarrow>
          if hr_status resp \<noteq> 401 then ret (Inr resp)
          else (case (obo_context_from_context (rq_ctx req), refresher) of
              (Some oc, Some refresh) \<Rightarrow>
                State_Monad.bind (ts_get (oc_store oc) (oc_user oc) (oc_provider oc)) (\<lambda>r. case r of
                   Inl e \<Rightarrow> ret (Inl (wrap_err ErrServiceUnavailable (''retrieve token for refresh: '' @ err_text e)))
                 | Inr current \<Rightarrow>
                State_Monad.bind (refresh (oc_user oc) (oc_provider oc) (tp_refresh current)) (\<lambda>r. case r of
                   Inl e \<Rightarrow> State_Monad.bind (ts_delete (oc_store oc) (oc_user oc) (oc_provider oc))
                     (\<lambda>_. ret (Inl (wrap_err ErrServiceUnavailable (''downstream token refresh failed: '' @ err_text e))))
                 | Inr pair \<Rightarrow> State_Monad.bind (ts_save (oc_store oc) (oc_user oc) (oc_provider oc) pair)
                     (\<lambda>_. inner (retry_request req (tp_access pair)))))
            | _ \<Rightarrow> ret (Inr (close_body resp))))"

definition new_refresh_transport :: "'w round_tripper \<Rightarrow> 'w round_tripper option \<Rightarrow> 'w token_refresher option \<Rightarrow> 'w round_tripper" where
  "new_refresh_transport default_transport inner refresher =
     refresh_round_trip (case inner of None \<Rightarrow> default_transport | Some t \<Rightarrow> t) refresher"

lemma new_refresh_transport_simps [simp]:
  "new_refresh_transport d None r = refresh_round_trip d r" "new_refresh_transport d (Some t) r = refresh_round_trip t r"
  by (simp_all add: new_refresh_transport_def)

subsection \<open>The OAuth2 refresher\<close>

text \<open>\<open>x/oauth2\<close>'s token source, given the configuration and the refresh token, is a parameter.\<close>

record oauth_config =
  oa_client_id :: string
  oa_client_secret :: string
  oa_scopes :: "string list"
  oa_token_url :: string

type_synonym 'w token_source = "oauth_config \<Rightarrow> string \<Rightarrow> ('w, string + token_pair) act"

fun providers_map :: "(string \<rightharpoonup> secondary_provider) \<Rightarrow> secondary_provider list \<Rightarrow> (string \<rightharpoonup> secondary_provider)" where
  "providers_map m [] = m"
| "providers_map m (p # ps) = providers_map (m(sp_name p \<mapsto> p)) ps"

definition oauth2_refresh :: "golib \<Rightarrow> 'w token_source \<Rightarrow> secondary_provider list \<Rightarrow> 'w token_refresher" where
  "oauth2_refresh G source providers user provider refresh_token =
     (case providers_map Map.empty providers provider of
        None \<Rightarrow> ret (Inl (wrap_err ErrServiceUnavailable
                   (''unknown provider '' @ go_quote (gl_printable G) provider)))
      | Some cfg \<Rightarrow> State_Monad.bind
          (source \<lparr>oa_client_id = sp_client_id cfg, oa_client_secret = sp_secret cfg,
                   oa_scopes = sp_scopes cfg, oa_token_url = sp_token_url cfg\<rparr> refresh_token)
          (\<lambda>r. ret (case r of
               Inl t \<Rightarrow> Inl (wrap_err ErrServiceUnavailable
                   (''oauth2 refresh for provider '' @ go_quote (gl_printable G) provider @ '': '' @ t))
             | Inr pair \<Rightarrow> Inr pair)))"

subsection \<open>The pipeline\<close>

type_synonym 'w cognito_refresher = "string \<Rightarrow> ('w, goerr + token_pair) act"

record 'w obo =
  ob_identity :: "'w identity_service"
  ob_policy :: "'w policy_engine"
  ob_store :: "'w token_store"
  ob_minter :: "'w assertion_minter"
  ob_refresher :: "'w cognito_refresher option"
  ob_transport :: "'w round_tripper"
  ob_sse :: "'w backend_transport option"
  ob_new_request :: "string \<Rightarrow> string option"

record 'w obo_config =
  oc_identity :: "'w identity_service option"
  oc_policy :: "'w policy_engine option"
  oc_token_store :: "'w token_store option"
  oc_minter :: "'w assertion_minter option"
  oc_refresher :: "'w cognito_refresher option"
  oc_transport :: "'w round_tripper option"
  oc_sse :: "'w backend_transport option"
  oc_logger :: bool

definition new_obo_pipeline :: "(string \<Rightarrow> string option) \<Rightarrow> 'w obo_config \<Rightarrow> goerr + 'w obo" where
  "new_obo_pipeline new_request cfg =
     (case oc_identity cfg of None \<Rightarrow> Inl (plain_err ''obo: IdentityService required'')
      | Some i \<Rightarrow>
     (case oc_policy cfg of None \<Rightarrow> Inl (plain_err ''obo: PolicyEngine required'')
      | Some p \<Rightarrow>
     (case oc_token_store cfg of None \<Rightarrow> Inl (plain_err ''obo: TokenStore required'')
      | Some s \<Rightarrow>
     (case oc_minter cfg of None \<Rightarrow> Inl (plain_err ''obo: IdentityAssertionMinter required'')
      | Some m \<Rightarrow>
     (case oc_transport cfg of None \<Rightarrow> Inl (plain_err ''obo: Transport required'')
      | Some t \<Rightarrow>
          if \<not> oc_logger cfg then Inl (plain_err ''obo: Logger required'')
          else Inr \<lparr>ob_identity = i, ob_policy = p, ob_store = s, ob_minter = m,
                    ob_refresher = oc_refresher cfg, ob_transport = t, ob_sse = oc_sse cfg,
                    ob_new_request = new_request\<rparr>)))))"

definition user_id_from_token :: "string \<Rightarrow> string" where
  "user_id_from_token token = (case jwt_claim ''sub'' token of None \<Rightarrow> [] | Some s \<Rightarrow> s)"

text \<open>\<open>resolveIdentity\<close>: the identity and the context to go on with.\<close>

definition silent_refresh :: "'w obo \<Rightarrow> 'w ctx \<Rightarrow> 'w cognito_refresher \<Rightarrow> string
    \<Rightarrow> ('w, goerr + (identity \<times> 'w ctx)) act" where
  "silent_refresh p c refresh user =
     State_Monad.bind (ts_get (ob_store p) user ''cognito'') (\<lambda>r. case r of
        Inl e \<Rightarrow>
          ret (Inl (if err_is e = ErrNotConnected
                    then wrap_err ErrUnauthenticated ''session expired: re-authentication required''
                    else wrap_err ErrServiceUnavailable (''retrieve cognito refresh token: '' @ err_text e)))
      | Inr pair \<Rightarrow>
     State_Monad.bind (refresh (tp_refresh pair)) (\<lambda>r. case r of
        Inl e \<Rightarrow> ret (Inl (wrap_err ErrUnauthenticated (''cognito silent refresh failed: '' @ err_text e)))
      | Inr fresh \<Rightarrow>
     State_Monad.bind (ts_save (ob_store p) user ''cognito'' fresh) (\<lambda>_.
       (let c' = with_bearer_token c (tp_access fresh) in
        State_Monad.bind (ob_identity p c') (\<lambda>r. ret (case r of
           Inl e \<Rightarrow> Inl (wrap_err ErrUnauthorized (''resolve identity after refresh: '' @ err_text e))
         | Inr idn \<Rightarrow> Inr (idn, c')))))))"

definition resolve_identity :: "'w obo \<Rightarrow> 'w ctx \<Rightarrow> ('w, goerr + (identity \<times> 'w ctx)) act" where
  "resolve_identity p c =
     State_Monad.bind (ob_identity p c) (\<lambda>r. case r of
        Inr idn \<Rightarrow> ret (Inr (idn, c))
      | Inl e \<Rightarrow>
          if err_is e \<noteq> ErrUnauthorized then ret (Inl e)
          else (case (ob_refresher p, bearer_token_from_context c) of
              (Some refresh, Some token) \<Rightarrow>
                if token = [] then ret (Inl e)
                else (let user = user_id_from_token token in
                      if user = [] then
                        ret (Inl (wrap_err ErrUnauthorized ''cannot extract userID from expired token''))
                      else silent_refresh p c refresh user)
            | _ \<Rightarrow> ret (Inl e)))"

definition obo_headers :: "string \<Rightarrow> string \<Rightarrow> (string \<times> string) list" where
  "obo_headers access token =
     header_set ''X-Abaris-Assertion'' token
       (header_set ''Authorization'' (''Bearer '' @ access)
         (header_set ''Content-Type'' ''application/json'' []))"

text \<open>Step D over plain HTTP.\<close>

definition obo_round_trip :: "golib \<Rightarrow> 'w obo \<Rightarrow> 'w ctx \<Rightarrow> tool_call \<Rightarrow> route_entry \<Rightarrow> string \<Rightarrow> string \<Rightarrow> string
    \<Rightarrow> ('w, goerr + bytes) act" where
  "obo_round_trip G p c call route user access token =
     (case marshal_call G call of
        Inl e \<Rightarrow> ret (Inl (prefix_err ''obo: marshal call: '' e))
      | Inr body \<Rightarrow>
          (case ob_new_request p (rt_backend route) of
             Some t \<Rightarrow> ret (Inl (plain_err (''obo: build request: '' @ t)))
           | None \<Rightarrow> State_Monad.bind
               (ob_transport p \<lparr>rq_method = ''POST'', rq_url = rt_backend route,
                   rq_header = obo_headers access token, rq_body = Some body,
                   rq_ctx = with_obo_context c (ob_store p) user (rt_obo route)\<rparr>)
               (\<lambda>r. ret (case r of
                  Inl e \<Rightarrow> Inl (wrap_err ErrServiceUnavailable (''backend roundtrip: '' @ err_text e))
                | Inr resp \<Rightarrow>
                    (case read_all (hr_body resp) of
                       Inl t \<Rightarrow> Inl (plain_err (''obo: read response: '' @ t))
                     | Inr b \<Rightarrow> Inr b)))))"

definition obo_execute :: "golib \<Rightarrow> 'w obo \<Rightarrow> 'w obo_pipeline" where
  "obo_execute G p c0 call route =
     State_Monad.bind (resolve_identity p c0) (\<lambda>r. case r of
        Inl e \<Rightarrow> ret (Inl e)
      | Inr (idn, c) \<Rightarrow>
     State_Monad.bind (pe_evaluate (ob_policy p) c idn call) (\<lambda>r. case r of
        Inl e \<Rightarrow> ret (Inl (wrap_err ErrServiceUnavailable (''policy evaluation: '' @ err_text e)))
      | Inr d \<Rightarrow>
     (if \<not> d_permitted d then
        ret (Inr (error_response (tc_id call) code_policy_denied ''unauthorized: insufficient entitlements''))
      else
     State_Monad.bind (ts_get (ob_store p) (id_user idn) (rt_obo route)) (\<lambda>r. case r of
        Inl e \<Rightarrow>
          ret (if err_is e = ErrNotConnected
               then Inr (error_response (tc_id call) code_unauthenticated
                      (''not connected: use /connect/'' @ rt_obo route @ '' to authorize''))
               else Inl (wrap_err ErrServiceUnavailable (''token store get: '' @ err_text e)))
      | Inr uat \<Rightarrow>
          (let bearer = (case bearer_token_from_context c of None \<Rightarrow> [] | Some t \<Rightarrow> t) in
     State_Monad.bind (ob_minter p c idn (origin_jti_from_token bearer)) (\<lambda>r. case r of
        Inl e \<Rightarrow> ret (Inl (wrap_err ErrServiceUnavailable (''mint assertion token: '' @ err_text e)))
      | Inr token \<Rightarrow>
          (case (rt_transport route = ''sse'', ob_sse p) of
             (True, Some sse) \<Rightarrow>
               sse (with_service_credential c (tp_access uat)) (rt_backend route) call token
           | _ \<Rightarrow> obo_round_trip G p c call route (id_user idn) (tp_access uat) token)))))))"

subsection \<open>What is sent and what is not\<close>

lemma obo_headers_values [simp]:
  "map_of (obo_headers access token) ''Authorization'' = Some (''Bearer '' @ access)"
  "map_of (obo_headers access token) ''X-Abaris-Assertion'' = Some token"
  by (simp_all add: obo_headers_def)

lemma retry_request_values:
  "map_of (rq_header (retry_request req a)) ''Authorization'' = Some (''Bearer '' @ a)"
  "k \<noteq> ''Authorization'' \<Longrightarrow> map_of (rq_header (retry_request req a)) k = map_of (rq_header req) k"
  "rq_body (retry_request req a) = rq_body req" "rq_url (retry_request req a) = rq_url req"
  by (simp_all add: retry_request_def)

subsection \<open>The refreshing round tripper, branch by branch\<close>

lemma refresh_pass:
  assumes "result (inner req) w = Inr resp" and "hr_status resp \<noteq> 401"
  shows "run (refresh_round_trip inner refresher req) w = (Inr resp, after (inner req) w)"
  using assms by (simp add: refresh_round_trip_def run_result_after world_simps)

lemma refresh_retry:
  assumes "result (inner req) w = Inr resp" and "hr_status resp = 401"
    and "cx_obo (rq_ctx req) = Some \<lparr>oc_store = st, oc_user = u, oc_provider = p\<rparr>"
    and "result (ts_get st u p) (after (inner req) w) = Inr cur"
    and "w1 = after (ts_get st u p) (after (inner req) w)"
    and "result (refresh u p (tp_refresh cur)) w1 = Inr pair"
    and "w2 = after (ts_save st u p pair) (after (refresh u p (tp_refresh cur)) w1)"
  shows "run (refresh_round_trip inner (Some refresh) req) w = run (inner (retry_request req (tp_access pair))) w2"
  using assms
  by (simp add: refresh_round_trip_def run_result_after world_simps obo_context_from_context_def)

lemma refresh_fail:
  assumes "result (inner req) w = Inr resp" and "hr_status resp = 401"
    and "cx_obo (rq_ctx req) = Some \<lparr>oc_store = st, oc_user = u, oc_provider = p\<rparr>"
    and "result (ts_get st u p) (after (inner req) w) = Inr cur"
    and "w1 = after (ts_get st u p) (after (inner req) w)"
    and "result (refresh u p (tp_refresh cur)) w1 = Inl e"
  shows "run (refresh_round_trip inner (Some refresh) req) w =
    (Inl (wrap_err ErrServiceUnavailable (''downstream token refresh failed: '' @ err_text e)),
     after (ts_delete st u p) (after (refresh u p (tp_refresh cur)) w1))"
  using assms
  by (simp add: refresh_round_trip_def run_result_after world_simps obo_context_from_context_def)

text \<open>
  A \<open>401\<close> handed back because there is no refresher arrives with its body closed: unless it had
  none, reading it is an error.
\<close>

lemma refresh_closed:
  assumes "result (inner req) w = Inr resp" and "hr_status resp = 401"
  shows "run (refresh_round_trip inner None req) w = (Inr (close_body resp), after (inner req) w)"
    and "\<not> hb_no_body (hr_body resp) \<Longrightarrow> \<exists>t. read_all (hr_body (close_body resp)) = Inl t"
  using assms
  by (auto simp: refresh_round_trip_def run_result_after world_simps close_body_def read_all_def
      split: option.splits)

subsection \<open>The pipeline, branch by branch\<close>

lemma resolve_identity_ok:
  "result (ob_identity p c) w = Inr idn \<Longrightarrow>
     run (resolve_identity p c) w = (Inr (idn, c), after (ob_identity p c) w)"
  by (simp add: resolve_identity_def run_result_after world_simps)

lemma obo_refused:
  assumes "result (resolve_identity p c) w = Inr (idn, c')" and "w1 = after (resolve_identity p c) w"
    and "result (pe_evaluate (ob_policy p) c' idn call) w1 = Inr d" and "\<not> d_permitted d"
  shows "run (obo_execute G p c call route) w =
    (Inr (error_response (tc_id call) code_policy_denied ''unauthorized: insufficient entitlements''),
     after (pe_evaluate (ob_policy p) c' idn call) w1)"
  using assms by (simp add: obo_execute_def run_result_after world_simps)

lemma obo_not_connected:
  assumes "result (resolve_identity p c) w = Inr (idn, c')" and "w1 = after (resolve_identity p c) w"
    and "result (pe_evaluate (ob_policy p) c' idn call) w1 = Inr d" and "d_permitted d"
    and "w2 = after (pe_evaluate (ob_policy p) c' idn call) w1"
    and "result (ts_get (ob_store p) (id_user idn) (rt_obo route)) w2 = Inl e" and "err_is e = ErrNotConnected"
  shows "run (obo_execute G p c call route) w =
    (Inr (error_response (tc_id call) code_unauthenticated
       (''not connected: use /connect/'' @ rt_obo route @ '' to authorize'')),
     after (ts_get (ob_store p) (id_user idn) (rt_obo route)) w2)"
  using assms by (simp add: obo_execute_def run_result_after world_simps)

lemma obo_forwards:
  assumes "result (resolve_identity p c) w = Inr (idn, c')" and "w1 = after (resolve_identity p c) w"
    and "result (pe_evaluate (ob_policy p) c' idn call) w1 = Inr d" and "d_permitted d"
    and "w2 = after (pe_evaluate (ob_policy p) c' idn call) w1"
    and "result (ts_get (ob_store p) (id_user idn) (rt_obo route)) w2 = Inr uat"
    and "w3 = after (ts_get (ob_store p) (id_user idn) (rt_obo route)) w2"
    and "jti = origin_jti_from_token (case cx_bearer c' of None \<Rightarrow> [] | Some t \<Rightarrow> t)"
    and "result (ob_minter p c' idn jti) w3 = Inr token" and "w4 = after (ob_minter p c' idn jti) w3"
  shows "run (obo_execute G p c call route) w =
    run (case (rt_transport route = ''sse'', ob_sse p) of
           (True, Some sse) \<Rightarrow> sse (with_service_credential c' (tp_access uat)) (rt_backend route) call token
         | _ \<Rightarrow> obo_round_trip G p c' call route (id_user idn) (tp_access uat) token) w4"
  using assms
  by (simp add: obo_execute_def run_result_after world_simps Let_def bearer_token_from_context_def)

text \<open>The silent refresh when everything it asks for succeeds.\<close>

lemma silent_refresh_ok:
  assumes "result (ob_identity p c) w = Inl e" and "err_is e = ErrUnauthorized"
    and "ob_refresher p = Some refresh" and "cx_bearer c = Some token"
    and "user_id_from_token token = user" and "user \<noteq> []"
    and "w1 = after (ob_identity p c) w" and "result (ts_get (ob_store p) user ''cognito'') w1 = Inr pair"
    and "w2 = after (ts_get (ob_store p) user ''cognito'') w1"
    and "result (refresh (tp_refresh pair)) w2 = Inr fresh"
    and "w3 = after (ts_save (ob_store p) user ''cognito'' fresh) (after (refresh (tp_refresh pair)) w2)"
    and "c' = with_bearer_token c (tp_access fresh)" and "result (ob_identity p c') w3 = Inr idn"
  shows "run (resolve_identity p c) w = (Inr (idn, c'), after (ob_identity p c') w3)"
proof -
  have "token \<noteq> []" using assms(5,6) by (auto simp: user_id_from_token_def jwt_claim_def)
  then show ?thesis
    using assms
    by (simp add: resolve_identity_def silent_refresh_def run_result_after world_simps Let_def
        bearer_token_from_context_def)
qed

subsection \<open>Properties of the refreshing transport\<close>

text \<open>
  C23: After a refresh the request is sent once more, with the new access token instead of the
  old one and otherwise as it was, and the new pair has been offered to the store first; what
  comes back the second time is handed on, whatever its status.
\<close>

theorem refreshed_request_is_resent:
  assumes "result (inner req) w = Inr resp" and "hr_status resp = 401"
    and "cx_obo (rq_ctx req) = Some \<lparr>oc_store = st, oc_user = u, oc_provider = p\<rparr>"
    and "result (ts_get st u p) (after (inner req) w) = Inr cur"
    and "w1 = after (ts_get st u p) (after (inner req) w)"
    and "result (refresh u p (tp_refresh cur)) w1 = Inr pair"
    and "w2 = after (ts_save st u p pair) (after (refresh u p (tp_refresh cur)) w1)"
  shows "\<exists>again. run (refresh_round_trip inner (Some refresh) req) w = run (inner again) w2
    \<and> map_of (rq_header again) = (map_of (rq_header req))(''Authorization'' \<mapsto> ''Bearer '' @ tp_access pair)
    \<and> rq_method again = rq_method req \<and> rq_url again = rq_url req \<and> rq_body again = rq_body req"
  using refresh_retry [where inner = inner and refresh = refresh, OF assms]
  by (intro exI [of _ "retry_request req (tp_access pair)"]) (simp add: retry_request_def)

definition demo_tokens :: "unit token_store" where
  "demo_tokens = \<lparr>ts_get = (\<lambda>u p. ret (Inr \<lparr>tp_access = ''old'', tp_refresh = ''r''\<rparr>)), ts_save = (\<lambda>u p t. ret None),
     ts_delete = (\<lambda>u p. ret None)\<rparr>"

definition demo_inner :: "unit round_tripper" where
  "demo_inner req = ret (Inr \<lparr>hr_status = (if map_of (rq_header req) ''Authorization'' = Some ''Bearer new'' then 200 else 401),
     hr_header = (\<lambda>_. []), hr_body = \<lparr>hb_bytes = ''{}'', hb_error = None, hb_no_body = False\<rparr>\<rparr>)"

definition demo_old_request :: "unit http_request" where
  "demo_old_request = \<lparr>rq_method = ''POST'', rq_url = ''http://github'', rq_header = [(''Authorization'', ''Bearer old'')],
     rq_body = Some ''{}'', rq_ctx = with_obo_context background demo_tokens ''ann'' ''github''\<rparr>"

theorem refreshed_request_is_resent_witness:
  "\<exists>again. run (refresh_round_trip demo_inner (Some (\<lambda>u p r. ret (Inr \<lparr>tp_access = ''new'', tp_refresh = r\<rparr>))) demo_old_request) ()
       = run (demo_inner again) ()
     \<and> map_of (rq_header again) ''Authorization'' = Some ''Bearer new''"
proof -
  have c: "cx_obo (rq_ctx demo_old_request) = Some \<lparr>oc_store = demo_tokens, oc_user = ''ann'', oc_provider = ''github''\<rparr>"
    by (simp add: demo_old_request_def with_obo_context_def)
  let ?refresh = "\<lambda>u p r. ret (Inr \<lparr>tp_access = ''new'', tp_refresh = r\<rparr>) :: (unit, goerr + token_pair) act"
  obtain resp where r: "result (demo_inner demo_old_request) () = Inr resp" "hr_status resp = 401"
    by (simp add: demo_inner_def demo_old_request_def)
  have g: "result (ts_get demo_tokens ''ann'' ''github'') v = Inr \<lparr>tp_access = ''old'', tp_refresh = ''r''\<rparr>" for v
    by (simp add: demo_tokens_def)
  have n: "result (?refresh u p' k) v = Inr \<lparr>tp_access = ''new'', tp_refresh = k\<rparr>" for u p' k v by simp
  show ?thesis
    using refreshed_request_is_resent [where inner = demo_inner and refresh = ?refresh, OF r c g refl n refl] by auto
qed

text \<open>
  Without a refresher a \<open>401\<close> with a body is handed on with it already closed, so the caller that
  reads it gets an error instead of the backend's answer.
\<close>

lemma unrefreshed_401_is_unreadable:
  assumes "result (inner req) w = Inr resp" and "hr_status resp = 401" and "\<not> hb_no_body (hr_body resp)"
  shows "\<exists>resp'. run (refresh_round_trip inner None req) w = (Inr resp', after (inner req) w)
    \<and> hr_status resp' = 401 \<and> (\<exists>t. read_all (hr_body resp') = Inl t)"
proof -
  have "hr_status (close_body resp) = 401" using assms(2) by (simp add: close_body_def)
  then show ?thesis
    using refresh_closed [where inner = inner, OF assms(1,2)] assms(3) by (intro exI [of _ "close_body resp"]) simp
qed

end
