(* ===== verification/Inbound.thy ===== *)
theory Inbound
  imports OboPipeline
begin

section \<open>Inbound transports (\<^verbatim>\<open>sse_transport.go\<close>, \<^verbatim>\<open>stdio_transport.go\<close>)\<close>

text \<open>
  The HTTP handler and the stdio loop around \<open>Handle\<close>: how credentials get from a request or the
  environment into the context, and what is written back.
\<close>

subsection \<open>HTTP\<close>

text \<open>
  A request as the handlers see it: header and query lookup as functions, the path value of
  the route pattern, and the body. A reply is status, headers and body; a redirect is kept as
  its target.
\<close>

record in_request =
  iq_method :: string
  iq_header :: "string \<Rightarrow> string"
  iq_path_value :: "string \<Rightarrow> string"
  iq_query :: "string \<Rightarrow> string"
  iq_body :: http_body

datatype http_reply =
    Reply (rp_status: int) (rp_header: "(string \<times> string) list") (rp_body: bytes)
  | RedirectTo string

definition http_error :: "string \<Rightarrow> int \<Rightarrow> http_reply" where
  "http_error text code =
     Reply code [(''Content-Type'', ''text/plain; charset=utf-8''), (''X-Content-Type-Options'', ''nosniff'')]
       (text @ [CHR 0x0A])"

definition json_reply :: "int \<Rightarrow> bytes \<Rightarrow> http_reply" where
  "json_reply code body = Reply code [(''Content-Type'', ''application/json'')] body"

definition inject_credentials_from_http :: "'w ctx \<Rightarrow> in_request \<Rightarrow> 'w ctx" where
  "inject_credentials_from_http c r =
     (let auth = iq_header r ''Authorization'';
          c1 = (if has_prefix auth ''Bearer '' then with_bearer_token c (trim_prefix auth ''Bearer '') else c);
          saml = iq_header r ''X-SAML-Assertion''
      in if saml \<noteq> [] then with_saml_assertion c1 saml else c1)"

definition body_limit :: nat where
  "body_limit = 1024 * 1024"

definition handle_mcp :: "golib \<Rightarrow> 'w broker \<Rightarrow> 'w ctx \<Rightarrow> in_request \<Rightarrow> ('w, http_reply) act" where
  "handle_mcp G b c r =
     (if iq_method r \<noteq> ''POST'' then ret (http_error ''method not allowed'' 405)
      else (case read_limited body_limit (iq_body r) of
          Inl t \<Rightarrow> ret (json_reply 400 (error_response GNil code_invalid_request ''could not read request body''))
        | Inr body \<Rightarrow>
            State_Monad.bind (handle G b (inject_credentials_from_http c r) body)
              (\<lambda>resp. ret (json_reply 200 resp))))"

type_synonym environ = "string \<Rightarrow> string"

definition listen_addr :: "environ \<Rightarrow> string" where
  "listen_addr env =
     (let port = (if env ''PORT'' = [] then ''8080'' else env ''PORT'') in
      if contains port '':'' then port else '':'' @ port)"

subsection \<open>Standard input and output\<close>

definition inject_credentials_from_env :: "environ \<Rightarrow> 'w ctx \<Rightarrow> 'w ctx" where
  "inject_credentials_from_env env c =
     (let token = env ''ABARIS_BEARER_TOKEN''; c1 = (if token \<noteq> [] then with_bearer_token c token else c);
          saml = env ''ABARIS_SAML_ASSERTION''
      in if saml \<noteq> [] then with_saml_assertion c1 saml else c1)"

text \<open>
  What the scanner and the context deliver before each turn of the loop: a line, the scanner's
  error (a line above 10 MiB among them), or the cancellation of the context; the list ends at
  end of file.
\<close>

datatype stdio_event = Line bytes | ScanError string | Cancelled string

text \<open>The encoder writes a raw message compacted and HTML-escaped, or nothing when it is not JSON.\<close>

definition encode_line :: "bytes \<Rightarrow> bytes option" where
  "encode_line resp = map_option (\<lambda>j. json_print j @ [CHR 0x0A]) (marshal_raw resp)"

fun stdio_loop :: "golib \<Rightarrow> 'w broker \<Rightarrow> 'w ctx \<Rightarrow> stdio_event list \<Rightarrow> ('w, bytes list \<times> goerr option) act" where
  "stdio_loop G b c [] = ret ([], None)"
| "stdio_loop G b c (Cancelled t # es) = ret ([], Some (plain_err t))"
| "stdio_loop G b c (ScanError t # es) = ret ([], Some (plain_err t))"
| "stdio_loop G b c (Line l # es) =
     (if trim_space l = [] then stdio_loop G b c es
      else State_Monad.bind (handle G b c l) (\<lambda>resp.
        State_Monad.bind (stdio_loop G b c es) (\<lambda>(out, e).
          ret ((case encode_line resp of None \<Rightarrow> out | Some x \<Rightarrow> x # out), e))))"

definition stdio_run :: "golib \<Rightarrow> 'w broker \<Rightarrow> environ \<Rightarrow> 'w ctx \<Rightarrow> stdio_event list
    \<Rightarrow> ('w, bytes list \<times> goerr option) act" where
  "stdio_run G b env c es = stdio_loop G b (inject_credentials_from_env env c) es"

subsection \<open>Credentials come from the request only\<close>

lemma inject_http_bearer:
  "cx_bearer (inject_credentials_from_http c r) =
     (if has_prefix (iq_header r ''Authorization'') ''Bearer ''
      then Some (trim_prefix (iq_header r ''Authorization'') ''Bearer '') else cx_bearer c)"
  by (simp add: inject_credentials_from_http_def Let_def ctx_defs)

lemma inject_http_saml:
  "cx_saml (inject_credentials_from_http c r) =
     (if iq_header r ''X-SAML-Assertion'' \<noteq> [] then Some (iq_header r ''X-SAML-Assertion'') else cx_saml c)"
  by (simp add: inject_credentials_from_http_def Let_def ctx_defs)

lemma inject_http_cred: "cx_cred (inject_credentials_from_http c r) = cx_cred c"
  by (simp add: inject_credentials_from_http_def Let_def ctx_defs)

subsection \<open>What the printer writes has no control characters\<close>

definition printable_text :: "string \<Rightarrow> bool" where
  "printable_text s \<longleftrightarrow> list_all (\<lambda>c. \<not> byte c < 0x20) s"

lemma printable_simps [simp]:
  "printable_text []" "printable_text (c # s) \<longleftrightarrow> \<not> byte c < 0x20 \<and> printable_text s"
  "printable_text (s @ t) \<longleftrightarrow> printable_text s \<and> printable_text t"
  by (simp_all add: printable_text_def)

lemma digits_no_ctl: "is_digit c \<Longrightarrow> \<not> byte c < 0x20"
  by (auto simp: is_digit_def)

lemma escape_no_ctl: "simple_escape e = Some y \<Longrightarrow> \<not> byte e < 0x20"
  by (auto simp: simple_escape_def split: if_splits)

lemma hex_no_ctl: "hex_val c = Some x \<Longrightarrow> \<not> byte c < 0x20"
  by (auto simp: hex_val_def is_digit_def split: if_splits)

lemma hex4_printable: "hex4 q = Some x \<Longrightarrow> printable_text q"
  using hex_no_ctl by (auto simp: hex4_def split: list.splits option.splits)

lemma scan_str_printable: "scan_str s = Some (b, t) \<Longrightarrow> printable_text b"
proof (induction s arbitrary: b t rule: scan_str.induct)
  case (1 s)
  show ?case
    using 1(4) 1(1-3) unfolding scan_str.simps [of s]
    by (auto split: list.splits if_splits simp: cons_fst_Some dest: escape_no_ctl hex4_printable)
qed

lemma raw_ok_printable: "raw_ok r \<Longrightarrow> printable_text r"
  using scan_str_printable by (auto simp: raw_ok_def)

lemma takeWhile_digits_printable: "printable_text (takeWhile is_digit s)"
  using digits_no_ctl by (auto simp: printable_text_def list_all_iff dest!: set_takeWhileD)

lemma scan_int_printable: "scan_int s = Some (l, r) \<Longrightarrow> printable_text l"
  by (auto simp: scan_int_def takeWhile_digits_printable simp del: takeWhile.simps split: list.splits if_splits)

lemma scan_frac_printable: "scan_frac s = Some (l, r) \<Longrightarrow> printable_text l"
  by (auto simp: scan_frac_def takeWhile_digits_printable split: list.splits if_splits)

lemma scan_sign_printable: "scan_sign {CHR ''-''} s = (l, r) \<Longrightarrow> printable_text l"
  "scan_sign {CHR ''+'', CHR ''-''} s = (l, r) \<Longrightarrow> printable_text l"
  by (auto simp: scan_sign_def split: list.splits if_splits)

lemma scan_exp_printable: "scan_exp s = Some (l, r) \<Longrightarrow> printable_text l"
  by (auto simp: scan_exp_def takeWhile_digits_printable scan_sign_printable(2)
      split: list.splits if_splits prod.splits)

lemma num_ok_printable: "num_ok l \<Longrightarrow> printable_text l"
  unfolding num_ok_def scan_num_def
  by (auto simp del: printable_simps(2)
      simp: scan_int_printable scan_frac_printable scan_exp_printable scan_sign_printable(1)
      split: prod.splits option.splits)

lemma commas_printable: "list_all printable_text xs \<Longrightarrow> printable_text (commas xs)"
  by (induction xs rule: commas.induct) simp_all

lemma json_print_printable: "json_ok j \<Longrightarrow> printable_text (json_print j)"
proof (induction j)
  case (JArr js)
  then show ?case by (auto simp: list_all_iff intro!: commas_printable)
next
  case (JObj ms)
  then show ?case
    by (fastforce simp: list_all_iff member_text_def raw_ok_printable intro!: commas_printable)
qed (simp_all add: num_ok_printable raw_ok_printable)
text \<open>Every output line of the loop is one JSON text, without a line break in it, and a line feed.\<close>

definition json_line :: "bytes \<Rightarrow> bool" where
  "json_line out \<longleftrightarrow>
     (\<exists>j. out = json_print j @ [CHR 0x0A] \<and> printable_text (json_print j) \<and> json_parse (json_print j) = Some j)"

lemma encode_line_json: "encode_line resp = Some out \<Longrightarrow> json_line out"
  using marshal_raw_ok json_parse_print json_print_printable
  by (fastforce simp: encode_line_def json_line_def)

lemma stdio_output_json: "list_all json_line (fst (result (stdio_loop G b c es) w))"
proof (induction G b c es arbitrary: w rule: stdio_loop.induct)
  case (4 G b c l es)
  then show ?case
    using encode_line_json by (auto simp: world_simps case_prod_beta split: option.splits)
qed simp_all

text \<open>A line of output for each request line whose response is JSON, in order.\<close>

definition request_lines :: "stdio_event list \<Rightarrow> bytes list" where
  "request_lines es =
     filter (\<lambda>l. trim_space l \<noteq> [])
       (concat (map (\<lambda>e. case e of Line l \<Rightarrow> [l] | _ \<Rightarrow> [])
         (takeWhile (\<lambda>e. case e of Line l \<Rightarrow> True | _ \<Rightarrow> False) es)))"

lemma stdio_output_count:
  "length (fst (result (stdio_loop G b c es) w)) \<le> length (request_lines es)"
proof (induction G b c es arbitrary: w rule: stdio_loop.induct)
  case (4 G b c l es)
  show ?case
  proof (cases "trim_space l = []")
    case True
    then show ?thesis using 4(1) by (simp add: request_lines_def)
  next
    case False
    let ?w = "after (handle G b c l) w"
    have "length (fst (result (stdio_loop G b c (Line l # es)) w)) \<le> Suc (length (fst (result (stdio_loop G b c es) ?w)))"
      using False by (auto simp: world_simps split: option.splits prod.splits)
    also have "\<dots> \<le> Suc (length (request_lines es))" using 4(2) [OF False] by simp
    also have "\<dots> = length (request_lines (Line l # es))" using False by (simp add: request_lines_def)
    finally show ?thesis .
  qed
qed (simp_all add: request_lines_def)

subsection \<open>A property of the stdio transport\<close>

text \<open>
  C37: What the stdio transport writes is JSON, line by line: each piece of output is one JSON
  text without any control character, so on one line, and a line feed; and there is at most one
  for each non-blank request line.
\<close>

theorem stdio_writes_json_lines:
  "list_all json_line (fst (result (stdio_run G b env c es) w))
   \<and> length (fst (result (stdio_run G b env c es) w)) \<le> length (request_lines es)"
  unfolding stdio_run_def by (intro conjI stdio_output_json stdio_output_count)

end
