(* ===== verification/TokenStores.thy ===== *)
theory TokenStores
  imports JsonRpc
begin

section \<open>Token stores (\<^verbatim>\<open>internal/auth/registry*.go\<close>)\<close>

text \<open>
  The BadgerDB and DynamoDB backends and the encrypting wrapper. The databases, KMS, AES-GCM
  and the random source are parameters; what the code relies on of them is stated in the
  locales \<open>kv_laws\<close>, \<open>table_laws\<close> and \<open>envelope\<close>. A nonce of the wrong length, on which
  \<open>gcm.Open\<close> panics, is not modelled: a blob this store wrote has the nonce it generated.
\<close>

subsection \<open>Token pairs as JSON\<close>

definition pair_json :: "token_pair \<Rightarrow> bytes" where
  "pair_json t =
     json_print (JObj [(''access_token'', JStr (quote (tp_access t))),
                       (''refresh_token'', JStr (quote (tp_refresh t)))])"

definition unmarshal_pair :: "bytes \<Rightarrow> token_pair option" where
  "unmarshal_pair data =
     (case (unmarshal_string ''access_token'' data, unmarshal_string ''refresh_token'' data) of
        (Some a, Some r) \<Rightarrow> Some \<lparr>tp_access = a, tp_refresh = r\<rparr>
      | _ \<Rightarrow> None)"

definition pair_ok :: "token_pair \<Rightarrow> bool" where
  "pair_ok t \<longleftrightarrow> utf8_valid (tp_access t) \<and> utf8_valid (tp_refresh t)"

lemma obj2_parse:
  assumes "plain_text k" and "plain_text l" and "k \<noteq> l"
  shows "json_parse (json_print (JObj [(k, JStr (quote a)), (l, JStr (quote b))]))
    = Some (JObj [(k, JStr (quote a)), (l, JStr (quote b))])"
  using assms by (intro json_parse_print) (simp_all add: plain_text_ok quote_ok max_nesting_def)

lemma token_names [simp]: "plain_text ''access_token''" "plain_text ''refresh_token''"
  by (simp_all add: plain_text_def html_char_def)

lemma fold_names [simp]:
  "fold_name ''access_token'' \<noteq> fold_name ''refresh_token''"
  "fold_name ''refresh_token'' \<noteq> fold_name ''access_token''"
  by (simp_all add: fold_name.simps ascii_upper_def)

lemma unmarshal_pair_json: "pair_ok t \<Longrightarrow> unmarshal_pair (pair_json t) = Some t"
  using obj2_parse [of "''access_token''" "''refresh_token''" "tp_access t" "tp_refresh t"]
  by (simp add: unmarshal_pair_def pair_json_def unmarshal_string_def get_string_def field_vals_Cons
      pair_ok_def plain_text_unquote del: json_print.simps)

subsection \<open>Padded base64, as \<open>encoding/json\<close> writes byte slices\<close>

definition std_char :: "char \<Rightarrow> char" where
  "std_char c = (if c = CHR ''-'' then CHR ''+'' else if c = CHR ''_'' then CHR ''/'' else c)"

definition url_char :: "char \<Rightarrow> char option" where
  "url_char c =
     (if c = CHR ''+'' then Some (CHR ''-'') else if c = CHR ''/'' then Some (CHR ''_'')
      else if c = CHR ''-'' \<or> c = CHR ''_'' then None else Some c)"

definition std_encode :: "bytes \<Rightarrow> string" where
  "std_encode s =
     (let t = map std_char (b64_encode s) in
      t @ replicate ((4 - length t mod 4) mod 4) (CHR ''=''))"

definition std_decode :: "string \<Rightarrow> bytes option" where
  "std_decode s =
     (let t = filter (\<lambda>c. c \<noteq> CHR 0x0A \<and> c \<noteq> CHR 0x0D) s;
          body = takeWhile (\<lambda>c. c \<noteq> CHR ''='') t; pad = dropWhile (\<lambda>c. c \<noteq> CHR ''='') t in
      if length t mod 4 \<noteq> 0 \<or> pad \<noteq> replicate (length pad) (CHR ''='') \<or> 2 < length pad then None
      else (case those (map url_char body) of None \<Rightarrow> None | Some u \<Rightarrow> b64_decode u))"

definition std_ok :: "char \<Rightarrow> bool" where
  "std_ok c \<longleftrightarrow> url_char (std_char c) = Some c \<and> std_char c \<noteq> CHR ''='' \<and> std_char c \<noteq> CHR 0x0A
     \<and> std_char c \<noteq> CHR 0x0D \<and> byte (std_char c) < 0x80"

lemma std_okI:
  assumes "c \<noteq> CHR ''+''" "c \<noteq> CHR ''/''" "c \<noteq> CHR ''=''" "c \<noteq> CHR 0x0A" "c \<noteq> CHR 0x0D" "byte c < 0x80"
  shows "std_ok c"
proof (cases "c = CHR ''-'' \<or> c = CHR ''_''")
  case True
  then show ?thesis by (rule disjE) (simp_all add: std_ok_def url_char_def std_char_def)
next
  case False
  then show ?thesis using assms by (simp add: std_ok_def url_char_def std_char_def)
qed

lemma b64_char_std: "n < 64 \<Longrightarrow> std_ok (b64_char n)"
  by (rule std_okI) (simp_all add: b64_char_neq b64_char_ascii, (rule b64_char_other; simp add: b64_val_def)+)

lemma b64_encode_std: "c \<in> set (b64_encode s) \<Longrightarrow> std_ok c"
  by (drule b64_alphabet) (auto intro: b64_char_std)

lemma b64_sextets_length: "length (b64_sextets as) mod 4 \<noteq> 1"
  by (induction as rule: b64_sextets.induct) auto

lemma pad_split:
  assumes "\<And>c. c \<in> set t \<Longrightarrow> c \<noteq> e"
  shows "takeWhile (\<lambda>c. c \<noteq> e) (t @ replicate k e) = t"
    and "dropWhile (\<lambda>c. c \<noteq> e) (t @ replicate k e) = replicate k e"
proof -
  have "replicate k e = [] \<or> \<not> (hd (replicate k e) \<noteq> e)" by (cases k) auto
  then show "takeWhile (\<lambda>c. c \<noteq> e) (t @ replicate k e) = t"
    and "dropWhile (\<lambda>c. c \<noteq> e) (t @ replicate k e) = replicate k e"
    using takeWhile_dropWhile_stop [of t "\<lambda>c. c \<noteq> e" "replicate k e"] assms by blast+
qed

lemma pad_length:
  fixes m :: nat
  shows "(m + (4 - m mod 4) mod 4) mod 4 = 0" and "m mod 4 \<noteq> 1 \<Longrightarrow> (4 - m mod 4) mod 4 \<le> 2"
proof -
  have m: "(m + k) mod 4 = (m mod 4 + k) mod 4" for k by (simp add: mod_add_left_eq)
  consider "m mod 4 = 0" | "m mod 4 = 1" | "m mod 4 = 2" | "m mod 4 = 3"
    using mod_less_divisor [of 4 m] by linarith
  note cs = this
  show "(m + (4 - m mod 4) mod 4) mod 4 = 0" unfolding m using cs by cases simp_all
  show "(4 - m mod 4) mod 4 \<le> 2" if "m mod 4 \<noteq> 1" using cs that by cases simp_all
qed

lemma std_decode_encode [simp]: "std_decode (std_encode s) = Some s"
proof -
  define u where "u = map std_char (b64_encode s)"
  define k where "k = (4 - length u mod 4) mod 4"
  have len: "length u mod 4 \<noteq> 1" using b64_sextets_length by (simp add: u_def b64_encode_def)
  have ok: "c \<noteq> CHR ''='' \<and> c \<noteq> CHR 0x0A \<and> c \<noteq> CHR 0x0D" if "c \<in> set u" for c
    using that b64_encode_std by (auto simp: std_ok_def u_def)
  have enc: "std_encode s = u @ replicate k (CHR ''='')" by (simp add: std_encode_def u_def k_def Let_def)
  have "filter (\<lambda>c. c \<noteq> CHR 0x0A \<and> c \<noteq> CHR 0x0D) (std_encode s) = std_encode s"
    using ok unfolding enc by (intro filter_True) auto
  moreover have "takeWhile (\<lambda>c. c \<noteq> CHR ''='') (std_encode s) = u"
      "dropWhile (\<lambda>c. c \<noteq> CHR ''='') (std_encode s) = replicate k (CHR ''='')"
    unfolding enc using ok by (intro pad_split; blast)+
  moreover have "length (std_encode s) mod 4 = 0" "k \<le> 2"
    using pad_length(1) [of "length u"] pad_length(2) [OF len] by (simp_all add: enc k_def)
  moreover have "those (map url_char u) = Some (b64_encode s)"
    using b64_encode_std by (auto simp: those_Some_iff std_ok_def u_def)
  ultimately show ?thesis by (simp add: std_decode_def Let_def)
qed

lemma std_encode_ascii: "c \<in> set (std_encode s) \<Longrightarrow> byte c < 0x80"
  using b64_encode_std by (auto simp: std_encode_def Let_def std_ok_def)

lemma std_encode_valid [simp]: "utf8_valid (std_encode s)"
  by (rule utf8_valid_all_ascii) (rule std_encode_ascii)

subsection \<open>BadgerDB\<close>

text \<open>What a transaction answers; \<open>UCommit\<close> is an error of the commit itself.\<close>

datatype view_outcome = Found bytes | NotFound | GetFailed string | ValueFailed string
datatype update_outcome = Done | OpFailed string | CommitFailed string

record 'w badger =
  bg_get :: "bytes \<Rightarrow> ('w, view_outcome) act"
  bg_set :: "bytes \<Rightarrow> bytes \<Rightarrow> ('w, update_outcome) act"
  bg_delete :: "bytes \<Rightarrow> ('w, update_outcome) act"
  bg_close :: "('w, string option) act"

definition badger_key :: "string \<Rightarrow> string \<Rightarrow> bytes" where
  "badger_key user provider = user @ '':'' @ provider"

definition badger_get :: "golib \<Rightarrow> 'w badger \<Rightarrow> string \<Rightarrow> string \<Rightarrow> ('w, goerr + token_pair) act" where
  "badger_get G B user provider =
     State_Monad.bind (bg_get B (badger_key user provider)) (\<lambda>r. ret (case r of
        NotFound \<Rightarrow> Inl (wrap_err ErrNotConnected (''user='' @ user @ '' provider='' @ provider))
      | GetFailed t \<Rightarrow> Inl (wrap_err ErrServiceUnavailable (''badger Get: '' @ t))
      | ValueFailed t \<Rightarrow> Inl (plain_err t)
      | Found b \<Rightarrow> (case unmarshal_pair b of None \<Rightarrow> Inl (plain_err (gl_json_err G b)) | Some t \<Rightarrow> Inr t)))"

definition badger_save :: "'w badger \<Rightarrow> string \<Rightarrow> string \<Rightarrow> token_pair \<Rightarrow> ('w, goerr option) act" where
  "badger_save B user provider pair =
     State_Monad.bind (bg_set B (badger_key user provider) (pair_json pair)) (\<lambda>r. ret (case r of
        Done \<Rightarrow> None
      | OpFailed t \<Rightarrow> Some (wrap_err ErrServiceUnavailable (''badger Set: '' @ t))
      | CommitFailed t \<Rightarrow> Some (plain_err t)))"

definition badger_delete :: "'w badger \<Rightarrow> string \<Rightarrow> string \<Rightarrow> ('w, goerr option) act" where
  "badger_delete B user provider =
     State_Monad.bind (bg_delete B (badger_key user provider)) (\<lambda>r. ret (case r of
        Done \<Rightarrow> None
      | OpFailed t \<Rightarrow> Some (wrap_err ErrServiceUnavailable (''badger Delete: '' @ t))
      | CommitFailed t \<Rightarrow> Some (plain_err t)))"

definition badger_close :: "'w badger \<Rightarrow> ('w, goerr option) act" where
  "badger_close B = State_Monad.bind (bg_close B) (\<lambda>r. ret (map_option plain_err r))"

definition badger_store :: "golib \<Rightarrow> 'w badger \<Rightarrow> 'w token_store" where
  "badger_store G B =
     \<lparr>ts_get = badger_get G B, ts_save = badger_save B, ts_delete = badger_delete B\<rparr>"

text \<open>\<open>badger.Open\<close> opens or creates the database in a directory, or fails with a text.\<close>

definition new_badger_token_store :: "golib \<Rightarrow> (string \<Rightarrow> string + 'w badger) \<Rightarrow> string \<Rightarrow> goerr + 'w token_store" where
  "new_badger_token_store G open_db dir =
     (case open_db dir of
        Inl t \<Rightarrow> Inl (plain_err (''badger: open '' @ dir @ '': '' @ t))
      | Inr db \<Rightarrow> Inr (badger_store G db))"

lemma badger_key_inj:
  assumes "CHR '':'' \<notin> set u" and "CHR '':'' \<notin> set u'"
  shows "badger_key u p = badger_key u' p' \<longleftrightarrow> u = u' \<and> p = p'"
proof
  assume eq: "badger_key u p = badger_key u' p'"
  have "takeWhile (\<lambda>c. c \<noteq> CHR '':'') (badger_key u p) = u" "takeWhile (\<lambda>c. c \<noteq> CHR '':'') (badger_key u' p') = u'"
    using assms by (simp_all add: badger_key_def)
  then have "u = u'" using eq by simp
  then show "u = u' \<and> p = p'" using eq by (simp add: badger_key_def)
qed simp

subsection \<open>DynamoDB\<close>

datatype attribute = AttrS string | AttrOther

type_synonym item = "(string \<times> attribute) list"

record 'w dynamo =
  dy_get :: "string \<Rightarrow> item \<Rightarrow> ('w, string + item option) act"
  dy_put :: "string \<Rightarrow> item \<Rightarrow> ('w, string option) act"
  dy_delete :: "string \<Rightarrow> item \<Rightarrow> ('w, string option) act"

definition item_key :: "string \<Rightarrow> string \<Rightarrow> item" where
  "item_key user provider = [(''user_id'', AttrS user), (''provider'', AttrS provider)]"

definition item_pair :: "golib \<Rightarrow> item \<Rightarrow> goerr + token_pair" where
  "item_pair G it =
     (case map_of it ''token_pair'' of
        None \<Rightarrow> Inl (wrap_err ErrNotConnected ''missing token_pair attribute'')
      | Some AttrOther \<Rightarrow> Inl (plain_err ''token_store: unexpected attribute type for token_pair'')
      | Some (AttrS v) \<Rightarrow>
          (case unmarshal_pair v of
             None \<Rightarrow> Inl (plain_err (''token_store: unmarshal token pair: '' @ gl_json_err G v))
           | Some t \<Rightarrow> Inr t))"

definition dynamo_get :: "golib \<Rightarrow> 'w dynamo \<Rightarrow> string \<Rightarrow> string \<Rightarrow> string \<Rightarrow> ('w, goerr + token_pair) act" where
  "dynamo_get G D table user provider =
     State_Monad.bind (dy_get D table (item_key user provider)) (\<lambda>r. ret (case r of
        Inl t \<Rightarrow> Inl (wrap_err ErrServiceUnavailable (''dynamodb GetItem: '' @ t))
      | Inr None \<Rightarrow> Inl (wrap_err ErrNotConnected (''user='' @ user @ '' provider='' @ provider))
      | Inr (Some it) \<Rightarrow> item_pair G it))"

definition dynamo_save :: "'w dynamo \<Rightarrow> string \<Rightarrow> string \<Rightarrow> string \<Rightarrow> token_pair \<Rightarrow> ('w, goerr option) act" where
  "dynamo_save D table user provider pair =
     State_Monad.bind
       (dy_put D table (item_key user provider @ [(''token_pair'', AttrS (pair_json pair))]))
       (\<lambda>r. ret (map_option (\<lambda>t. wrap_err ErrServiceUnavailable (''dynamodb PutItem: '' @ t)) r))"

definition dynamo_delete :: "'w dynamo \<Rightarrow> string \<Rightarrow> string \<Rightarrow> string \<Rightarrow> ('w, goerr option) act" where
  "dynamo_delete D table user provider =
     State_Monad.bind (dy_delete D table (item_key user provider))
       (\<lambda>r. ret (map_option (\<lambda>t. wrap_err ErrServiceUnavailable (''dynamodb DeleteItem: '' @ t)) r))"

definition dynamo_store :: "golib \<Rightarrow> 'w dynamo \<Rightarrow> string \<Rightarrow> 'w token_store" where
  "dynamo_store G D table =
     \<lparr>ts_get = dynamo_get G D table, ts_save = dynamo_save D table, ts_delete = dynamo_delete D table\<rparr>"

subsection \<open>The encrypting wrapper\<close>

text \<open>
  KMS answers a new data key (plaintext and encrypted) or decrypts one; the cipher's
  constructors, sealing and opening are pure; the nonce comes from the random source.
\<close>

record 'w kms =
  km_generate :: "string \<Rightarrow> ('w, string + (bytes \<times> bytes)) act"
  km_decrypt :: "string \<Rightarrow> bytes \<Rightarrow> ('w, string + bytes) act"

record aead =
  ae_cipher_error :: "bytes \<Rightarrow> string option"
  ae_gcm_error :: "bytes \<Rightarrow> string option"
  ae_seal :: "bytes \<Rightarrow> bytes \<Rightarrow> bytes \<Rightarrow> bytes"
  ae_open :: "bytes \<Rightarrow> bytes \<Rightarrow> bytes \<Rightarrow> string + bytes"

record 'w crypto =
  cr_kms :: "'w kms"
  cr_aead :: aead
  cr_nonce :: "('w, string + bytes) act"

record encrypted_blob =
  eb_key :: bytes
  eb_text :: bytes
  eb_nonce :: bytes

definition blob_json :: "encrypted_blob \<Rightarrow> bytes" where
  "blob_json b =
     json_print (JObj [(''edk'', JStr (quote (std_encode (eb_key b)))),
                       (''ct'', JStr (quote (std_encode (eb_text b)))),
                       (''n'', JStr (quote (std_encode (eb_nonce b))))])"

text \<open>
  A field of type \<open>[]byte\<close>: base64 text, null, or an array of numbers below 256. A later member
  replaces an earlier one.
\<close>

definition byte_elem :: "json \<Rightarrow> char option" where
  "byte_elem j =
     (case j of
        JNum l \<Rightarrow> if l \<noteq> [] \<and> list_all is_digit l \<and> fold (\<lambda>c n. n * 10 + (byte c - 48)) l 0 < (256 :: nat)
                  then Some (char_of (fold (\<lambda>c n. n * 10 + (byte c - 48)) l (0 :: nat))) else None
      | JNull \<Rightarrow> Some (CHR 0x00)
      | _ \<Rightarrow> None)"

fun bytes_field :: "json list \<Rightarrow> bytes \<Rightarrow> bytes option" where
  "bytes_field [] acc = Some acc"
| "bytes_field (JStr r # js) acc = (case std_decode (unquote r) of None \<Rightarrow> None | Some b \<Rightarrow> bytes_field js b)"
| "bytes_field (JNull # js) acc = bytes_field js []"
| "bytes_field (JArr es # js) acc = (case those (map byte_elem es) of None \<Rightarrow> None | Some b \<Rightarrow> bytes_field js b)"
| "bytes_field (_ # js) acc = None"

definition unmarshal_blob :: "bytes \<Rightarrow> encrypted_blob option" where
  "unmarshal_blob data =
     (case json_parse data of
        Some (JObj ms) \<Rightarrow>
          (case (bytes_field (field_vals ''edk'' ms) [], bytes_field (field_vals ''ct'' ms) [],
                 bytes_field (field_vals ''n'' ms) []) of
             (Some k, Some c, Some n) \<Rightarrow> Some \<lparr>eb_key = k, eb_text = c, eb_nonce = n\<rparr>
           | _ \<Rightarrow> None)
      | Some JNull \<Rightarrow> Some \<lparr>eb_key = [], eb_text = [], eb_nonce = []\<rparr>
      | _ \<Rightarrow> None)"

definition seal_pair :: "'w crypto \<Rightarrow> bytes \<Rightarrow> bytes \<Rightarrow> token_pair \<Rightarrow> ('w, goerr + encrypted_blob) act" where
  "seal_pair C key edk pair =
     (case ae_cipher_error (cr_aead C) key of
        Some t \<Rightarrow> ret (Inl (plain_err (''token_store: create cipher: '' @ t)))
      | None \<Rightarrow> (case ae_gcm_error (cr_aead C) key of
          Some t \<Rightarrow> ret (Inl (plain_err (''token_store: create GCM: '' @ t)))
        | None \<Rightarrow> State_Monad.bind (cr_nonce C) (\<lambda>r. ret (case r of
            Inl t \<Rightarrow> Inl (plain_err (''token_store: generate nonce: '' @ t))
          | Inr nonce \<Rightarrow>
              Inr \<lparr>eb_key = edk, eb_text = ae_seal (cr_aead C) key nonce (pair_json pair), eb_nonce = nonce\<rparr>))))"

definition encrypted_save :: "'w crypto \<Rightarrow> string \<Rightarrow> 'w token_store \<Rightarrow> string \<Rightarrow> string \<Rightarrow> token_pair
    \<Rightarrow> ('w, goerr option) act" where
  "encrypted_save C arn backend user provider pair =
     State_Monad.bind (km_generate (cr_kms C) arn) (\<lambda>r. case r of
        Inl t \<Rightarrow> ret (Some (wrap_err ErrServiceUnavailable (''kms GenerateDataKey: '' @ t)))
      | Inr (key, edk) \<Rightarrow> State_Monad.bind (seal_pair C key edk pair) (\<lambda>r. case r of
          Inl e \<Rightarrow> ret (Some e)
        | Inr blob \<Rightarrow> State_Monad.bind
            (ts_save backend user provider \<lparr>tp_access = blob_json blob, tp_refresh = []\<rparr>)
            (\<lambda>r. ret (map_option (prefix_err ''token_store: backend save: '') r))))"

definition open_pair :: "golib \<Rightarrow> 'w crypto \<Rightarrow> bytes \<Rightarrow> encrypted_blob \<Rightarrow> goerr + token_pair" where
  "open_pair G C key blob =
     (case ae_cipher_error (cr_aead C) key of
        Some t \<Rightarrow> Inl (plain_err (''token_store: create cipher: '' @ t))
      | None \<Rightarrow> (case ae_gcm_error (cr_aead C) key of
          Some t \<Rightarrow> Inl (plain_err (''token_store: create GCM: '' @ t))
        | None \<Rightarrow> (case ae_open (cr_aead C) key (eb_nonce blob) (eb_text blob) of
            Inl t \<Rightarrow> Inl (plain_err (''token_store: decrypt: '' @ t))
          | Inr plain \<Rightarrow> (case unmarshal_pair plain of
              None \<Rightarrow> Inl (plain_err (''token_store: unmarshal token pair: '' @ gl_json_err G plain))
            | Some t \<Rightarrow> Inr t))))"

definition encrypted_get :: "golib \<Rightarrow> 'w crypto \<Rightarrow> string \<Rightarrow> 'w token_store \<Rightarrow> string \<Rightarrow> string
    \<Rightarrow> ('w, goerr + token_pair) act" where
  "encrypted_get G C arn backend user provider =
     State_Monad.bind (ts_get backend user provider) (\<lambda>r. case r of
        Inl e \<Rightarrow> ret (Inl e)
      | Inr syn \<Rightarrow> (case unmarshal_blob (tp_access syn) of
          None \<Rightarrow> ret (Inl (plain_err (''token_store: unmarshal blob: '' @ gl_json_err G (tp_access syn))))
        | Some blob \<Rightarrow> State_Monad.bind (km_decrypt (cr_kms C) arn (eb_key blob)) (\<lambda>r. ret (case r of
            Inl t \<Rightarrow> Inl (wrap_err ErrServiceUnavailable (''kms Decrypt: '' @ t))
          | Inr key \<Rightarrow> open_pair G C key blob))))"

definition encrypted_delete :: "'w token_store \<Rightarrow> string \<Rightarrow> string \<Rightarrow> ('w, goerr option) act" where
  "encrypted_delete backend user provider =
     State_Monad.bind (ts_delete backend user provider)
       (\<lambda>r. ret (map_option (prefix_err ''token_store: backend delete: '') r))"

definition encrypted_store :: "golib \<Rightarrow> 'w crypto \<Rightarrow> string \<Rightarrow> 'w token_store \<Rightarrow> 'w token_store" where
  "encrypted_store G C arn backend =
     \<lparr>ts_get = encrypted_get G C arn backend, ts_save = encrypted_save C arn backend,
      ts_delete = encrypted_delete backend\<rparr>"

lemma blob_names [simp]: "plain_text ''edk''" "plain_text ''ct''" "plain_text ''n''"
  by (simp_all add: plain_text_def html_char_def)

lemma fold_blob_names [simp]:
  "fold_name ''edk'' \<noteq> fold_name ''ct''" "fold_name ''edk'' \<noteq> fold_name ''n''"
  "fold_name ''ct'' \<noteq> fold_name ''edk''" "fold_name ''ct'' \<noteq> fold_name ''n''"
  "fold_name ''n'' \<noteq> fold_name ''edk''" "fold_name ''n'' \<noteq> fold_name ''ct''"
  by (simp_all add: fold_name.simps ascii_upper_def)

lemma unmarshal_blob_json: "unmarshal_blob (blob_json b) = Some b"
proof -
  let ?j = "JObj [(''edk'', JStr (quote (std_encode (eb_key b)))),
      (''ct'', JStr (quote (std_encode (eb_text b)))), (''n'', JStr (quote (std_encode (eb_nonce b))))]"
  have "json_parse (json_print ?j) = Some ?j"
    by (rule json_parse_print) (simp_all add: plain_text_ok quote_ok max_nesting_def)
  then show ?thesis
    by (simp add: unmarshal_blob_def blob_json_def field_vals_Cons plain_text_unquote del: json_print.simps)
qed

lemma blob_json_valid: "utf8_valid (blob_json b)"
proof (rule utf8_valid_all_ascii)
  have q: "byte c < 0x80" if "c \<in> set (quote s)" "\<And>d. d \<in> set s \<Longrightarrow> byte d < 0x80" for c s
    using that
  proof (induction s)
    case (Cons d s)
    then have d: "byte d < 0x80" by simp
    then have "quote (d # s) = quote_ascii d @ quote s" by (subst quote.simps) simp
    moreover have "byte c < 0x80" if "c \<in> set (quote_ascii d)"
      using that d less_mult_imp_div_less [of "byte d" 128 16]
      by (auto simp: quote_ascii_def u_escape_def hex_digit_def split: if_splits)
    ultimately show ?case using Cons by auto
  qed (simp add: quote.simps)
  fix c
  assume "c \<in> set (blob_json b)"
  then show "byte c < 0x80"
    by (auto simp: blob_json_def member_text_def dest!: q [OF _ std_encode_ascii])
qed

subsection \<open>The contract of a token store\<close>

text \<open>
  \<open>view\<close> is what is stored, per user and provider. A get that answers a pair answers the
  stored one, and answers \<open>ErrNotConnected\<close> only when there is none; a save that succeeds
  stores the pair and a delete that succeeds removes it; whatever happens, nothing is changed
  under another key. Which user ids are separated, and which pairs survive, is the store's own.
\<close>

locale store_laws =
  fixes S :: "'w token_store" and view :: "'w \<Rightarrow> string \<times> string \<Rightarrow> token_pair option"
    and key_ok :: "string \<Rightarrow> bool" and ok :: "token_pair \<Rightarrow> bool"
  assumes get_found: "result (ts_get S u p) w = Inr t \<Longrightarrow> view w (u, p) = Some t"
    and get_absent: "result (ts_get S u p) w = Inl e \<Longrightarrow> err_is e = ErrNotConnected \<Longrightarrow> view w (u, p) = None"
    and get_view: "view (after (ts_get S u p) w) = view w"
    and save_view: "key_ok u \<Longrightarrow> key_ok u' \<Longrightarrow> ok t \<Longrightarrow> result (ts_save S u p t) w = None \<Longrightarrow>
      view (after (ts_save S u p t) w) (u', p') = ((view w)((u, p) \<mapsto> t)) (u', p')"
    and save_other: "key_ok u \<Longrightarrow> key_ok u' \<Longrightarrow> (u', p') \<noteq> (u, p) \<Longrightarrow>
      view (after (ts_save S u p t) w) (u', p') = view w (u', p')"
    and delete_view: "key_ok u \<Longrightarrow> key_ok u' \<Longrightarrow> result (ts_delete S u p) w = None \<Longrightarrow>
      view (after (ts_delete S u p) w) (u', p') = ((view w)((u, p) := None)) (u', p')"
    and delete_other: "key_ok u \<Longrightarrow> key_ok u' \<Longrightarrow> (u', p') \<noteq> (u, p) \<Longrightarrow>
      view (after (ts_delete S u p) w) (u', p') = view w (u', p')"
begin

lemma get_after_save:
  assumes "key_ok u" and "ok t" and "result (ts_save S u p t) w = None"
  shows "result (ts_get S u p) (after (ts_save S u p t) w) = Inr t
    \<or> (\<exists>e. result (ts_get S u p) (after (ts_save S u p t) w) = Inl e \<and> err_is e \<noteq> ErrNotConnected)"
proof -
  let ?w = "after (ts_save S u p t) w"
  have v: "view ?w (u, p) = Some t" using save_view [OF assms(1,1,2,3), of p] by simp
  show ?thesis
  proof (cases "result (ts_get S u p) ?w")
    case (Inl e)
    then show ?thesis using get_absent [of u p ?w e] v by auto
  next
    case (Inr t')
    then show ?thesis using get_found [of u p ?w t'] v by simp
  qed
qed

lemma get_after_delete:
  assumes "key_ok u" and "result (ts_delete S u p) w = None"
  shows "\<exists>e. result (ts_get S u p) (after (ts_delete S u p) w) = Inl e"
proof -
  let ?w = "after (ts_delete S u p) w"
  have v: "view ?w (u, p) = None" using delete_view [OF assms(1,1,2), of p] by simp
  then show ?thesis using get_found [of u p ?w] by (cases "result (ts_get S u p) ?w") auto
qed

lemma get_isolated:
  assumes "key_ok u" and "key_ok u'" and "(u', p') \<noteq> (u, p)"
    and "result (ts_get S u' p') w = Inr t" and "result (ts_get S u' p') (after (ts_save S u p s) w) = Inr t'"
  shows "t' = t"
  using get_found [OF assms(4)] get_found [OF assms(5)] save_other [OF assms(1,2,3), of s w] by simp

end

subsection \<open>The backends keep it\<close>

text \<open>BadgerDB as documented: a transaction that commits has its effect, one that fails has none.\<close>

locale kv_laws =
  fixes B :: "'w badger" and content :: "'w \<Rightarrow> bytes \<Rightarrow> bytes option"
  assumes kv_get: "content (after (bg_get B k) w) = content w"
    and kv_found: "result (bg_get B k) w = Found v \<Longrightarrow> content w k = Some v"
    and kv_absent: "result (bg_get B k) w = NotFound \<Longrightarrow> content w k = None"
    and kv_set: "content (after (bg_set B k v) w) =
      (if result (bg_set B k v) w = Done then (content w)(k \<mapsto> v) else content w)"
    and kv_delete: "content (after (bg_delete B k) w) =
      (if result (bg_delete B k) w = Done then (content w)(k := None) else content w)"

definition kv_view :: "('w \<Rightarrow> bytes \<Rightarrow> bytes option) \<Rightarrow> 'w \<Rightarrow> string \<times> string \<Rightarrow> token_pair option" where
  "kv_view content w k = Option.bind (content w (badger_key (fst k) (snd k))) unmarshal_pair"

definition no_colon :: "string \<Rightarrow> bool" where
  "no_colon u \<longleftrightarrow> CHR '':'' \<notin> set u"

lemmas badger_defs = badger_store_def badger_get_def badger_save_def badger_delete_def

sublocale kv_laws \<subseteq> badger: store_laws "badger_store G B" "kv_view content" no_colon pair_ok for G
proof
  fix u p w t
  assume "result (ts_get (badger_store G B) u p) w = Inr t"
  then show "kv_view content w (u, p) = Some t"
    using kv_found [of "badger_key u p" w]
    by (auto simp: badger_defs world_simps kv_view_def split: view_outcome.splits option.splits)
next
  fix u p w e
  assume "result (ts_get (badger_store G B) u p) w = Inl e" "err_is e = ErrNotConnected"
  then show "kv_view content w (u, p) = None"
    using kv_absent [of "badger_key u p" w]
    by (auto simp: badger_defs world_simps kv_view_def split: view_outcome.splits option.splits)
next
  fix u p w
  show "kv_view content (after (ts_get (badger_store G B) u p) w) = kv_view content w"
    by (simp add: badger_defs world_simps kv_view_def kv_get fun_eq_iff)
next
  fix u u' t p w p'
  assume "no_colon u" "no_colon u'" "pair_ok t" "result (ts_save (badger_store G B) u p t) w = None"
  then show "kv_view content (after (ts_save (badger_store G B) u p t) w) (u', p')
      = ((kv_view content w)((u, p) \<mapsto> t)) (u', p')"
    using badger_key_inj [of u' u p' p]
    by (auto simp: badger_defs world_simps kv_view_def kv_set unmarshal_pair_json no_colon_def
        split: update_outcome.splits)
next
  fix u u' p' p :: string and t w
  assume "no_colon u" "no_colon u'" "(u', p') \<noteq> (u, p)"
  then show "kv_view content (after (ts_save (badger_store G B) u p t) w) (u', p') = kv_view content w (u', p')"
    using badger_key_inj [of u' u p' p]
    by (auto simp: badger_defs world_simps kv_view_def kv_set no_colon_def)
next
  fix u u' p w p'
  assume "no_colon u" "no_colon u'" "result (ts_delete (badger_store G B) u p) w = None"
  then show "kv_view content (after (ts_delete (badger_store G B) u p) w) (u', p')
      = ((kv_view content w)((u, p) := None)) (u', p')"
    using badger_key_inj [of u' u p' p]
    by (auto simp: badger_defs world_simps kv_view_def kv_delete no_colon_def split: update_outcome.splits)
next
  fix u u' p' p :: string and w
  assume "no_colon u" "no_colon u'" "(u', p') \<noteq> (u, p)"
  then show "kv_view content (after (ts_delete (badger_store G B) u p) w) (u', p') = kv_view content w (u', p')"
    using badger_key_inj [of u' u p' p]
    by (auto simp: badger_defs world_simps kv_view_def kv_delete no_colon_def)
qed

text \<open>DynamoDB as documented: an item is stored under its two key attributes.\<close>

locale table_laws =
  fixes D :: "'w dynamo" and table :: string and items :: "'w \<Rightarrow> string \<times> string \<Rightarrow> item option"
  assumes tb_get: "items (after (dy_get D table (item_key u p)) w) = items w"
    and tb_found: "result (dy_get D table (item_key u p)) w = Inr r \<Longrightarrow> items w (u, p) = r"
    and tb_put: "items (after (dy_put D table (item_key u p @ extra)) w) =
      (if result (dy_put D table (item_key u p @ extra)) w = None
       then (items w)((u, p) \<mapsto> item_key u p @ extra) else items w)"
    and tb_delete: "items (after (dy_delete D table (item_key u p)) w) =
      (if result (dy_delete D table (item_key u p)) w = None then (items w)((u, p) := None) else items w)"

definition item_token :: "item \<Rightarrow> token_pair option" where
  "item_token it =
     (case map_of it ''token_pair'' of Some (AttrS v) \<Rightarrow> unmarshal_pair v | _ \<Rightarrow> None)"

definition table_view :: "('w \<Rightarrow> string \<times> string \<Rightarrow> item option) \<Rightarrow> 'w \<Rightarrow> string \<times> string \<Rightarrow> token_pair option" where
  "table_view items w k = Option.bind (items w k) item_token"

lemma item_pair_Inr: "item_pair G it = Inr t \<Longrightarrow> item_token it = Some t"
  by (auto simp: item_pair_def item_token_def split: option.splits attribute.splits)

lemma item_pair_absent: "item_pair G it = Inl e \<Longrightarrow> err_is e = ErrNotConnected \<Longrightarrow> item_token it = None"
  by (auto simp: item_pair_def item_token_def split: option.splits attribute.splits)

lemma item_token_saved:
  "pair_ok t \<Longrightarrow> item_token (item_key u p @ [(''token_pair'', AttrS (pair_json t))]) = Some t"
  by (simp add: item_token_def item_key_def unmarshal_pair_json)

definition any_key :: "string \<Rightarrow> bool" where
  "any_key u \<longleftrightarrow> True"

lemmas dynamo_defs = dynamo_store_def dynamo_get_def dynamo_save_def dynamo_delete_def

sublocale table_laws \<subseteq> dynamo: store_laws "dynamo_store G D table" "table_view items" any_key pair_ok for G
proof
  fix u p w t
  assume "result (ts_get (dynamo_store G D table) u p) w = Inr t"
  then show "table_view items w (u, p) = Some t"
    using tb_found [of u p w]
    by (auto simp: dynamo_defs world_simps table_view_def dest: item_pair_Inr split: sum.splits option.splits)
next
  fix u p w e
  assume "result (ts_get (dynamo_store G D table) u p) w = Inl e" "err_is e = ErrNotConnected"
  then show "table_view items w (u, p) = None"
    using tb_found [of u p w]
    by (auto simp: dynamo_defs world_simps table_view_def dest: item_pair_absent split: sum.splits option.splits)
next
  fix u p w
  show "table_view items (after (ts_get (dynamo_store G D table) u p) w) = table_view items w"
    by (simp add: dynamo_defs world_simps table_view_def tb_get fun_eq_iff)
next
  fix u u' t p w p'
  assume "pair_ok t" "result (ts_save (dynamo_store G D table) u p t) w = None"
  then show "table_view items (after (ts_save (dynamo_store G D table) u p t) w) (u', p')
      = ((table_view items w)((u, p) \<mapsto> t)) (u', p')"
    by (auto simp: dynamo_defs world_simps table_view_def tb_put item_token_saved)
next
  fix u u' p' p :: string and t w
  assume "(u', p') \<noteq> (u, p)"
  then show "table_view items (after (ts_save (dynamo_store G D table) u p t) w) (u', p') = table_view items w (u', p')"
    by (auto simp: dynamo_defs world_simps table_view_def tb_put)
next
  fix u u' p w p'
  assume "result (ts_delete (dynamo_store G D table) u p) w = None"
  then show "table_view items (after (ts_delete (dynamo_store G D table) u p) w) (u', p')
      = ((table_view items w)((u, p) := None)) (u', p')"
    by (auto simp: dynamo_defs world_simps table_view_def tb_delete)
next
  fix u u' p' p :: string and w
  assume "(u', p') \<noteq> (u, p)"
  then show "table_view items (after (ts_delete (dynamo_store G D table) u p) w) (u', p') = table_view items w (u', p')"
    by (auto simp: dynamo_defs world_simps table_view_def tb_delete)
qed

subsection \<open>Encryption keeps it\<close>

text \<open>
  KMS decrypts what it generated under the same key, for ever (\<open>key_of\<close> is that fixed map);
  opening undoes sealing; neither touches the backend's contents.
\<close>

locale envelope = backend: store_laws backend view key_ok pair_ok
  for backend :: "'w token_store" and view and key_ok +
  fixes C :: "'w crypto" and arn :: string and key_of :: "bytes \<Rightarrow> bytes option"
  assumes generate_key: "result (km_generate (cr_kms C) arn) w = Inr (k, edk) \<Longrightarrow> key_of edk = Some k"
    and decrypt_key: "result (km_decrypt (cr_kms C) arn edk) w = Inr k \<Longrightarrow> key_of edk = Some k"
    and generate_view: "view (after (km_generate (cr_kms C) arn) w) = view w"
    and decrypt_view: "view (after (km_decrypt (cr_kms C) arn edk) w) = view w"
    and nonce_view: "view (after (cr_nonce C) w) = view w"
    and open_seal: "ae_open (cr_aead C) k n (ae_seal (cr_aead C) k n t) = Inr t"

definition blob_pair :: "'w crypto \<Rightarrow> (bytes \<Rightarrow> bytes option) \<Rightarrow> token_pair \<Rightarrow> token_pair option" where
  "blob_pair C key_of syn =
     Option.bind (unmarshal_blob (tp_access syn)) (\<lambda>b. Option.bind (key_of (eb_key b)) (\<lambda>k.
       case ae_open (cr_aead C) k (eb_nonce b) (eb_text b) of
         Inl t \<Rightarrow> None
       | Inr plain \<Rightarrow> unmarshal_pair plain))"

definition envelope_view :: "'w crypto \<Rightarrow> (bytes \<Rightarrow> bytes option) \<Rightarrow> ('w \<Rightarrow> string \<times> string \<Rightarrow> token_pair option)
    \<Rightarrow> 'w \<Rightarrow> string \<times> string \<Rightarrow> token_pair option" where
  "envelope_view C key_of view w k = Option.bind (view w k) (blob_pair C key_of)"

lemma seal_pair_blob:
  assumes "result (seal_pair C key edk t) w = Inr blob"
  shows "\<exists>n. blob = \<lparr>eb_key = edk, eb_text = ae_seal (cr_aead C) key n (pair_json t), eb_nonce = n\<rparr>"
  using assms by (auto simp: seal_pair_def world_simps split: option.splits sum.splits)

lemma after_seal_pair: "after (seal_pair C key edk t) w = w \<or> after (seal_pair C key edk t) w = after (cr_nonce C) w"
  by (auto simp: seal_pair_def world_simps split: option.splits)

definition syn_pair :: "encrypted_blob \<Rightarrow> token_pair" where
  "syn_pair b = \<lparr>tp_access = blob_json b, tp_refresh = []\<rparr>"

lemma syn_pair_ok: "pair_ok (syn_pair b)"
  by (simp add: syn_pair_def pair_ok_def blob_json_valid)

text \<open>A save ends before the backend is asked, or in the backend's save of a sealed pair.\<close>

lemma encrypted_save_cases:
  obtains (early) e w' where "run (encrypted_save C arn backend u p t) w = (Some e, w')"
      and "w' = after (km_generate (cr_kms C) arn) w
        \<or> (\<exists>k edk. w' = after (seal_pair C k edk t) (after (km_generate (cr_kms C) arn) w))"
  | (stored) k edk blob w' where "result (km_generate (cr_kms C) arn) w = Inr (k, edk)"
      and "result (seal_pair C k edk t) (after (km_generate (cr_kms C) arn) w) = Inr blob"
      and "w' = after (seal_pair C k edk t) (after (km_generate (cr_kms C) arn) w)"
      and "run (encrypted_save C arn backend u p t) w =
        (map_option (prefix_err ''token_store: backend save: '') (result (ts_save backend u p (syn_pair blob)) w'),
         after (ts_save backend u p (syn_pair blob)) w')"
proof (cases "result (km_generate (cr_kms C) arn) w")
  case (Inl e)
  then show ?thesis
    by (intro early) (auto simp: encrypted_save_def run_result_after world_simps)
next
  case (Inr ke)
  obtain k edk where ke: "ke = (k, edk)" by (cases ke)
  let ?w = "after (km_generate (cr_kms C) arn) w"
  show ?thesis
  proof (cases "result (seal_pair C k edk t) ?w")
    case (Inl e)
    then show ?thesis
      using Inr ke by (intro early) (auto simp: encrypted_save_def run_result_after world_simps)
  next
    case blob: (Inr blob)
    show ?thesis
      using Inr ke blob
      by (intro stored) (auto simp: encrypted_save_def run_result_after world_simps syn_pair_def)
  qed
qed

context envelope begin

lemma blob_pair_sealed:
  assumes "pair_ok t" and "key_of edk = Some k"
    and "blob = \<lparr>eb_key = edk, eb_text = ae_seal (cr_aead C) k n (pair_json t), eb_nonce = n\<rparr>"
  shows "blob_pair C key_of (syn_pair blob) = Some t"
  using assms by (simp add: blob_pair_def syn_pair_def unmarshal_blob_json open_seal unmarshal_pair_json)

lemma seal_view: "view (after (seal_pair C k edk t) w) = view w"
  using after_seal_pair [of C k edk t w] nonce_view by metis

end

sublocale envelope \<subseteq> sealed: store_laws "encrypted_store G C arn backend" "envelope_view C key_of view" key_ok pair_ok
  for G
proof
  fix u p w t
  assume "result (ts_get (encrypted_store G C arn backend) u p) w = Inr t"
  then show "envelope_view C key_of view w (u, p) = Some t"
    using backend.get_found [of u p w] decrypt_key
    by (fastforce simp: encrypted_store_def encrypted_get_def world_simps envelope_view_def blob_pair_def
        open_pair_def split: sum.splits option.splits)
next
  fix u p w e
  assume a: "result (ts_get (encrypted_store G C arn backend) u p) w = Inl e" "err_is e = ErrNotConnected"
  then have "result (ts_get backend u p) w = Inl e"
    by (auto simp: encrypted_store_def encrypted_get_def world_simps open_pair_def split: sum.splits option.splits)
  then show "envelope_view C key_of view w (u, p) = None"
    using backend.get_absent [of u p w e] a(2) by (simp add: envelope_view_def)
next
  fix u p w
  have "view (after (ts_get (encrypted_store G C arn backend) u p) w) = view w"
    using decrypt_view backend.get_view
    by (auto simp: encrypted_store_def encrypted_get_def world_simps split: sum.splits option.splits)
  then show "envelope_view C key_of view (after (ts_get (encrypted_store G C arn backend) u p) w)
      = envelope_view C key_of view w"
    by (simp add: envelope_view_def fun_eq_iff)
next
  fix u u' t p w p'
  assume a: "key_ok u" "key_ok u'" "pair_ok t" "result (ts_save (encrypted_store G C arn backend) u p t) w = None"
  show "envelope_view C key_of view (after (ts_save (encrypted_store G C arn backend) u p t) w) (u', p')
      = ((envelope_view C key_of view w)((u, p) \<mapsto> t)) (u', p')"
  proof (cases rule: encrypted_save_cases [of C arn backend u p t w])
    case (early e w')
    then show ?thesis using a(4) by (simp add: encrypted_store_def run_result_after)
  next
    case (stored k edk blob w')
    have none: "result (ts_save backend u p (syn_pair blob)) w' = None"
      using stored(4) a(4) by (simp add: encrypted_store_def run_result_after)
    have blob: "blob_pair C key_of (syn_pair blob) = Some t"
      using seal_pair_blob [OF stored(2)] blob_pair_sealed [OF a(3) generate_key [OF stored(1)]] by blast
    have "view w' = view w" using stored(3) seal_view generate_view by simp
    then show ?thesis
      using backend.save_view [OF a(1,2) syn_pair_ok none, of p'] stored(4) blob
      by (simp add: encrypted_store_def run_result_after envelope_view_def)
  qed
next
  fix u u' p' p :: string and t w
  assume a: "key_ok u" "key_ok u'" "(u', p') \<noteq> (u, p)"
  show "envelope_view C key_of view (after (ts_save (encrypted_store G C arn backend) u p t) w) (u', p')
      = envelope_view C key_of view w (u', p')"
  proof (cases rule: encrypted_save_cases [of C arn backend u p t w])
    case (early e w')
    then have "view w' = view w" using seal_view generate_view by auto
    then show ?thesis using early(1) by (simp add: encrypted_store_def run_result_after envelope_view_def)
  next
    case (stored k edk blob w')
    have "view w' = view w" using stored(3) seal_view generate_view by simp
    then show ?thesis
      using backend.save_other [OF a, of "syn_pair blob" w'] stored(4)
      by (simp add: encrypted_store_def run_result_after envelope_view_def)
  qed
next
  fix u u' p w p'
  assume "key_ok u" "key_ok u'" "result (ts_delete (encrypted_store G C arn backend) u p) w = None"
  then show "envelope_view C key_of view (after (ts_delete (encrypted_store G C arn backend) u p) w) (u', p')
      = ((envelope_view C key_of view w)((u, p) := None)) (u', p')"
    using backend.delete_view [of u u' p w p']
    by (auto simp: encrypted_store_def encrypted_delete_def world_simps envelope_view_def)
next
  fix u u' p' p :: string and w
  assume "key_ok u" "key_ok u'" "(u', p') \<noteq> (u, p)"
  then show "envelope_view C key_of view (after (ts_delete (encrypted_store G C arn backend) u p) w) (u', p')
      = envelope_view C key_of view w (u', p')"
    using backend.delete_other [of u u' p' p w]
    by (simp add: encrypted_store_def encrypted_delete_def world_simps envelope_view_def)
qed

text \<open>The contract as facts about the stores themselves, for use where the laws are hypotheses.\<close>

context envelope begin

lemma sealed_laws: "store_laws (encrypted_store G C arn backend) (envelope_view C key_of view) key_ok pair_ok"
  by (rule sealed.store_laws_axioms)

end

context kv_laws begin

lemma badger_laws: "store_laws (badger_store G B) (kv_view content) no_colon pair_ok"
  by (rule badger.store_laws_axioms)

end

context table_laws begin

lemma dynamo_laws: "store_laws (dynamo_store G D table) (table_view items) any_key pair_ok"
  by (rule dynamo.store_laws_axioms)

end

subsection \<open>The parameters instantiated\<close>

text \<open>
  One concrete database, which can be down, and one concrete cipher: they show that the laws
  can hold, and are what the witnesses compute with.
\<close>

record disk =
  dk_kv :: "bytes \<Rightarrow> bytes option"
  dk_items :: "string \<times> string \<Rightarrow> item option"
  dk_down :: bool

definition mem_badger :: "disk badger" where
  "mem_badger =
     \<lparr>bg_get = (\<lambda>k. State (\<lambda>d.
        (if dk_down d then GetFailed ''down''
         else case dk_kv d k of None \<Rightarrow> NotFound | Some v \<Rightarrow> Found v, d))),
      bg_set = (\<lambda>k v. State (\<lambda>d.
        if dk_down d then (OpFailed ''down'', d) else (Done, d\<lparr>dk_kv := (dk_kv d)(k \<mapsto> v)\<rparr>))),
      bg_delete = (\<lambda>k. State (\<lambda>d.
        if dk_down d then (OpFailed ''down'', d) else (Done, d\<lparr>dk_kv := (dk_kv d)(k := None)\<rparr>))),
      bg_close = ret None\<rparr>"

definition attr_text :: "item \<Rightarrow> string \<Rightarrow> string" where
  "attr_text it k = (case map_of it k of Some (AttrS v) \<Rightarrow> v | _ \<Rightarrow> [])"

definition key_of_item :: "item \<Rightarrow> string \<times> string" where
  "key_of_item it = (attr_text it ''user_id'', attr_text it ''provider'')"

lemma key_of_item_key [simp]: "key_of_item (item_key u p @ extra) = (u, p)" "key_of_item (item_key u p) = (u, p)"
  by (simp_all add: key_of_item_def attr_text_def item_key_def)

definition mem_dynamo :: "disk dynamo" where
  "mem_dynamo =
     \<lparr>dy_get = (\<lambda>tb k. State (\<lambda>d.
        (if dk_down d then Inl ''down'' else Inr (dk_items d (key_of_item k)), d))),
      dy_put = (\<lambda>tb it. State (\<lambda>d.
        if dk_down d then (Some ''down'', d)
        else (None, d\<lparr>dk_items := (dk_items d)(key_of_item it \<mapsto> it)\<rparr>))),
      dy_delete = (\<lambda>tb k. State (\<lambda>d.
        if dk_down d then (Some ''down'', d)
        else (None, d\<lparr>dk_items := (dk_items d)(key_of_item k := None)\<rparr>)))\<rparr>"

definition mem_aead :: aead where
  "mem_aead =
     \<lparr>ae_cipher_error = (\<lambda>k. if k = [] then Some ''crypto/aes: invalid key size 0'' else None),
      ae_gcm_error = (\<lambda>k. None), ae_seal = (\<lambda>k n t. k @ n @ t),
      ae_open = (\<lambda>k n c. if has_prefix c (k @ n) then Inr (drop (length k + length n) c)
                 else Inl ''cipher: message authentication failed'')\<rparr>"

definition mem_key_of :: "bytes \<Rightarrow> bytes option" where
  "mem_key_of edk = (case edk of [] \<Rightarrow> None | c # k \<Rightarrow> Some k)"

definition mem_crypto :: "'w crypto" where
  "mem_crypto =
     \<lparr>cr_kms = \<lparr>km_generate = (\<lambda>arn. ret (Inr (''data key'', ''#data key''))),
        km_decrypt = (\<lambda>arn edk. ret (case mem_key_of edk of
           None \<Rightarrow> Inl ''InvalidCiphertextException'' | Some k \<Rightarrow> Inr k))\<rparr>,
      cr_aead = mem_aead, cr_nonce = ret (Inr ''nonce-nonce-'')\<rparr>"

interpretation mem_kv: kv_laws mem_badger dk_kv
  by unfold_locales (auto simp: mem_badger_def split: option.splits if_splits)

interpretation mem_table: table_laws mem_dynamo table dk_items
  by unfold_locales (auto simp: mem_dynamo_def split: if_splits)

lemma mem_open_seal: "ae_open mem_aead k n (ae_seal mem_aead k n t) = Inr t"
  using has_prefix_append [of "k @ n" t] by (simp add: mem_aead_def)

interpretation mem_sealed: envelope "badger_store G mem_badger" "kv_view dk_kv" no_colon mem_crypto arn mem_key_of
  by unfold_locales (auto simp: mem_crypto_def mem_open_seal mem_key_of_def split: list.splits option.splits)

subsection \<open>Properties of the stores\<close>

text \<open>
  A saved pair, read back by a backend and a KMS that answer: every step of \<open>Get\<close> undoes its
  step of \<open>Save\<close> (the cipher takes the key again because it took it when sealing).
\<close>

lemma open_sealed_pair:
  assumes "result (seal_pair C k edk t) v = Inr blob" and "pair_ok t"
    and "\<And>n s. ae_open (cr_aead C) k n (ae_seal (cr_aead C) k n s) = Inr s"
  shows "open_pair G C k blob = Inr t \<and> eb_key blob = edk"
  using assms by (auto simp: seal_pair_def open_pair_def world_simps unmarshal_pair_json split: option.splits sum.splits)

context envelope begin

lemma get_saved:
  assumes "key_ok u" and "pair_ok t" and "result (encrypted_save C arn backend u p t) w = None"
    and "result (ts_get backend u p) (after (encrypted_save C arn backend u p t) w) = Inr b"
    and "\<And>v edk k. key_of edk = Some k \<Longrightarrow> result (km_decrypt (cr_kms C) arn edk) v = Inr k"
  shows "result (encrypted_get G C arn backend u p) (after (encrypted_save C arn backend u p t) w) = Inr t"
proof (cases rule: encrypted_save_cases [of C arn backend u p t w])
  case (early e w')
  then show ?thesis using assms(3) by (simp add: run_result_after)
next
  case (stored k edk blob w')
  let ?w = "after (encrypted_save C arn backend u p t) w"
  have none: "result (ts_save backend u p (syn_pair blob)) w' = None"
    using stored(4) assms(3) by (simp add: run_result_after)
  have w: "?w = after (ts_save backend u p (syn_pair blob)) w'" using stored(4) by (simp add: run_result_after)
  have "view ?w (u, p) = Some (syn_pair blob)"
    using backend.save_view [OF assms(1,1) syn_pair_ok none, of p] w by simp
  then have b: "b = syn_pair blob" using backend.get_found [OF assms(4)] by simp
  have "open_pair G C k blob = Inr t \<and> eb_key blob = edk"
    by (rule open_sealed_pair [OF stored(2) assms(2)]) (rule open_seal)
  then show ?thesis
    using assms(4) assms(5) [OF generate_key [OF stored(1)]] b
    by (simp add: encrypted_get_def world_simps syn_pair_def unmarshal_blob_json)
qed

end

text \<open>
  C10: A pair that the encrypted store has saved is what the next get answers. Over every backend
  that keeps the contract of a token store, and with KMS and the cipher as documented: after a
  successful save, when the backend answers the read and KMS decrypts the data key it had
  generated, the get of that user and provider answers exactly the saved pair (access and refresh
  token); what is stored for every other user or provider is unchanged.
\<close>

theorem encrypted_save_then_get:
  assumes "envelope backend view key_ok C arn key_of"
    and "key_ok u" and "pair_ok t" and "result (encrypted_save C arn backend u p t) w = None"
    and "w' = after (encrypted_save C arn backend u p t) w"
    and "result (ts_get backend u p) w' = Inr b"
    and "\<And>v edk k. key_of edk = Some k \<Longrightarrow> result (km_decrypt (cr_kms C) arn edk) v = Inr k"
  shows "result (encrypted_get G C arn backend u p) w' = Inr t
    \<and> (\<forall>u' p'. key_ok u' \<and> (u', p') \<noteq> (u, p) \<longrightarrow>
        envelope_view C key_of view w' (u', p') = envelope_view C key_of view w (u', p'))"
proof -
  note laws = envelope.sealed_laws [OF assms(1), of golib0]
  show ?thesis
    using envelope.get_saved [OF assms(1-4) _ assms(7)] store_laws.save_other [OF laws assms(2), of _ _ p t w]
      assms(5,6)
    by (simp add: encrypted_store_def)
qed

definition demo_pair :: token_pair where
  "demo_pair = \<lparr>tp_access = ''access'', tp_refresh = ''refresh''\<rparr>"

definition demo_disk :: disk where
  "demo_disk = \<lparr>dk_kv = (\<lambda>_. None), dk_items = (\<lambda>_. None), dk_down = False\<rparr>"

lemma demo_pair_ok: "pair_ok demo_pair"
  by (simp add: pair_ok_def demo_pair_def utf8_valid_all_ascii)

lemma demo_saved:
  "result (encrypted_save mem_crypto ''arn'' (badger_store golib0 mem_badger) ''ann'' ''github'' demo_pair) demo_disk = None"
  by (simp add: encrypted_save_def seal_pair_def world_simps mem_crypto_def mem_aead_def badger_defs mem_badger_def demo_disk_def)

lemma demo_read_back:
  "\<exists>b. result (ts_get (badger_store golib0 mem_badger) ''ann'' ''github'')
     (after (encrypted_save mem_crypto ''arn'' (badger_store golib0 mem_badger) ''ann'' ''github'' demo_pair) demo_disk) = Inr b"
proof -
  let ?B = "badger_store golib0 mem_badger" and ?key = "badger_key ''ann'' ''github''"
  obtain blob where "after (encrypted_save mem_crypto ''arn'' ?B ''ann'' ''github'' demo_pair) demo_disk
      = demo_disk\<lparr>dk_kv := (dk_kv demo_disk)(?key \<mapsto> pair_json (syn_pair blob))\<rparr>"
    by (simp add: encrypted_save_def seal_pair_def world_simps mem_crypto_def mem_aead_def badger_defs mem_badger_def
        demo_disk_def syn_pair_def)
  then show ?thesis
    using unmarshal_pair_json [OF syn_pair_ok [of blob]]
    by (simp add: badger_defs mem_badger_def world_simps demo_disk_def)
qed

theorem encrypted_save_then_get_witness:
  "result (encrypted_get golib0 mem_crypto ''arn'' (badger_store golib0 mem_badger) ''ann'' ''github'')
     (after (encrypted_save mem_crypto ''arn'' (badger_store golib0 mem_badger) ''ann'' ''github'' demo_pair) demo_disk)
     = Inr demo_pair"
proof -
  obtain b where b: "result (ts_get (badger_store golib0 mem_badger) ''ann'' ''github'')
     (after (encrypted_save mem_crypto ''arn'' (badger_store golib0 mem_badger) ''ann'' ''github'' demo_pair) demo_disk) = Inr b"
    using demo_read_back by blast
  have kms: "mem_key_of edk = Some k \<Longrightarrow> result (km_decrypt (cr_kms mem_crypto) ''arn'' edk) v = Inr k" for v edk k
    by (simp add: mem_crypto_def)
  have key: "no_colon ''ann''" by (simp add: no_colon_def)
  show ?thesis
    by (rule conjunct1 [OF encrypted_save_then_get [OF mem_sealed.envelope_axioms key demo_pair_ok demo_saved refl b kms]])
qed

text \<open>
  The BadgerDB key separates users and providers as long as user ids hold no colon.
\<close>

lemma badger_keys_separate:
  assumes "no_colon u" and "no_colon u'"
  shows "badger_key u p = badger_key u' p' \<longleftrightarrow> u = u' \<and> p = p'"
  using assms badger_key_inj by (simp add: no_colon_def)

text \<open>
  Without that restriction it does not: a colon in a user id and one in a provider name
  give two owners one entry. What one saves or deletes the other has saved or deleted, and each
  reads the other's tokens.
\<close>

lemma badger_keys_collide:
  "badger_save B (u @ '':'' @ p) q pair = badger_save B u (p @ '':'' @ q) pair
   \<and> badger_delete B (u @ '':'' @ p) q = badger_delete B u (p @ '':'' @ q)
   \<and> (result (badger_get G B (u @ '':'' @ p) q) w = Inr t \<longleftrightarrow> result (badger_get G B u (p @ '':'' @ q)) w = Inr t)"
proof -
  have key: "badger_key (u @ '':'' @ p) q = badger_key u (p @ '':'' @ q)" by (simp add: badger_key_def)
  show ?thesis
    unfolding badger_save_def badger_delete_def badger_get_def key
    by (simp add: world_simps split: view_outcome.splits option.splits)
qed

text \<open>
  What the encrypted store writes is what it reads: the JSON text of a sealed blob (wrapped data
  key, cipher text and nonce in standard base64) is unmarshalled to the same three byte strings,
  and that of a token pair of valid UTF-8 to the same pair.
\<close>

lemma stored_forms_round_trip:
  "pair_ok t \<Longrightarrow> unmarshal_blob (blob_json b) = Some b \<and> unmarshal_pair (pair_json t) = Some t"
  by (simp add: unmarshal_blob_json unmarshal_pair_json)

end
