(* ===== verification/ConnectHandler.thy ===== *)
theory ConnectHandler
  imports Inbound TokenStores
begin

section \<open>Connecting a secondary provider (\<^verbatim>\<open>connect_handler.go\<close>)\<close>

text \<open>
  The authorization code flow. HMAC-SHA256, the RFC 3339 text of a time (read strictly, from
  the raw body of a JSON string), the text of a base64 error and the two calls into
  \<^verbatim>\<open>golang.org/x/oauth2\<close> are parameters. A time is a number of nanoseconds since
  the epoch.
\<close>

record 'w connect_lib =
  cl_hmac :: "bytes \<Rightarrow> bytes \<Rightarrow> bytes"
  cl_time_print :: "int \<Rightarrow> string + string"
  cl_time_parse :: "string \<Rightarrow> int option"
  cl_b64_err :: "string \<Rightarrow> string"
  cl_now :: "('w, int) act"
  cl_auth_code_url :: "oauth_config \<Rightarrow> string \<Rightarrow> string \<Rightarrow> string \<Rightarrow> string"
  cl_exchange :: "oauth_config \<Rightarrow> string \<Rightarrow> string \<Rightarrow> string \<Rightarrow> ('w, string + token_pair) act"

record 'w connect =
  cn_identity :: "'w identity_service"
  cn_store :: "'w token_store"
  cn_providers :: "string \<rightharpoonup> secondary_provider"
  cn_key :: bytes
  cn_ttl :: int
  cn_redirect :: string

record 'w connect_config =
  cc_identity :: "'w identity_service option"
  cc_store :: "'w token_store option"
  cc_providers :: "secondary_provider list"
  cc_key :: bytes
  cc_ttl :: int
  cc_redirect :: string
  cc_logger :: bool

definition default_state_ttl :: int where
  "default_state_ttl = 10 * 60 * 1000000000"

definition new_connect_handler :: "'w connect_config \<Rightarrow> goerr + 'w connect" where
  "new_connect_handler cfg =
     (case cc_identity cfg of None \<Rightarrow> Inl (plain_err ''connect: IdentityService required'')
      | Some i \<Rightarrow>
     (case cc_store cfg of None \<Rightarrow> Inl (plain_err ''connect: TokenStore required'')
      | Some s \<Rightarrow>
          if cc_key cfg = [] then Inl (plain_err ''connect: StateKey required'')
          else if \<not> cc_logger cfg then Inl (plain_err ''connect: Logger required'')
          else Inr \<lparr>cn_identity = i, cn_store = s, cn_providers = providers_map Map.empty (cc_providers cfg),
                    cn_key = cc_key cfg,
                    cn_ttl = (if cc_ttl cfg = 0 then default_state_ttl else cc_ttl cfg),
                    cn_redirect = cc_redirect cfg\<rparr>))"

subsection \<open>The state token\<close>

record state_payload =
  st_user :: string
  st_provider :: string
  st_expires :: int

definition payload_json :: "string \<Rightarrow> string \<Rightarrow> string \<Rightarrow> bytes" where
  "payload_json user provider expires =
     json_print (JObj [(''user_id'', JStr (quote user)), (''provider'', JStr (quote provider)),
                       (''expires_at'', JStr expires)])"

definition mint_state :: "'w connect_lib \<Rightarrow> bytes \<Rightarrow> string \<Rightarrow> string \<Rightarrow> int \<Rightarrow> int \<Rightarrow> goerr + string" where
  "mint_state L key user provider ttl now =
     (case cl_time_print L (now + ttl) of
        Inl t \<Rightarrow> Inl (plain_err (''mint state: marshal: '' @ t))
      | Inr expires \<Rightarrow>
          (let enc = b64_encode (payload_json user provider expires);
               sig = b64_encode (cl_hmac L key enc)
           in Inr (enc @ ''.'' @ sig)))"

text \<open>A field of type \<open>time.Time\<close>; the zero time is the first of January of year 1.\<close>

definition zero_time :: int where
  "zero_time = -62135596800 * 1000000000"

fun time_field :: "(string \<Rightarrow> int option) \<Rightarrow> json list \<Rightarrow> int \<Rightarrow> int option" where
  "time_field parse [] acc = Some acc"
| "time_field parse (JStr r # js) acc =
     (case parse r of None \<Rightarrow> None | Some t \<Rightarrow> time_field parse js t)"
| "time_field parse (JNull # js) acc = time_field parse js acc"
| "time_field parse (_ # js) acc = None"

definition unmarshal_payload :: "'w connect_lib \<Rightarrow> bytes \<Rightarrow> state_payload option" where
  "unmarshal_payload L data =
     (case json_parse data of
        Some j \<Rightarrow>
          (case (get_string ''user_id'' j, get_string ''provider'' j,
                 (case j of JObj ms \<Rightarrow> time_field (cl_time_parse L) (field_vals ''expires_at'' ms) zero_time
                  | _ \<Rightarrow> Some zero_time)) of
             (Some u, Some p, Some t) \<Rightarrow> Some \<lparr>st_user = u, st_provider = p, st_expires = t\<rparr>
           | _ \<Rightarrow> None)
      | None \<Rightarrow> None)"

definition verify_state :: "golib \<Rightarrow> 'w connect_lib \<Rightarrow> bytes \<Rightarrow> string \<Rightarrow> int \<Rightarrow> goerr + state_payload" where
  "verify_state G L key state now =
     (case split_n2 (CHR ''.'') state of
        [enc, sig] \<Rightarrow>
          if sig \<noteq> b64_encode (cl_hmac L key enc) then Inl (plain_err ''invalid state signature'')
          else (case b64_decode enc of
             None \<Rightarrow> Inl (plain_err (''decode state payload: '' @ cl_b64_err L enc))
           | Some data \<Rightarrow>
          (case unmarshal_payload L data of
             None \<Rightarrow> Inl (plain_err (''unmarshal state payload: '' @ gl_json_err G data))
           | Some payload \<Rightarrow>
               if st_expires payload < now then Inl (plain_err ''state expired: restart the connect flow'')
               else Inr payload))
      | _ \<Rightarrow> Inl (plain_err ''invalid state format''))"

subsection \<open>The handlers\<close>

text \<open>\<open>verifyState\<close> reads the clock last; here the handler reads it first and passes the time.\<close>

definition callback_url :: "'w connect \<Rightarrow> string \<Rightarrow> string" where
  "callback_url h provider = cn_redirect h @ ''/connect/'' @ provider @ ''/callback''"

definition serve_connect :: "'w connect_lib \<Rightarrow> 'w connect \<Rightarrow> 'w ctx \<Rightarrow> in_request \<Rightarrow> ('w, http_reply) act" where
  "serve_connect L h c r =
     (let provider = iq_path_value r ''provider'' in
      case cn_providers h provider of
        None \<Rightarrow> ret (http_error ''{\"error\":\"unknown provider\"}'' 404)
      | Some cfg \<Rightarrow>
     State_Monad.bind (cn_identity h (inject_credentials_from_http c r)) (\<lambda>i. case i of
        Inl e \<Rightarrow> ret (http_error ''{\"error\":\"unauthorized\"}'' 401)
      | Inr idn \<Rightarrow>
     State_Monad.bind (cl_now L) (\<lambda>now.
       ret (case mint_state L (cn_key h) (id_user idn) provider (cn_ttl h) now of
              Inl e \<Rightarrow> http_error ''{\"error\":\"internal error\"}'' 500
            | Inr state \<Rightarrow> RedirectTo (cl_auth_code_url L
                \<lparr>oa_client_id = sp_client_id cfg, oa_client_secret = [], oa_scopes = sp_scopes cfg,
                 oa_token_url = sp_token_url cfg\<rparr> (sp_auth_url cfg) (callback_url h provider) state)))))"

definition serve_callback :: "golib \<Rightarrow> 'w connect_lib \<Rightarrow> 'w connect \<Rightarrow> in_request \<Rightarrow> ('w, http_reply) act" where
  "serve_callback G L h r =
     (let provider = iq_path_value r ''provider''; q = go_quote (gl_printable G) in
      case cn_providers h provider of
        None \<Rightarrow> ret (http_error ''{\"error\":\"unknown provider\"}'' 404)
      | Some cfg \<Rightarrow>
     State_Monad.bind (cl_now L) (\<lambda>now.
       case verify_state G L (cn_key h) (iq_query r ''state'') now of
         Inl e \<Rightarrow> ret (json_reply 400 (''{\"error\":'' @ q (err_text e) @ ''}''))
       | Inr payload \<Rightarrow>
     if st_provider payload \<noteq> provider then
       ret (http_error ''{\"error\":\"state provider mismatch\"}'' 400)
     else
     State_Monad.bind (cl_exchange L
         \<lparr>oa_client_id = sp_client_id cfg, oa_client_secret = sp_secret cfg, oa_scopes = sp_scopes cfg,
          oa_token_url = sp_token_url cfg\<rparr> (sp_auth_url cfg) (callback_url h provider) (iq_query r ''code''))
       (\<lambda>t. case t of
          Inl e \<Rightarrow> ret (json_reply 502 (''{\"error\":\"code exchange failed\",\"provider\":'' @ q provider @ ''}''))
        | Inr pair \<Rightarrow>
     State_Monad.bind (ts_save (cn_store h) (st_user payload) provider pair) (\<lambda>s. ret (case s of
          Some e \<Rightarrow> http_error ''{\"error\":\"internal error\"}'' 500
        | None \<Rightarrow> json_reply 200 (''{\"status\":\"connected\",\"provider\":'' @ q provider @ ''}''))))))"

subsection \<open>A minted state is accepted until it expires, and no other is\<close>

text \<open>
  What the documentation of \<open>time\<close> promises: RFC 3339 text needs no JSON escape, and parsing
  a printed time gives it back.
\<close>

definition time_text_ok :: "'w connect_lib \<Rightarrow> bool" where
  "time_text_ok L \<longleftrightarrow>
     (\<forall>t s. cl_time_print L t = Inr s \<longrightarrow> plain_text s \<and> cl_time_parse L s = Some t)"

lemma payload_names [simp]:
  "plain_text ''user_id''" "plain_text ''provider''" "plain_text ''expires_at''"
  by (simp_all add: plain_text_def html_char_def)

lemma payload_folds [simp]:
  "fold_name ''user_id'' \<noteq> fold_name ''provider''" "fold_name ''provider'' \<noteq> fold_name ''user_id''"
  "fold_name ''user_id'' \<noteq> fold_name ''expires_at''" "fold_name ''expires_at'' \<noteq> fold_name ''user_id''"
  "fold_name ''provider'' \<noteq> fold_name ''expires_at''" "fold_name ''expires_at'' \<noteq> fold_name ''provider''"
  by (simp_all add: fold_name.simps ascii_upper_def)

lemma payload_json_parse:
  "plain_text expires \<Longrightarrow> json_parse (payload_json user provider expires) =
     Some (JObj [(''user_id'', JStr (quote user)), (''provider'', JStr (quote provider)),
                 (''expires_at'', JStr expires)])"
  unfolding payload_json_def
  by (rule json_parse_print) (simp_all add: plain_text_ok quote_ok max_nesting_def)

lemma unmarshal_payload_json:
  assumes "utf8_valid user" and "utf8_valid provider" and "plain_text s" and "cl_time_parse L s = Some t"
  shows "unmarshal_payload L (payload_json user provider s) =
    Some \<lparr>st_user = user, st_provider = provider, st_expires = t\<rparr>"
  using assms
  by (simp add: unmarshal_payload_def payload_json_parse get_string_def field_vals_Cons plain_text_unquote)

lemma mint_state_shape:
  "mint_state L key user provider ttl now = Inr state \<Longrightarrow>
     \<exists>s enc. cl_time_print L (now + ttl) = Inr s \<and> enc = b64_encode (payload_json user provider s)
       \<and> state = enc @ CHR ''.'' # b64_encode (cl_hmac L key enc)"
  by (auto simp: mint_state_def Let_def split: sum.splits)

lemma verify_minted:
  assumes "time_text_ok L" and "utf8_valid user" and "utf8_valid provider"
    and "mint_state L key user provider ttl now = Inr state"
  shows "verify_state G L key state later =
    (if now + ttl < later then Inl (plain_err ''state expired: restart the connect flow'')
     else Inr \<lparr>st_user = user, st_provider = provider, st_expires = now + ttl\<rparr>)"
proof -
  obtain s enc where s: "cl_time_print L (now + ttl) = Inr s" "enc = b64_encode (payload_json user provider s)"
      "state = enc @ CHR ''.'' # b64_encode (cl_hmac L key enc)"
    using mint_state_shape [OF assms(4)] by blast
  have "plain_text s" "cl_time_parse L s = Some (now + ttl)" using assms(1) s(1) by (auto simp: time_text_ok_def)
  then have "unmarshal_payload L (payload_json user provider s) =
      Some \<lparr>st_user = user, st_provider = provider, st_expires = now + ttl\<rparr>"
    using assms by (intro unmarshal_payload_json)
  then show ?thesis
    by (simp add: verify_state_def s split_n2_append b64_encode_no_dot)
qed

lemma split_n2_pair:
  assumes "split_n2 c s = [a, b]"
  shows "s = a @ c # b \<and> c \<notin> set a"
proof -
  have "c \<in> set s" using assms by (simp add: split_n2_def split: if_splits)
  then obtain x y where s: "s = x @ c # y" "c \<notin> set x" using split_list_first by metis
  then show ?thesis using assms by (simp add: split_n2_append)
qed

lemma verify_state_authentic:
  assumes "verify_state G L key state now = Inr payload"
  shows "\<exists>enc data. state = enc @ CHR ''.'' # b64_encode (cl_hmac L key enc) \<and> CHR ''.'' \<notin> set enc
    \<and> b64_decode enc = Some data \<and> unmarshal_payload L data = Some payload \<and> now \<le> st_expires payload"
proof -
  obtain enc sig where p: "split_n2 (CHR ''.'') state = [enc, sig]" "sig = b64_encode (cl_hmac L key enc)"
      "\<exists>data. b64_decode enc = Some data \<and> unmarshal_payload L data = Some payload" "now \<le> st_expires payload"
    using assms by (auto simp: verify_state_def split: list.splits if_splits option.splits)
  have "state = enc @ CHR ''.'' # sig \<and> CHR ''.'' \<notin> set enc"
    using split_n2_pair [OF p(1)] .
  then show ?thesis using p by blast
qed

subsection \<open>The handlers, branch by branch\<close>

lemma connect_unknown:
  "cn_providers h (iq_path_value r ''provider'') = None \<Longrightarrow>
     run (serve_connect L h c r) w = (http_error ''{\"error\":\"unknown provider\"}'' 404, w)"
  by (simp add: serve_connect_def run_result_after)

lemma connect_redirects:
  assumes "cn_providers h provider = Some cfg" and "iq_path_value r ''provider'' = provider"
    and "c' = inject_credentials_from_http c r" and "result (cn_identity h c') w = Inr idn"
    and "w1 = after (cn_identity h c') w"
    and "mint_state L (cn_key h) (id_user idn) provider (cn_ttl h) (result (cl_now L) w1) = Inr state"
  shows "run (serve_connect L h c r) w =
    (RedirectTo (cl_auth_code_url L
       \<lparr>oa_client_id = sp_client_id cfg, oa_client_secret = [], oa_scopes = sp_scopes cfg,
        oa_token_url = sp_token_url cfg\<rparr> (sp_auth_url cfg) (callback_url h provider) state),
     after (cl_now L) w1)"
  using assms by (simp add: serve_connect_def run_result_after world_simps)

text \<open>Only the clock is read when the state is refused: no code is exchanged, nothing saved.\<close>

lemma callback_refused:
  assumes "\<And>payload. verify_state G L (cn_key h) (iq_query r ''state'') (result (cl_now L) w) = Inr payload \<Longrightarrow>
      st_provider payload \<noteq> iq_path_value r ''provider''"
    and "cn_providers h (iq_path_value r ''provider'') = Some cfg"
  shows "after (serve_callback G L h r) w = after (cl_now L) w"
  using assms by (auto simp: serve_callback_def world_simps Let_def split: sum.splits)

lemma callback_connects:
  assumes "cn_providers h provider = Some cfg" and "iq_path_value r ''provider'' = provider"
    and "verify_state G L (cn_key h) (iq_query r ''state'') (result (cl_now L) w) = Inr payload"
    and "st_provider payload = provider" and "w1 = after (cl_now L) w"
    and "exchange = cl_exchange L
      \<lparr>oa_client_id = sp_client_id cfg, oa_client_secret = sp_secret cfg, oa_scopes = sp_scopes cfg,
       oa_token_url = sp_token_url cfg\<rparr> (sp_auth_url cfg) (callback_url h provider) (iq_query r ''code'')"
    and "result exchange w1 = Inr pair" and "w2 = after exchange w1"
    and "result (ts_save (cn_store h) (st_user payload) provider pair) w2 = None"
  shows "run (serve_callback G L h r) w =
    (json_reply 200 (''{\"status\":\"connected\",\"provider\":'' @ go_quote (gl_printable G) provider @ ''}''),
     after (ts_save (cn_store h) (st_user payload) provider pair) w2)"
  using assms by (simp add: serve_callback_def run_result_after world_simps Let_def)

subsection \<open>Properties of the connect flow\<close>

text \<open>
  C20: A minted state verifies, to exactly the user and provider it was minted for, from its
  minting until its expiry and never after it (\<open>time\<close> printing and parsing as documented).
\<close>

theorem minted_states_verify_until_expiry:
  assumes "time_text_ok L" and "utf8_valid user" and "utf8_valid provider"
    and "mint_state L key user provider ttl now = Inr state"
  shows "verify_state G L key state later =
    (if now + ttl < later then Inl (plain_err ''state expired: restart the connect flow'')
     else Inr \<lparr>st_user = user, st_provider = provider, st_expires = now + ttl\<rparr>)"
  using verify_minted [OF assms] .

definition demo_connect_lib :: "'w connect_lib" where
  "demo_connect_lib =
     \<lparr>cl_hmac = (\<lambda>k d. k), cl_time_print = (\<lambda>t. if t = 600 then Inr ''T600'' else Inl ''out of range''),
      cl_time_parse = (\<lambda>s. if s = ''T600'' then Some 600 else None), cl_b64_err = (\<lambda>s. ''illegal base64 data''),
      cl_now = ret 100, cl_auth_code_url = (\<lambda>cfg auth uri state. auth @ ''?state='' @ state),
      cl_exchange = (\<lambda>cfg auth uri code. ret (Inr \<lparr>tp_access = code, tp_refresh = []\<rparr>))\<rparr>"

lemma demo_time_text_ok: "time_text_ok demo_connect_lib"
  by (simp add: time_text_ok_def demo_connect_lib_def plain_text_def html_char_def)

lemma demo_connect_simps [simp]:
  "cl_hmac demo_connect_lib k d = k" "cl_now demo_connect_lib = ret 100"
  "cl_exchange demo_connect_lib cfg a u code = ret (Inr \<lparr>tp_access = code, tp_refresh = []\<rparr>)"
  by (simp_all add: demo_connect_lib_def)

definition demo_state :: string where
  "demo_state = (case mint_state (demo_connect_lib :: unit connect_lib) ''key'' ''ann'' ''github'' 500 100 of
     Inl e \<Rightarrow> [] | Inr state \<Rightarrow> state)"

lemma demo_minted: "mint_state demo_connect_lib ''key'' ''ann'' ''github'' 500 100 = Inr demo_state"
  by (simp add: demo_state_def mint_state_def demo_connect_lib_def Let_def)

theorem minted_states_verify_until_expiry_witness:
  "verify_state golib0 demo_connect_lib ''key'' demo_state 600 =
      Inr \<lparr>st_user = ''ann'', st_provider = ''github'', st_expires = 600\<rparr>
   \<and> verify_state golib0 demo_connect_lib ''key'' demo_state 601 = Inl (plain_err ''state expired: restart the connect flow'')"
  using minted_states_verify_until_expiry [OF demo_time_text_ok _ _ demo_minted, of golib0 600]
    minted_states_verify_until_expiry [OF demo_time_text_ok _ _ demo_minted, of golib0 601]
  by (simp add: utf8_valid_all_ascii)

lemma demo_verified: "verify_state golib0 demo_connect_lib ''key'' demo_state 100 =
    Inr \<lparr>st_user = ''ann'', st_provider = ''github'', st_expires = 600\<rparr>"
  using verify_minted [OF demo_time_text_ok _ _ demo_minted, of golib0 100] by (simp add: utf8_valid_all_ascii)

text \<open>The only entry that a callback can change is the one of the signed user for this provider.\<close>

lemma callback_touches:
  assumes "store_laws (cn_store h) view key_ok ok"
    and "\<And>w. view (after (cl_now L) w) = view w" and "\<And>cfg a u code w. view (after (cl_exchange L cfg a u code) w) = view w"
    and "view (after (serve_callback G L h r) w) (user, p) \<noteq> view w (user, p)" and "key_ok user"
    and "\<And>payload. verify_state G L (cn_key h) (iq_query r ''state'') (result (cl_now L) w) = Inr payload \<Longrightarrow>
      key_ok (st_user payload)"
  shows "p = iq_path_value r ''provider''
    \<and> (\<exists>expires. verify_state G L (cn_key h) (iq_query r ''state'') (result (cl_now L) w) =
        Inr \<lparr>st_user = user, st_provider = p, st_expires = expires\<rparr>)"
proof -
  let ?p = "iq_path_value r ''provider''" and ?w = "after (cl_now L) w"
  obtain cfg where cfg: "cn_providers h ?p = Some cfg"
    using assms(4) by (fastforce simp: serve_callback_def)
  obtain payload where v: "verify_state G L (cn_key h) (iq_query r ''state'') (result (cl_now L) w) = Inr payload"
      and p: "st_provider payload = ?p"
    using callback_refused [OF _ cfg, of G L w] assms(2,4) by metis
  define ex where "ex = cl_exchange L
      \<lparr>oa_client_id = sp_client_id cfg, oa_client_secret = sp_secret cfg, oa_scopes = sp_scopes cfg,
       oa_token_url = sp_token_url cfg\<rparr> (sp_auth_url cfg) (callback_url h ?p) (iq_query r ''code'')"
  have keep: "view (after ex ?w) = view w" by (simp add: ex_def assms(2,3))
  have "after (serve_callback G L h r) w =
      (case result ex ?w of Inl e \<Rightarrow> after ex ?w | Inr pair \<Rightarrow> after (ts_save (cn_store h) (st_user payload) ?p pair) (after ex ?w))"
    using cfg v p by (simp add: serve_callback_def Let_def world_simps ex_def split: sum.splits)
  then obtain pair where "view (after (ts_save (cn_store h) (st_user payload) ?p pair) (after ex ?w)) (user, p)
      \<noteq> view (after ex ?w) (user, p)"
    using assms(4) keep by (auto split: sum.splits)
  then have "(user, p) = (st_user payload, ?p)"
    using store_laws.save_other [OF assms(1,6,5), OF v] by blast
  then show ?thesis using v p by (cases payload) simp
qed

text \<open>
  C16: The callback stores tokens for the user in the signed state and for nobody else. Over a
  store that keeps its contract, and an OAuth2 exchange that does not write to it, whatever
  \<open>ServeCallback\<close> answers: when the entry of a user and a provider is another than before, the
  request was for this provider and carried a state that verifies, signed for exactly this user
  and this provider.
\<close>

theorem callback_stores_for_the_signed_user:
  assumes "store_laws (cn_store h) view key_ok ok"
    and "\<And>w. view (after (cl_now L) w) = view w" and "\<And>cfg a u code w. view (after (cl_exchange L cfg a u code) w) = view w"
    and "view (after (serve_callback G L h r) w) (user, p) \<noteq> view w (user, p)" and "key_ok user"
    and "\<And>payload. verify_state G L (cn_key h) (iq_query r ''state'') (result (cl_now L) w) = Inr payload \<Longrightarrow>
      key_ok (st_user payload)"
  shows "p = iq_path_value r ''provider''
    \<and> (\<exists>expires. verify_state G L (cn_key h) (iq_query r ''state'') (result (cl_now L) w) =
        Inr \<lparr>st_user = user, st_provider = p, st_expires = expires\<rparr>)"
  using callback_touches [OF assms] .

definition demo_provider :: secondary_provider where
  "demo_provider =
     \<lparr>sp_name = ''github'', sp_type = ''oauth2'', sp_auth_url = ''https://github/auth'',
      sp_token_url = ''https://github/token'', sp_client_id = ''id'', sp_secret_arn = ''arn'', sp_scopes = [],
      sp_secret = ''secret''\<rparr>"

definition demo_connect :: "disk connect" where
  "demo_connect =
     \<lparr>cn_identity = (\<lambda>c. ret (Inl (bare_err ErrUnauthenticated))), cn_store = badger_store golib0 mem_badger,
      cn_providers = [''github'' \<mapsto> demo_provider], cn_key = ''key'', cn_ttl = 500, cn_redirect = ''https://abaris''\<rparr>"

definition demo_callback :: in_request where
  "demo_callback =
     \<lparr>iq_method = ''GET'', iq_header = (\<lambda>_. []), iq_path_value = (\<lambda>_. ''github''),
      iq_query = (\<lambda>k. if k = ''state'' then demo_state else ''code''),
      iq_body = \<lparr>hb_bytes = [], hb_error = None, hb_no_body = False\<rparr>\<rparr>"

lemma demo_connect_record [simp]:
  "cn_providers demo_connect p = (if p = ''github'' then Some demo_provider else None)" "cn_key demo_connect = ''key''"
  "cn_store demo_connect = badger_store golib0 mem_badger" "iq_path_value demo_callback k = ''github''"
  "iq_query demo_callback ''state'' = demo_state" "iq_query demo_callback ''code'' = ''code''"
  by (simp_all add: demo_connect_def demo_callback_def)

lemma demo_callback_saves:
  "after (serve_callback golib0 demo_connect_lib demo_connect demo_callback) demo_disk =
     demo_disk\<lparr>dk_kv := [badger_key ''ann'' ''github'' \<mapsto> pair_json \<lparr>tp_access = ''code'', tp_refresh = []\<rparr>]\<rparr>"
  by (simp add: serve_callback_def Let_def world_simps demo_verified badger_defs mem_badger_def demo_disk_def)

theorem callback_stores_for_the_signed_user_witness:
  "\<exists>expires. verify_state golib0 demo_connect_lib ''key'' demo_state 100 =
     Inr \<lparr>st_user = ''ann'', st_provider = ''github'', st_expires = expires\<rparr>"
proof -
  have "pair_ok \<lparr>tp_access = ''code'', tp_refresh = []\<rparr>" by (simp add: pair_ok_def utf8_valid_all_ascii)
  then have "kv_view dk_kv (after (serve_callback golib0 demo_connect_lib demo_connect demo_callback) demo_disk) (''ann'', ''github'')
      \<noteq> kv_view dk_kv demo_disk (''ann'', ''github'')"
    by (simp only: demo_callback_saves) (simp add: kv_view_def demo_disk_def unmarshal_pair_json)
  then show ?thesis
    using callback_stores_for_the_signed_user [of demo_connect "kv_view dk_kv" no_colon pair_ok demo_connect_lib golib0
        demo_callback demo_disk "''ann''" "''github''"] mem_kv.badger_laws [of golib0]
    by (simp add: demo_verified no_colon_def world_simps)
qed

end
