(* ===== verification/ConfigLoader.thy ===== *)
theory ConfigLoader
  imports Domain
begin

section \<open>The configuration loader (\<^verbatim>\<open>internal/config/loader.go\<close>)\<close>

text \<open>
  Files and YAML are a parameter (\<open>config_env\<close>): what reading a path, globbing a pattern and
  decoding the bytes into each type answer, and the validator's test for URLs. The validation
  tags of \<^verbatim>\<open>domain/types.go\<close> are translated. Raw maps have an arbitrary type \<open>'y\<close>. Locks are
  not modelled: each operation is one step.
\<close>

record 'y config_env =
  ce_read :: "string \<Rightarrow> string + bytes"
  ce_glob :: "string \<Rightarrow> string + string list"
  ce_identity :: "bytes \<Rightarrow> string + identity_config"
  ce_routing :: "bytes \<Rightarrow> string + routing_config"
  ce_policies :: "bytes \<Rightarrow> string + policy_entry list"
  ce_raw :: "bytes \<Rightarrow> string + 'y"
  ce_is_url :: "string \<Rightarrow> bool"
  ce_invalid :: string

subsection \<open>Validation tags\<close>

definition valid_idp :: "idp_config \<Rightarrow> bool" where
  "valid_idp p \<longleftrightarrow> ip_name p \<noteq> [] \<and> ip_type p \<in> set [''oidc'', ''saml'']"

definition valid_secondary :: "(string \<Rightarrow> bool) \<Rightarrow> secondary_provider \<Rightarrow> bool" where
  "valid_secondary is_url p \<longleftrightarrow>
     sp_name p \<noteq> [] \<and> sp_type p = ''oauth2'' \<and> sp_auth_url p \<noteq> [] \<and> is_url (sp_auth_url p)
       \<and> sp_token_url p \<noteq> [] \<and> is_url (sp_token_url p) \<and> sp_client_id p \<noteq> []
       \<and> sp_secret_arn p \<noteq> [] \<and> sp_scopes p \<noteq> []"

definition valid_token_store :: "token_store_config \<Rightarrow> bool" where
  "valid_token_store t \<longleftrightarrow> tk_type t \<in> set [''dynamodb'', ''badger''] \<and> tk_kms_arn t \<noteq> []"

definition valid_identity :: "(string \<Rightarrow> bool) \<Rightarrow> identity_config \<Rightarrow> bool" where
  "valid_identity is_url c \<longleftrightarrow>
     ic_providers c \<noteq> [] \<and> list_all valid_idp (ic_providers c)
       \<and> list_all (valid_secondary is_url) (ic_secondary c)
       \<and> (case ic_token_store c of None \<Rightarrow> True | Some t \<Rightarrow> valid_token_store t)"

definition valid_route :: "(string \<Rightarrow> bool) \<Rightarrow> route_entry \<Rightarrow> bool" where
  "valid_route is_url r \<longleftrightarrow> rt_prefix r \<noteq> [] \<and> rt_backend r \<noteq> [] \<and> is_url (rt_backend r)"

definition valid_assertion :: "(string \<Rightarrow> bool) \<Rightarrow> assertion_config \<Rightarrow> bool" where
  "valid_assertion is_url a \<longleftrightarrow>
     ac_issuer a \<noteq> [] \<and> is_url (ac_issuer a) \<and> ac_audience a \<noteq> [] \<and> ac_ttl a \<noteq> 0 \<and> ac_kms_arn a \<noteq> []"

definition valid_routing :: "(string \<Rightarrow> bool) \<Rightarrow> routing_config \<Rightarrow> bool" where
  "valid_routing is_url c \<longleftrightarrow>
     rc_routes c \<noteq> [] \<and> list_all (valid_route is_url) (rc_routes c) \<and> valid_assertion is_url (rc_assertion c)"

definition valid_policy :: "policy_entry \<Rightarrow> bool" where
  "valid_policy p \<longleftrightarrow> pe_group p \<noteq> [] \<and> rs_allowed (pe_scope p) \<noteq> []"

definition valid_policy_file :: "policy_entry list \<Rightarrow> bool" where
  "valid_policy_file ps \<longleftrightarrow> ps \<noteq> [] \<and> list_all valid_policy ps"

subsection \<open>Reading files\<close>

definition load_file :: "'y config_env \<Rightarrow> (bytes \<Rightarrow> string + 'a) \<Rightarrow> ('a \<Rightarrow> bool) \<Rightarrow> string \<Rightarrow> goerr + ('a \<times> 'y)" where
  "load_file E decode valid path =
     (case ce_read E path of
        Inl t \<Rightarrow> Inl (plain_err (''read: '' @ t))
      | Inr data \<Rightarrow> (case decode data of
          Inl t \<Rightarrow> Inl (plain_err (''parse: '' @ t))
        | Inr typed \<Rightarrow>
            if \<not> valid typed then Inl (plain_err (''validate: '' @ ce_invalid E))
            else (case ce_raw E data of
                Inl t \<Rightarrow> Inl (plain_err (''parse raw: '' @ t))
              | Inr raw \<Rightarrow> Inr (typed, raw))))"

text \<open>
  \<open>filepath.Join\<close>: the non-empty elements, joined by slashes and cleaned (\<open>filepath.Clean\<close> drops
  empty and \<open>.\<close> segments and resolves \<open>..\<close>; \<open>out\<close> holds the segments kept so far, the last one
  first). Then \<open>filepath.Base\<close> and \<open>filepath.Ext\<close> of a file path.
\<close>

fun clean_segments :: "bool \<Rightarrow> string list \<Rightarrow> string list \<Rightarrow> string list" where
  "clean_segments rooted out [] = rev out"
| "clean_segments rooted out (s # ss) =
     (if s = [] \<or> s = ''.'' then clean_segments rooted out ss
      else if s = ''..'' then
        (if out \<noteq> [] \<and> hd out \<noteq> ''..'' then clean_segments rooted (tl out) ss
         else if rooted then clean_segments rooted out ss
         else clean_segments rooted (s # out) ss)
      else clean_segments rooted (s # out) ss)"

fun join_with :: "string \<Rightarrow> string list \<Rightarrow> string" where
  "join_with sep [] = []"
| "join_with sep [p] = p"
| "join_with sep (p # q # ps) = p @ sep @ join_with sep (q # ps)"

definition clean_path :: "string \<Rightarrow> string" where
  "clean_path p =
     (let rooted = has_prefix p ''/''; kept = join_with ''/'' (clean_segments rooted [] (split_on CHR ''/'' p)) in
      if rooted then ''/'' @ kept else if kept = [] then ''.'' else kept)"

definition join_path :: "string list \<Rightarrow> string" where
  "join_path parts =
     (let ps = filter (\<lambda>p. p \<noteq> []) parts in if ps = [] then [] else clean_path (join_with ''/'' ps))"

lemma join_path_examples:
  "join_path [''/app/config'', ''policies'', ''*.yaml''] = ''/app/config/policies/*.yaml''"
  "join_path [''./etc//x/../'', ''identity.yaml''] = ''etc/identity.yaml''"
  "join_path [[], ''identity.yaml''] = ''identity.yaml''" "join_path [''../a/../..'', ''f''] = ''../../f''"
  by code_simp+

definition base_name :: "string \<Rightarrow> string" where
  "base_name path = rev (takeWhile (\<lambda>c. c \<noteq> CHR ''/'') (rev path))"

definition path_ext :: "string \<Rightarrow> string" where
  "path_ext path =
     (let b = rev (base_name path) in
      if CHR ''.'' \<in> set b then rev (takeWhile (\<lambda>c. c \<noteq> CHR ''.'') b @ ''.'') else [])"

definition trim_suffix :: "string \<Rightarrow> string \<Rightarrow> string" where
  "trim_suffix s x = (if has_suffix s x then take (length s - length x) s else s)"

definition policy_namespace :: "string \<Rightarrow> string" where
  "policy_namespace path = ''policies/'' @ trim_suffix (base_name path) (path_ext path)"

fun load_policy_list :: "'y config_env \<Rightarrow> string list \<Rightarrow> goerr + (policy_entry list list \<times> (string \<times> 'y) list)" where
  "load_policy_list E [] = Inr ([], [])"
| "load_policy_list E (f # fs) =
     (case load_file E (ce_policies E) valid_policy_file f of
        Inl e \<Rightarrow> Inl (prefix_err (''policy file '' @ f @ '': '') e)
      | Inr (typed, raw) \<Rightarrow>
          (case load_policy_list E fs of
             Inl e \<Rightarrow> Inl e
           | Inr (files, raws) \<Rightarrow> Inr (typed # files, (policy_namespace f, raw) # raws)))"

definition load_policy_files :: "'y config_env \<Rightarrow> string \<Rightarrow> goerr + (policy_entry list list \<times> (string \<times> 'y) list)" where
  "load_policy_files E dir =
     (case ce_glob E (join_path [dir, ''policies'', ''*.yaml'']) of
        Inl t \<Rightarrow> Inl (plain_err (''glob policies: '' @ t))
      | Inr fs \<Rightarrow> load_policy_list E fs)"

subsection \<open>Merging\<close>

definition union_tools :: "string list \<Rightarrow> string list \<Rightarrow> string list" where
  "union_tools a b = sort (remdups (a @ b))"

definition merge_scope :: "reduced_scope \<Rightarrow> reduced_scope \<Rightarrow> reduced_scope" where
  "merge_scope s t = \<lparr>rs_allowed = union_tools (rs_allowed s) (rs_allowed t),
                     rs_denied = union_tools (rs_denied s) (rs_denied t)\<rparr>"

text \<open>
  The code fills a Go map keyed by group and then sorts its entries by group; the keys are
  distinct, so the result is the map as a list in the order of its keys.
\<close>

definition merge_policy :: "(string \<times> policy_entry) list \<Rightarrow> policy_entry \<Rightarrow> (string \<times> policy_entry) list" where
  "merge_policy m p =
     (case map_of m (pe_group p) of
        Some e \<Rightarrow> map_put (pe_group p) (e\<lparr>pe_scope := merge_scope (pe_scope e) (pe_scope p)\<rparr>) m
      | None \<Rightarrow> map_put (pe_group p) p m)"

definition deep_merge_policies :: "policy_entry list list \<Rightarrow> policy_entry list" where
  "deep_merge_policies files = map snd (foldl merge_policy [] (concat files))"

subsection \<open>Checks across files\<close>

definition undefined_prefix :: "golib \<Rightarrow> policy_entry \<Rightarrow> string \<Rightarrow> goerr" where
  "undefined_prefix G p pattern =
     plain_err (''policy group '' @ go_quote (gl_printable G) (pe_group p) @ '' references undefined route prefix ''
       @ go_quote (gl_printable G) (tool_prefix pattern) @ '' (pattern: '' @ go_quote (gl_printable G) pattern
       @ '') '' @ [CHR 0xE2, CHR 0x80, CHR 0x94] @ '' add it to routing.yaml'')"

fun check_patterns :: "golib \<Rightarrow> policy_entry \<Rightarrow> string list \<Rightarrow> string list \<Rightarrow> goerr option" where
  "check_patterns G p prefixes [] = None"
| "check_patterns G p prefixes (x # xs) =
     (if tool_prefix x \<in> set prefixes then check_patterns G p prefixes xs else Some (undefined_prefix G p x))"

fun validate_policy_routes :: "golib \<Rightarrow> policy_entry list \<Rightarrow> route_entry list \<Rightarrow> goerr option" where
  "validate_policy_routes G [] routes = None"
| "validate_policy_routes G (p # ps) routes =
     (case check_patterns G p (map rt_prefix routes) (rs_allowed (pe_scope p) @ rs_denied (pe_scope p)) of
        Some e \<Rightarrow> Some e
      | None \<Rightarrow> validate_policy_routes G ps routes)"

fun validate_secondary :: "golib \<Rightarrow> string list \<Rightarrow> secondary_provider list \<Rightarrow> goerr option" where
  "validate_secondary G seen [] = None"
| "validate_secondary G seen (p # ps) =
     (if sp_name p \<in> set seen
      then Some (plain_err (''secondary_providers: duplicate provider name '' @ go_quote (gl_printable G) (sp_name p)))
      else validate_secondary G (sp_name p # seen) ps)"

definition validate_secondary_providers :: "golib \<Rightarrow> secondary_provider list \<Rightarrow> goerr option" where
  "validate_secondary_providers G ps = validate_secondary G [] ps"

subsection \<open>The loader\<close>

record 'y loader =
  ld_dir :: string
  ld_current :: config
  ld_has_callback :: bool
  ld_data :: "string \<rightharpoonup> 'y"

definition empty_assertion :: assertion_config where
  "empty_assertion = \<lparr>ac_issuer = [], ac_audience = [], ac_ttl = 0, ac_kms_arn = [], ac_key_id = []\<rparr>"

definition empty_config :: config where
  "empty_config = \<lparr>cf_idps = [], cf_secondary = [], cf_token_store = None, cf_routes = [],
                   cf_policies = [], cf_assertion = empty_assertion\<rparr>"

definition new_loader :: "string \<Rightarrow> bool \<Rightarrow> 'y loader" where
  "new_loader dir callback =
     \<lparr>ld_dir = dir, ld_current = empty_config, ld_has_callback = callback, ld_data = Map.empty\<rparr>"

definition put_data :: "(string \<rightharpoonup> 'y) \<Rightarrow> (string \<times> 'y) list \<Rightarrow> (string \<rightharpoonup> 'y)" where
  "put_data d raws = foldl (\<lambda>m r. m(fst r \<mapsto> snd r)) d raws"

definition load :: "golib \<Rightarrow> 'y config_env \<Rightarrow> 'y loader \<Rightarrow> (goerr + config) \<times> 'y loader" where
  "load G E l =
     (case load_file E (ce_identity E) (valid_identity (ce_is_url E)) (join_path [ld_dir l, ''identity.yaml'']) of
        Inl e \<Rightarrow> (Inl (prefix_err ''identity.yaml: '' e), l)
      | Inr (idc, idraw) \<Rightarrow>
     (case load_file E (ce_routing E) (valid_routing (ce_is_url E)) (join_path [ld_dir l, ''routing.yaml'']) of
        Inl e \<Rightarrow> (Inl (prefix_err ''routing.yaml: '' e), l)
      | Inr (rtc, rtraw) \<Rightarrow>
     (case load_policy_files E (ld_dir l) of
        Inl e \<Rightarrow> (Inl e, l)
      | Inr (files, raws) \<Rightarrow>
          (let merged = deep_merge_policies files in
           case validate_policy_routes G merged (rc_routes rtc) of
             Some e \<Rightarrow> (Inl e, l)
           | None \<Rightarrow>
               (let cfg = \<lparr>cf_idps = ic_providers idc, cf_secondary = ic_secondary idc,
                           cf_token_store = ic_token_store idc, cf_routes = rc_routes rtc,
                           cf_policies = merged, cf_assertion = rc_assertion rtc\<rparr> in
                case validate_secondary_providers G (cf_secondary cfg) of
                  Some e \<Rightarrow> (Inl e, l)
                | None \<Rightarrow>
                    (Inr cfg, l\<lparr>ld_current := cfg,
                       ld_data := put_data (ld_data l) ([(''identity'', idraw), (''routing'', rtraw)] @ raws)\<rparr>))))))"

text \<open>The configuration handed to the callback, if a reload succeeds and there is one.\<close>

definition reload_policies :: "golib \<Rightarrow> 'y config_env \<Rightarrow> 'y loader \<Rightarrow> config option \<times> 'y loader" where
  "reload_policies G E l =
     (case load_policy_files E (ld_dir l) of
        Inl e \<Rightarrow> (None, l)
      | Inr (files, raws) \<Rightarrow>
          (let merged = deep_merge_policies files in
           case validate_policy_routes G merged (cf_routes (ld_current l)) of
             Some e \<Rightarrow> (None, l)
           | None \<Rightarrow>
               (let cfg = (ld_current l)\<lparr>cf_policies := merged\<rparr> in
                (if ld_has_callback l then Some cfg else None,
                 l\<lparr>ld_current := cfg, ld_data := put_data (ld_data l) raws\<rparr>))))"

definition ascii_lower :: "char \<Rightarrow> char" where
  "ascii_lower c = (if 65 \<le> byte c \<and> byte c \<le> 90 then char_of (byte c + 32) else c)"

text \<open>No code point outside ASCII has a lower case among the letters compared with.\<close>

definition is_yaml :: "string \<Rightarrow> bool" where
  "is_yaml name \<longleftrightarrow> map ascii_lower (path_ext name) \<in> set [''.yaml'', ''.yml'']"

text \<open>
  What the watcher's channels deliver; a file event comes with the files as they are when it is
  handled. The list is what arrives before the loop ends; the result is what is passed to the
  callback, in order.
\<close>

record file_ops =
  fo_create :: bool
  fo_write :: bool
  fo_remove :: bool
  fo_rename :: bool

datatype 'y watch_event = FileEvent string file_ops "'y config_env" | WatchError string | EventsClosed | StopWatch

fun watch :: "golib \<Rightarrow> 'y watch_event list \<Rightarrow> 'y loader \<Rightarrow> config list \<times> 'y loader" where
  "watch G [] l = ([], l)"
| "watch G (StopWatch # es) l = ([], l)"
| "watch G (EventsClosed # es) l = ([], l)"
| "watch G (WatchError t # es) l = watch G es l"
| "watch G (FileEvent name ops E # es) l =
     (if \<not> is_yaml name then watch G es l
      else if fo_create ops \<or> fo_write ops \<or> fo_remove ops \<or> fo_rename ops then
        (let (c, l') = reload_policies G E l; (cs, l'') = watch G es l' in
         ((case c of None \<Rightarrow> cs | Some x \<Rightarrow> x # cs), l''))
      else watch G es l)"

definition current :: "'y loader \<Rightarrow> config" where
  "current l = ld_current l"

definition data_snapshot :: "'y loader \<Rightarrow> (string \<rightharpoonup> 'y)" where
  "data_snapshot l = ld_data l"

text \<open>The secrets of the providers already passed stay resolved when a later one fails.\<close>

fun resolve_secrets :: "(string \<Rightarrow> ('w, goerr + string) act) \<Rightarrow> secondary_provider list
    \<Rightarrow> ('w, goerr option \<times> secondary_provider list) act" where
  "resolve_secrets get [] = ret (None, [])"
| "resolve_secrets get (p # ps) =
     State_Monad.bind (get (sp_secret_arn p)) (\<lambda>r. case r of
        Inl e \<Rightarrow> ret (Some (prefix_err (''secondary_providers['' @ sp_name p @ '']: resolve client_secret_arn: '') e), p # ps)
      | Inr s \<Rightarrow> State_Monad.bind (resolve_secrets get ps)
          (\<lambda>(e, ps'). ret (e, p\<lparr>sp_secret := s\<rparr> # ps')))"

definition resolve_secondary_provider_secrets :: "(string \<Rightarrow> ('w, goerr + string) act) \<Rightarrow> 'y loader
    \<Rightarrow> ('w, goerr option \<times> 'y loader) act" where
  "resolve_secondary_provider_secrets get l =
     State_Monad.bind (resolve_secrets get (cf_secondary (ld_current l)))
       (\<lambda>(e, ps). ret (e, l\<lparr>ld_current := (ld_current l)\<lparr>cf_secondary := ps\<rparr>\<rparr>))"

subsection \<open>What a merge keeps\<close>

lemma set_union_tools [simp]: "set (union_tools a b) = set a \<union> set b"
  by (simp add: union_tools_def)

lemma union_tools_sorted: "sorted (union_tools a b) \<and> distinct (union_tools a b)"
  by (simp add: union_tools_def)

text \<open>The patterns of one group over a list of entries.\<close>

definition group_allowed :: "policy_entry list \<Rightarrow> string \<Rightarrow> string set" where
  "group_allowed ps g = (\<Union>p \<in> {p \<in> set ps. pe_group p = g}. set (rs_allowed (pe_scope p)))"

definition group_denied :: "policy_entry list \<Rightarrow> string \<Rightarrow> string set" where
  "group_denied ps g = (\<Union>p \<in> {p \<in> set ps. pe_group p = g}. set (rs_denied (pe_scope p)))"

lemma group_sets_append [simp]:
  "group_allowed (ps @ qs) g = group_allowed ps g \<union> group_allowed qs g"
  "group_denied (ps @ qs) g = group_denied ps g \<union> group_denied qs g"
  by (auto simp: group_allowed_def group_denied_def)

lemma group_sets_Cons:
  "group_allowed (p # ps) g = (if pe_group p = g then set (rs_allowed (pe_scope p)) else {}) \<union> group_allowed ps g"
  "group_denied (p # ps) g = (if pe_group p = g then set (rs_denied (pe_scope p)) else {}) \<union> group_denied ps g"
  by (auto simp: group_allowed_def group_denied_def)

lemma group_sets_Nil [simp]: "group_allowed [] g = {}" "group_denied [] g = {}"
  by (simp_all add: group_allowed_def group_denied_def)

definition merged_ok :: "(string \<times> policy_entry) list \<Rightarrow> bool" where
  "merged_ok m \<longleftrightarrow> map_sorted m \<and> (\<forall>(k, e) \<in> set m. pe_group e = k)"

lemma set_map_put: "set (map_put k v m) \<subseteq> insert (k, v) (set m)"
  by (induction k v m rule: map_put.induct) auto

lemma merge_policy_ok: "merged_ok m \<Longrightarrow> merged_ok (merge_policy m p)"
proof (cases "map_of m (pe_group p)")
  case None
  then show "merged_ok m \<Longrightarrow> merged_ok (merge_policy m p)"
    using set_map_put [of "pe_group p" p m]
    by (fastforce simp: merged_ok_def merge_policy_def map_put_sorted)
next
  case (Some e)
  assume ok: "merged_ok m"
  then have "pe_group e = pe_group p" using map_of_SomeD [OF Some] by (auto simp: merged_ok_def)
  then show "merged_ok (merge_policy m p)"
    using set_map_put [of "pe_group p" "e\<lparr>pe_scope := merge_scope (pe_scope e) (pe_scope p)\<rparr>" m] Some ok
    by (fastforce simp: merged_ok_def merge_policy_def map_put_sorted)
qed

definition entry_sets :: "policy_entry option \<Rightarrow> string set \<times> string set" where
  "entry_sets e = (case e of None \<Rightarrow> ({}, {}) | Some p \<Rightarrow> (set (rs_allowed (pe_scope p)), set (rs_denied (pe_scope p))))"

lemma merge_policy_map:
  assumes "merged_ok m"
  shows "dom (map_of (merge_policy m p)) = insert (pe_group p) (dom (map_of m))"
    and "entry_sets (map_of (merge_policy m p) g) =
      (fst (entry_sets (map_of m g)) \<union> group_allowed [p] g, snd (entry_sets (map_of m g)) \<union> group_denied [p] g)"
proof -
  have s: "map_sorted m" using assms by (simp add: merged_ok_def)
  show "dom (map_of (merge_policy m p)) = insert (pe_group p) (dom (map_of m))"
    by (cases "map_of m (pe_group p)") (auto simp: merge_policy_def map_of_map_put [OF s])
  show "entry_sets (map_of (merge_policy m p) g) =
      (fst (entry_sets (map_of m g)) \<union> group_allowed [p] g, snd (entry_sets (map_of m g)) \<union> group_denied [p] g)"
    by (cases "map_of m (pe_group p)")
      (auto simp: merge_policy_def map_of_map_put [OF s] entry_sets_def group_sets_Cons merge_scope_def)
qed

lemma merge_fold:
  "merged_ok m \<Longrightarrow> merged_ok (foldl merge_policy m ps)
     \<and> dom (map_of (foldl merge_policy m ps)) = dom (map_of m) \<union> pe_group ` set ps
     \<and> entry_sets (map_of (foldl merge_policy m ps) g) =
         (fst (entry_sets (map_of m g)) \<union> group_allowed ps g, snd (entry_sets (map_of m g)) \<union> group_denied ps g)"
proof (induction ps arbitrary: m)
  case Nil
  then show ?case by simp
next
  case (Cons p ps)
  note IH = Cons.IH [OF merge_policy_ok [OF Cons.prems, of p]]
  have sets: "group_allowed (p # ps) g = group_allowed [p] g \<union> group_allowed ps g"
      "group_denied (p # ps) g = group_denied [p] g \<union> group_denied ps g"
    by (simp_all add: group_sets_Cons)
  show ?case
    using IH merge_policy_map [OF Cons.prems, of p] unfolding sets by (auto simp: Un_assoc)
qed

lemma merged_list:
  assumes "merged_ok m"
  shows "map pe_group (map snd m) = map fst m" and "sorted_wrt (<) (map pe_group (map snd m))"
    and "group_allowed (map snd m) g = fst (entry_sets (map_of m g))"
    and "group_denied (map snd m) g = snd (entry_sets (map_of m g))"
proof -
  show g: "map pe_group (map snd m) = map fst m" using assms by (auto simp: merged_ok_def)
  show "sorted_wrt (<) (map pe_group (map snd m))"
    using assms unfolding g by (simp add: merged_ok_def map_sorted_def)
  have d: "distinct (map fst m)" using assms by (simp add: merged_ok_def map_sorted_distinct)
  have one: "{p \<in> set (map snd m). pe_group p = g} = set_option (map_of m g)"
  proof (cases "map_of m g")
    case None
    then have "g \<notin> fst ` set m" by (simp add: map_of_eq_None_iff)
    then show ?thesis using assms None by (force simp: merged_ok_def)
  next
    case (Some e)
    have "p = e" if "(k, p) \<in> set m" "pe_group p = g" for k p
    proof -
      have "k = g" using assms that by (auto simp: merged_ok_def)
      then show ?thesis using that(1) Some d by (metis map_of_eq_Some_iff option.inject)
    qed
    moreover have "(g, e) \<in> set m" "pe_group e = g"
      using map_of_SomeD [OF Some] assms by (auto simp: merged_ok_def)
    ultimately show ?thesis using Some by force
  qed
  show "group_allowed (map snd m) g = fst (entry_sets (map_of m g))"
      "group_denied (map snd m) g = snd (entry_sets (map_of m g))"
    unfolding group_allowed_def group_denied_def one by (simp_all add: entry_sets_def split: option.splits)
qed

text \<open>One entry per group, in order; no group and no pattern lost or invented.\<close>

lemma deep_merge_spec:
  "sorted_wrt (<) (map pe_group (deep_merge_policies files))
     \<and> pe_group ` set (deep_merge_policies files) = pe_group ` set (concat files)
     \<and> group_allowed (deep_merge_policies files) g = group_allowed (concat files) g
     \<and> group_denied (deep_merge_policies files) g = group_denied (concat files) g"
proof -
  let ?m = "foldl merge_policy [] (concat files)"
  have "merged_ok []" by (simp add: merged_ok_def)
  note fold = merge_fold [OF this, of "concat files"]
  then have ok: "merged_ok ?m" by simp
  have "pe_group ` set (map snd ?m) = set (map pe_group (map snd ?m))" by (simp add: image_comp)
  also have "\<dots> = dom (map_of ?m)" unfolding merged_list(1) [OF ok] by (simp add: dom_map_of_conv_image_fst)
  finally have "pe_group ` set (map snd ?m) = pe_group ` set (concat files)" using fold [of g] by simp
  then show ?thesis
    using merged_list [OF ok] fold [of g] by (simp add: deep_merge_policies_def entry_sets_def)
qed

subsection \<open>The check across files\<close>

lemma check_patterns_None: "check_patterns G p prefixes xs = None \<longleftrightarrow> (\<forall>x \<in> set xs. tool_prefix x \<in> set prefixes)"
  by (induction xs) auto

lemma validate_policy_routes_None:
  "validate_policy_routes G ps routes = None \<longleftrightarrow>
     (\<forall>p \<in> set ps. \<forall>x \<in> set (rs_allowed (pe_scope p)) \<union> set (rs_denied (pe_scope p)).
        tool_prefix x \<in> rt_prefix ` set routes)"
  by (induction ps) (auto simp: check_patterns_None option.case_eq_if)

lemma validate_secondary_None:
  "validate_secondary G seen ps = None \<longleftrightarrow> distinct (map sp_name ps) \<and> set (map sp_name ps) \<inter> set seen = {}"
  by (induction ps arbitrary: seen) auto

lemma validate_secondary_providers_None:
  "validate_secondary_providers G ps = None \<longleftrightarrow> distinct (map sp_name ps)"
  by (simp add: validate_secondary_providers_def validate_secondary_None)

subsection \<open>A loaded configuration stays valid\<close>

text \<open>
  Every struct tag \<open>loadFile\<close> checks, except that texts are URLs (which depends on the validator
  of the moment), every pattern names a route, provider names are distinct, and the policies are
  one entry per group in order.
\<close>

definition tags_ok :: "config \<Rightarrow> bool" where
  "tags_ok c \<longleftrightarrow>
     valid_identity (\<lambda>_. True) \<lparr>ic_providers = cf_idps c, ic_secondary = cf_secondary c, ic_token_store = cf_token_store c\<rparr>
       \<and> valid_routing (\<lambda>_. True) \<lparr>rc_routes = cf_routes c, rc_assertion = cf_assertion c\<rparr>
       \<and> list_all valid_policy (cf_policies c)"

lemma valid_identity_tags: "valid_identity is_url c \<Longrightarrow> valid_identity (\<lambda>_. True) c"
  by (auto simp: valid_identity_def valid_secondary_def list_all_iff)

lemma valid_routing_tags: "valid_routing is_url c \<Longrightarrow> valid_routing (\<lambda>_. True) c"
  by (auto simp: valid_routing_def valid_route_def valid_assertion_def list_all_iff)

lemma load_file_valid: "load_file E decode valid path = Inr (typed, raw) \<Longrightarrow> valid typed"
  by (auto simp: load_file_def split: sum.splits if_splits)

lemma load_policy_list_valid: "load_policy_list E fs = Inr (files, raws) \<Longrightarrow> list_all valid_policy (concat files)"
proof (induction fs arbitrary: files raws)
  case (Cons f fs)
  then obtain typed raw rest raws' where "load_file E (ce_policies E) valid_policy_file f = Inr (typed, raw)"
      "load_policy_list E fs = Inr (rest, raws')" "files = typed # rest"
    by (auto split: sum.splits prod.splits)
  then show ?case using Cons.IH load_file_valid [of E "ce_policies E" valid_policy_file f typed raw]
    by (auto simp: valid_policy_file_def)
qed simp

lemma load_policy_files_valid: "load_policy_files E dir = Inr (files, raws) \<Longrightarrow> list_all valid_policy (concat files)"
  using load_policy_list_valid by (auto simp: load_policy_files_def split: sum.splits)

text \<open>Merging keeps the tags: a merged entry has the group of one entry and at least its patterns.\<close>

definition entries_valid :: "(string \<times> policy_entry) list \<Rightarrow> bool" where
  "entries_valid m \<longleftrightarrow> (\<forall>(k, e) \<in> set m. valid_policy e)"

lemma union_tools_Nil [simp]: "union_tools a b = [] \<longleftrightarrow> a = [] \<and> b = []"
  by (metis append_is_Nil_conv remdups_eq_nil_iff set_empty set_sort sort_key_simps(1) union_tools_def)

lemma merge_policy_valid: "entries_valid m \<Longrightarrow> valid_policy p \<Longrightarrow> entries_valid (merge_policy m p)"
proof (cases "map_of m (pe_group p)")
  case None
  then show "entries_valid m \<Longrightarrow> valid_policy p \<Longrightarrow> entries_valid (merge_policy m p)"
    using set_map_put [of "pe_group p" p m] by (fastforce simp: entries_valid_def merge_policy_def)
next
  case (Some e)
  let ?e = "e\<lparr>pe_scope := merge_scope (pe_scope e) (pe_scope p)\<rparr>"
  assume m: "entries_valid m" and p: "valid_policy p"
  then have "valid_policy e" using map_of_SomeD [OF Some] by (auto simp: entries_valid_def)
  then have "valid_policy ?e" by (simp add: valid_policy_def merge_scope_def)
  then show "entries_valid (merge_policy m p)"
    using set_map_put [of "pe_group p" ?e m] Some m by (fastforce simp: entries_valid_def merge_policy_def)
qed

lemma merge_fold_valid: "entries_valid m \<Longrightarrow> list_all valid_policy ps \<Longrightarrow> entries_valid (foldl merge_policy m ps)"
  by (induction ps arbitrary: m) (simp_all add: merge_policy_valid)

lemma deep_merge_valid: "list_all valid_policy (concat files) \<Longrightarrow> list_all valid_policy (deep_merge_policies files)"
  using merge_fold_valid [of "[]" "concat files"]
  by (fastforce simp: deep_merge_policies_def entries_valid_def list_all_iff)

definition config_ok :: "golib \<Rightarrow> config \<Rightarrow> bool" where
  "config_ok G c \<longleftrightarrow>
     tags_ok c \<and> validate_policy_routes G (cf_policies c) (cf_routes c) = None \<and> distinct (map sp_name (cf_secondary c))
       \<and> sorted_wrt (<) (map pe_group (cf_policies c))"

lemma load_ok:
  assumes "load G E l = (Inr cfg, l')"
  shows "config_ok G cfg \<and> ld_current l' = cfg \<and> ld_dir l' = ld_dir l"
proof -
  from assms obtain idc idraw rtc rtraw files raws where
    idc: "load_file E (ce_identity E) (valid_identity (ce_is_url E)) (join_path [ld_dir l, ''identity.yaml'']) = Inr (idc, idraw)"
    and rtc: "load_file E (ce_routing E) (valid_routing (ce_is_url E)) (join_path [ld_dir l, ''routing.yaml'']) = Inr (rtc, rtraw)"
    and pol: "load_policy_files E (ld_dir l) = Inr (files, raws)"
    and rts: "validate_policy_routes G (deep_merge_policies files) (rc_routes rtc) = None"
    and sec: "validate_secondary_providers G (ic_secondary idc) = None"
    and cfg: "cfg = \<lparr>cf_idps = ic_providers idc, cf_secondary = ic_secondary idc, cf_token_store = ic_token_store idc,
        cf_routes = rc_routes rtc, cf_policies = deep_merge_policies files, cf_assertion = rc_assertion rtc\<rparr>"
    and l': "ld_current l' = cfg" "ld_dir l' = ld_dir l"
    by (auto simp: load_def Let_def split: sum.splits prod.splits option.splits)
  have "tags_ok cfg"
    using valid_identity_tags [OF load_file_valid [OF idc]] valid_routing_tags [OF load_file_valid [OF rtc]]
      deep_merge_valid [OF load_policy_files_valid [OF pol]] by (simp add: tags_ok_def cfg valid_identity_def valid_routing_def)
  then show ?thesis
    using rts sec deep_merge_spec [of files] by (simp add: config_ok_def cfg validate_secondary_providers_None l')
qed

lemma load_failed: "load G E l = (Inl e, l') \<Longrightarrow> l' = l"
  by (auto simp: load_def Let_def split: sum.splits prod.splits option.splits)

lemma reload_cases:
  assumes "reload_policies G E l = (c, l')"
  obtains (kept) "l' = l" and "c = None"
  | (swapped) ps where "ld_current l' = (ld_current l)\<lparr>cf_policies := ps\<rparr>"
      and "c = (if ld_has_callback l then Some (ld_current l') else None)"
      and "validate_policy_routes G ps (cf_routes (ld_current l)) = None"
      and "sorted_wrt (<) (map pe_group ps)" and "list_all valid_policy ps" and "ld_dir l' = ld_dir l" and "ld_has_callback l' = ld_has_callback l"
proof (cases "load_policy_files E (ld_dir l)")
  case (Inl e)
  then show ?thesis using assms by (intro kept) (auto simp: reload_policies_def)
next
  case (Inr r)
  obtain files raws where r: "r = (files, raws)" by (cases r)
  let ?ps = "deep_merge_policies files"
  show ?thesis
  proof (cases "validate_policy_routes G ?ps (cf_routes (ld_current l))")
    case (Some e)
    then show ?thesis using assms Inr r by (intro kept) (auto simp: reload_policies_def Let_def)
  next
    case None
    then have l': "l' = l\<lparr>ld_current := (ld_current l)\<lparr>cf_policies := ?ps\<rparr>, ld_data := put_data (ld_data l) raws\<rparr>"
      and c: "c = (if ld_has_callback l then Some ((ld_current l)\<lparr>cf_policies := ?ps\<rparr>) else None)"
      using assms Inr r by (simp_all add: reload_policies_def Let_def)
    show ?thesis
      by (rule swapped [of ?ps])
        (use None deep_merge_spec [of files] deep_merge_valid [OF load_policy_files_valid] Inr r l' c in simp_all)
  qed
qed

lemma reload_ok:
  assumes "reload_policies G E l = (c, l')" and "config_ok G (ld_current l)"
  shows "config_ok G (ld_current l')"
proof -
  from assms(1) show "config_ok G (ld_current l')"
    by (cases rule: reload_cases) (use assms(2) in \<open>auto simp: config_ok_def tags_ok_def\<close>)
qed

text \<open>Whatever files come and go, the watcher changes the policies only, and only to valid ones.\<close>

lemma watch_FileEvent:
  "watch G (FileEvent name ops E # es) l =
     (if is_yaml name \<and> (fo_create ops \<or> fo_write ops \<or> fo_remove ops \<or> fo_rename ops) then
        ((case fst (reload_policies G E l) of None \<Rightarrow> [] | Some x \<Rightarrow> [x])
           @ fst (watch G es (snd (reload_policies G E l))),
         snd (watch G es (snd (reload_policies G E l))))
      else watch G es l)"
  by (auto simp: Let_def split: prod.splits option.splits)

definition same_but_policies :: "config \<Rightarrow> config \<Rightarrow> bool" where
  "same_but_policies c d \<longleftrightarrow> c\<lparr>cf_policies := []\<rparr> = d\<lparr>cf_policies := []\<rparr>"

lemma reload_same: "same_but_policies (ld_current (snd (reload_policies G E l))) (ld_current l)"
proof -
  obtain c l' where r: "reload_policies G E l = (c, l')" by fastforce
  then show ?thesis by (cases rule: reload_cases) (use r in \<open>simp_all add: same_but_policies_def\<close>)
qed

lemma reload_snd_ok:
  assumes "config_ok G (ld_current l)"
  shows "config_ok G (ld_current (snd (reload_policies G E l)))"
    and "fst (reload_policies G E l) = Some c \<Longrightarrow> config_ok G c"
proof -
  obtain d l' where r: "reload_policies G E l = (d, l')" by fastforce
  show 1: "config_ok G (ld_current (snd (reload_policies G E l)))"
    using reload_ok(1) [OF r assms] r by simp
  show "fst (reload_policies G E l) = Some c \<Longrightarrow> config_ok G c"
    using r by (cases rule: reload_cases) (use 1 r in \<open>auto split: if_splits\<close>)
qed

lemma watch_ok:
  "config_ok G (ld_current l) \<Longrightarrow>
     config_ok G (ld_current (snd (watch G es l))) \<and> (\<forall>c \<in> set (fst (watch G es l)). config_ok G c)
       \<and> same_but_policies (ld_current (snd (watch G es l))) (ld_current l)"
proof (induction es arbitrary: l)
  case Nil
  then show ?case by (simp add: same_but_policies_def)
next
  case (Cons e es)
  show ?case
  proof (cases e)
    case (FileEvent name ops E)
    let ?l = "snd (reload_policies G E l)"
    note ok = reload_snd_ok [OF Cons.prems, of E]
    show ?thesis
      using Cons.IH [OF Cons.prems] Cons.IH [OF ok(1)] ok(2) reload_same [of G E l]
      unfolding FileEvent watch_FileEvent
      by (auto simp: same_but_policies_def split: option.splits)
  next
    case (WatchError t)
    then show ?thesis using Cons by simp
  qed (use Cons.prems in \<open>simp_all add: same_but_policies_def\<close>)
qed

subsection \<open>Properties of the loader\<close>

text \<open>
  C13: No sequence of file events makes the configuration invalid. Starting from a configuration
  that a load accepted, whatever the watcher sees, every configuration it installs or hands to
  the callback passes the loader's checks (struct tags, patterns that name routes, distinct
  providers, groups merged and sorted), and it changes nothing but the policies.
\<close>

theorem hot_reload_keeps_config_valid:
  assumes "load G E l0 = (Inr cfg, l)"
  shows "config_ok G (ld_current (snd (watch G es l)))
    \<and> (\<forall>c \<in> set (fst (watch G es l)). config_ok G c)
    \<and> same_but_policies (ld_current (snd (watch G es l))) cfg"
  using watch_ok [of G l es] load_ok [OF assms] by simp


definition demo_idp :: idp_config where
  "demo_idp = \<lparr>ip_name = ''idp'', ip_type = ''oidc'', ip_discovery = ''https://idp'', ip_jwks = ''https://idp/jwks'',
     ip_client_id = ''abaris'', ip_audience = [], ip_groups_claim = [], ip_metadata = [], ip_sp_entity = [], ip_acs = [],
     ip_cert = [], ip_key = []\<rparr>"

definition demo_config_env :: "string list \<Rightarrow> unit config_env" where
  "demo_config_env files =
     \<lparr>ce_read = Inr, ce_glob = (\<lambda>_. Inr files),
      ce_identity = (\<lambda>_. Inr \<lparr>ic_providers = [demo_idp], ic_secondary = [], ic_token_store = None\<rparr>),
      ce_routing = (\<lambda>_. Inr \<lparr>rc_routes = [\<lparr>rt_prefix = ''github'', rt_backend = ''http://github'', rt_obo = [], rt_transport = []\<rparr>],
         rc_assertion = \<lparr>ac_issuer = ''https://abaris'', ac_audience = ''backend'', ac_ttl = 60, ac_kms_arn = ''arn'', ac_key_id = []\<rparr>\<rparr>),
      ce_policies = (\<lambda>f. Inr [\<lparr>pe_group = f, pe_scope = \<lparr>rs_allowed = [''github/*''], rs_denied = []\<rparr>\<rparr>]),
      ce_raw = (\<lambda>_. Inr ()), ce_is_url = (\<lambda>_. True), ce_invalid = ''invalid''\<rparr>"

lemma demo_load: "\<exists>cfg l. load golib0 (demo_config_env [''ops'', ''dev'']) (new_loader ''/c'' True) = (Inr cfg, l)"
  by (simp add: load_def load_file_def demo_config_env_def valid_identity_def valid_idp_def demo_idp_def
      valid_routing_def valid_route_def valid_assertion_def load_policy_files_def valid_policy_file_def valid_policy_def
      deep_merge_policies_def merge_policy_def tool_prefix_takeWhile validate_secondary_providers_def Let_def)

theorem hot_reload_keeps_config_valid_witness:
  "\<exists>cfg l. load golib0 (demo_config_env [''ops'', ''dev'']) (new_loader ''/c'' True) = (Inr cfg, l)
     \<and> config_ok golib0 (ld_current (snd (watch golib0
          [FileEvent ''a.yaml'' \<lparr>fo_create = False, fo_write = True, fo_remove = False, fo_rename = False\<rparr> (demo_config_env [''qa''])] l)))"
  using demo_load hot_reload_keeps_config_valid by blast

end
