(* ===== verification/Identity.thy ===== *)
theory Identity
  imports Backends
begin

section \<open>Identity (\<^verbatim>\<open>internal/auth/multi.go\<close>, \<^verbatim>\<open>oidc/adapter.go\<close>, \<^verbatim>\<open>saml/adapter.go\<close>)\<close>

text \<open>
  The verification of a token (\<^verbatim>\<open>zitadel/oidc\<close>), the validation of an assertion
  (\<^verbatim>\<open>crewjam/saml\<close>) and the cache (\<^verbatim>\<open>ttlcache\<close>) are libraries: parameters, with
  what the code relies on of the cache stated in the locale \<open>cache_laws\<close>.
\<close>

record 'w id_cache =
  ch_get :: "string \<Rightarrow> ('w, identity option) act"
  ch_set :: "string \<Rightarrow> identity \<Rightarrow> ('w, unit) act"

text \<open>The steps both adapters share: look the credential up, else check it and keep the result.\<close>

definition cached_resolve :: "'w id_cache \<Rightarrow> ('w, goerr + identity) act \<Rightarrow> string \<Rightarrow> ('w, goerr + identity) act" where
  "cached_resolve cache check k =
     State_Monad.bind (ch_get cache k) (\<lambda>hit. case hit of
        Some i \<Rightarrow> ret (Inr i)
      | None \<Rightarrow> State_Monad.bind check (\<lambda>r. case r of
          Inl e \<Rightarrow> ret (Inl e)
        | Inr i \<Rightarrow> State_Monad.bind (ch_set cache k i) (\<lambda>_. ret (Inr i))))"

subsection \<open>OpenID Connect\<close>

record id_claims =
  ic_subject :: string
  ic_email :: string
  ic_claims :: "(string \<times> goval) list"

record 'w oidc =
  od_name :: string
  od_verify :: "string \<Rightarrow> ('w, string + id_claims) act"
  od_groups_claim :: string
  od_cache :: "'w id_cache"

record oidc_config =
  og_name :: string
  og_issuer :: string
  og_jwks :: string
  og_client_id :: string
  og_audience :: string
  og_groups_claim :: string
  og_cache_ttl :: int

definition default_cache_ttl :: int where
  "default_cache_ttl = 5 * 60 * 1000000000"

text \<open>\<open>verifier issuer audience jwks\<close> and \<open>cache ttl\<close> are the library's constructors.\<close>

definition new_oidc :: "(string \<Rightarrow> string \<Rightarrow> string \<Rightarrow> string \<Rightarrow> ('w, string + id_claims) act) \<Rightarrow> (int \<Rightarrow> 'w id_cache)
    \<Rightarrow> oidc_config \<Rightarrow> goerr + 'w oidc" where
  "new_oidc verifier cache cfg =
     (if og_name cfg = [] then Inl (plain_err ''oidc: provider name is required'')
      else if og_issuer cfg = [] then Inl (plain_err ''oidc: issuer is required'')
      else if og_jwks cfg = [] then Inl (plain_err ''oidc: JWKS URL is required'')
      else if og_client_id cfg = [] then Inl (plain_err ''oidc: client ID is required'')
      else Inr \<lparr>od_name = og_name cfg,
                od_verify = verifier (og_issuer cfg)
                  (if og_audience cfg \<noteq> [] then og_audience cfg else og_client_id cfg) (og_jwks cfg),
                od_groups_claim = (if og_groups_claim cfg = [] then ''groups'' else og_groups_claim cfg),
                od_cache = cache (if og_cache_ttl cfg = 0 then default_cache_ttl else og_cache_ttl cfg)\<rparr>)"

definition is_service_unavailable :: "string \<Rightarrow> bool" where
  "is_service_unavailable msg \<longleftrightarrow>
     contains msg ''connection refused'' \<or> contains msg ''no such host'' \<or> contains msg ''dial tcp''
       \<or> contains msg ''i/o timeout''"

text \<open>A claim decoded from JSON is never a Go \<open>[]string\<close>, so that case does not arise.\<close>

fun only_strings :: "goval list \<Rightarrow> string list" where
  "only_strings [] = []"
| "only_strings (GStr s # vs) = s # only_strings vs"
| "only_strings (_ # vs) = only_strings vs"

definition to_string_slice :: "goval \<Rightarrow> string list" where
  "to_string_slice v =
     (case v of GArr vs \<Rightarrow> only_strings vs | GStr s \<Rightarrow> if s = [] then [] else [s] | _ \<Rightarrow> [])"

definition normalize_claims :: "'w oidc \<Rightarrow> id_claims \<Rightarrow> identity" where
  "normalize_claims a c =
     \<lparr>id_user = ic_subject c, id_email = ic_email c,
      id_groups = (case map_of (ic_claims c) (od_groups_claim a) of None \<Rightarrow> [] | Some v \<Rightarrow> to_string_slice v),
      id_entitlements = (case map_of (ic_claims c) ''entitlements'' of None \<Rightarrow> [] | Some v \<Rightarrow> to_string_slice v),
      id_provider = od_name a\<rparr>"

definition oidc_check :: "'w oidc \<Rightarrow> string \<Rightarrow> ('w, goerr + identity) act" where
  "oidc_check a token =
     State_Monad.bind (od_verify a token) (\<lambda>r. ret (case r of
        Inl t \<Rightarrow> Inl (wrap_err (if is_service_unavailable t then ErrServiceUnavailable else ErrUnauthorized) t)
      | Inr claims \<Rightarrow> Inr (normalize_claims a claims)))"

definition oidc_resolve :: "'w oidc \<Rightarrow> 'w identity_service" where
  "oidc_resolve a c =
     (case bearer_token_from_context c of
        None \<Rightarrow> ret (Inl (bare_err ErrUnauthenticated))
      | Some token \<Rightarrow>
          if trim_space token = [] then ret (Inl (bare_err ErrUnauthenticated))
          else cached_resolve (od_cache a) (oidc_check a token) token)"

subsection \<open>SAML\<close>

text \<open>An assertion: the subject's name, and per statement the attributes with their values.\<close>

record saml_assertion =
  sa_name_id :: "string option"
  sa_statements :: "(string \<times> string list) list list"

record 'w saml =
  sm_name :: string
  sm_parse :: "string \<Rightarrow> ('w, string + saml_assertion) act"
  sm_cache :: "'w id_cache"

text \<open>
  \<open>strings.ToLower\<close> as far as a comparison with ASCII text can see: the two code points above
  ASCII that lower to ASCII letters are U+0130 and U+212A.
\<close>

definition lower_ascii :: "char \<Rightarrow> char" where
  "lower_ascii c = (if 65 \<le> byte c \<and> byte c \<le> 90 then char_of (byte c + 32) else c)"

function lower_name :: "string \<Rightarrow> string" where
  "lower_name s =
     (case s of
        [] \<Rightarrow> []
      | c # r \<Rightarrow>
          if has_prefix s [CHR 0xC4, CHR 0xB0] then CHR ''i'' # lower_name (drop 2 s)
          else if has_prefix s [CHR 0xE2, CHR 0x84, CHR 0xAA] then CHR ''k'' # lower_name (drop 3 s)
          else lower_ascii c # lower_name r)"
  by pat_completeness auto
termination
  by (relation "measure length") auto

declare lower_name.simps [simp del]

definition attribute_values :: "string list \<Rightarrow> string list" where
  "attribute_values vs = filter (\<lambda>s. s \<noteq> []) (map trim_space vs)"

definition email_names :: "string list" where
  "email_names = [''email'', ''emailaddress'', ''http://schemas.xmlsoap.org/ws/2005/05/identity/claims/emailaddress'']"

definition group_names :: "string list" where
  "group_names = [''groups'', ''group'', ''http://schemas.microsoft.com/ws/2008/06/identity/claims/groups'',
                  ''http://schemas.xmlsoap.org/claims/group'']"

definition entitlement_names :: "string list" where
  "entitlement_names = [''entitlements'', ''entitlement'']"

definition add_attribute :: "identity \<Rightarrow> string \<times> string list \<Rightarrow> identity" where
  "add_attribute i attr =
     (let vs = attribute_values (snd attr); n = lower_name (fst attr) in
      if n \<in> set email_names then (if vs = [] then i else i\<lparr>id_email := hd vs\<rparr>)
      else if n \<in> set group_names then i\<lparr>id_groups := id_groups i @ vs\<rparr>
      else if n \<in> set entitlement_names then i\<lparr>id_entitlements := id_entitlements i @ vs\<rparr>
      else i)"

definition normalize_assertion :: "'w saml \<Rightarrow> saml_assertion \<Rightarrow> identity" where
  "normalize_assertion a x =
     foldl (foldl add_attribute)
       \<lparr>id_user = (case sa_name_id x of None \<Rightarrow> [] | Some n \<Rightarrow> n), id_email = [], id_groups = [],
        id_entitlements = [], id_provider = sm_name a\<rparr>
       (sa_statements x)"

definition saml_check :: "'w saml \<Rightarrow> string \<Rightarrow> ('w, goerr + identity) act" where
  "saml_check a xml =
     State_Monad.bind (sm_parse a xml) (\<lambda>r. ret (case r of
        Inl t \<Rightarrow> Inl (wrap_err ErrUnauthorized t)
      | Inr x \<Rightarrow> Inr (normalize_assertion a x)))"

definition saml_resolve :: "'w saml \<Rightarrow> 'w identity_service" where
  "saml_resolve a c =
     (case saml_assertion_from_context c of
        None \<Rightarrow> ret (Inl (bare_err ErrUnauthenticated))
      | Some xml \<Rightarrow>
          if trim_space xml = [] then ret (Inl (bare_err ErrUnauthenticated))
          else cached_resolve (sm_cache a) (saml_check a xml) xml)"

text \<open>
  Construction. \<open>'m\<close> is the type of the identity provider's parsed metadata, \<open>'k\<close> of a private
  key, \<open>'x\<close> of a parsed certificate; a key pair read from files is the key, when it is RSA, and
  the encoded certificates.
\<close>

record saml_config =
  sc_name :: string
  sc_metadata_url :: string
  sc_sp_entity :: string
  sc_acs :: string
  sc_cert_path :: string
  sc_key_path :: string
  sc_cache_ttl :: int

record ('m, 'k, 'x) service_provider =
  sv_entity :: string
  sv_acs :: string
  sv_idp :: 'm
  sv_key :: "'k option"
  sv_cert :: "'x option"

record ('w, 'm, 'k, 'x) saml_lib =
  sl_key_pair :: "string \<Rightarrow> string \<Rightarrow> string + ('k option \<times> bytes list)"
  sl_parse_cert :: "bytes \<Rightarrow> string + 'x"
  sl_http_get :: "string \<Rightarrow> ('w, string + http_response) act"
  sl_parse_metadata :: "bytes \<Rightarrow> string + 'm"
  sl_parse_url :: "string \<Rightarrow> string option"
  sl_provider :: "('m, 'k, 'x) service_provider \<Rightarrow> string \<Rightarrow> ('w, string + saml_assertion) act"
  sl_cache :: "int \<Rightarrow> 'w id_cache"

definition fetch_idp_metadata :: "('w, 'm, 'k, 'x) saml_lib \<Rightarrow> string \<Rightarrow> ('w, goerr + 'm) act" where
  "fetch_idp_metadata S url =
     State_Monad.bind (sl_http_get S url) (\<lambda>r. ret (case r of
        Inl t \<Rightarrow> Inl (wrap_err ErrServiceUnavailable t)
      | Inr resp \<Rightarrow>
          if hr_status resp \<noteq> 200 then
            Inl (wrap_err ErrServiceUnavailable (''IdP metadata returned HTTP '' @ show_int (hr_status resp)))
          else (case read_all (hr_body resp) of
              Inl t \<Rightarrow> Inl (plain_err (''read IdP metadata body: '' @ t))
            | Inr body \<Rightarrow> (case sl_parse_metadata S body of
                Inl t \<Rightarrow> Inl (plain_err (''parse IdP metadata XML: '' @ t))
              | Inr m \<Rightarrow> Inr m))))"

text \<open>The key and the certificate of the service provider, from the pair that was loaded.\<close>

definition sp_credentials :: "('w, 'm, 'k, 'x) saml_lib \<Rightarrow> ('k option \<times> bytes list) option
    \<Rightarrow> goerr + ('k option \<times> 'x option)" where
  "sp_credentials S pair =
     (case pair of
        None \<Rightarrow> Inr (None, None)
      | Some (None, certs) \<Rightarrow> Inl (plain_err ''saml: SP private key must be RSA'')
      | Some (Some k, []) \<Rightarrow> Inr (Some k, None)
      | Some (Some k, c # cs) \<Rightarrow> (case sl_parse_cert S c of
          Inl t \<Rightarrow> Inl (plain_err (''saml: parse SP certificate: '' @ t))
        | Inr x \<Rightarrow> Inr (Some k, Some x)))"

definition new_saml :: "('w, 'm, 'k, 'x) saml_lib \<Rightarrow> saml_config \<Rightarrow> ('w, goerr + 'w saml) act" where
  "new_saml S cfg =
     (if sc_name cfg = [] then ret (Inl (plain_err ''saml: provider name is required''))
      else if sc_metadata_url cfg = [] then ret (Inl (plain_err ''saml: metadata URL is required''))
      else if sc_sp_entity cfg = [] then ret (Inl (plain_err ''saml: SP entity ID is required''))
      else if sc_acs cfg = [] then ret (Inl (plain_err ''saml: ACS URL is required''))
      else (case (if sc_cert_path cfg \<noteq> [] \<and> sc_key_path cfg \<noteq> []
                  then map_sum id Some (sl_key_pair S (sc_cert_path cfg) (sc_key_path cfg)) else Inr None) of
          Inl t \<Rightarrow> ret (Inl (plain_err (''saml: load SP key pair: '' @ t)))
        | Inr pair \<Rightarrow> State_Monad.bind (fetch_idp_metadata S (sc_metadata_url cfg)) (\<lambda>r. ret (case r of
            Inl e \<Rightarrow> Inl (prefix_err (''saml: fetch IdP metadata from '' @ sc_metadata_url cfg @ '': '') e)
          | Inr m \<Rightarrow>
              (case sl_parse_url S (sc_sp_entity cfg) of
                 Some t \<Rightarrow> Inl (plain_err (''saml: parse SP entity ID as URL: '' @ t))
               | None \<Rightarrow> (case sl_parse_url S (sc_acs cfg) of
                 Some t \<Rightarrow> Inl (plain_err (''saml: parse ACS URL: '' @ t))
               | None \<Rightarrow> (case sp_credentials S pair of
                 Inl e \<Rightarrow> Inl e
               | Inr (k, x) \<Rightarrow> Inr \<lparr>sm_name = sc_name cfg,
                   sm_parse = sl_provider S \<lparr>sv_entity = sc_sp_entity cfg, sv_acs = sc_acs cfg, sv_idp = m,
                     sv_key = k, sv_cert = x\<rparr>,
                   sm_cache = sl_cache S (if sc_cache_ttl cfg = 0 then default_cache_ttl
                     else sc_cache_ttl cfg)\<rparr>))))))) "

subsection \<open>Dispatch over several providers\<close>

text \<open>The two Go maps are association lists with distinct keys.\<close>

record 'w multi =
  mu_oidc :: "(string \<times> 'w identity_service) list"
  mu_saml :: "(string \<times> 'w identity_service) list"

definition new_multi :: "(string \<times> 'w identity_service) list \<Rightarrow> (string \<times> 'w identity_service) list
    \<Rightarrow> goerr + 'w multi" where
  "new_multi oidc saml =
     (if length oidc + length saml = 0
      then Inl (plain_err ''auth: at least one identity provider adapter is required'')
      else Inr \<lparr>mu_oidc = oidc, mu_saml = saml\<rparr>)"

definition jwt_issuer_from_token :: "string \<Rightarrow> string option" where
  "jwt_issuer_from_token token =
     (case jwt_claim ''iss'' token of
        None \<Rightarrow> None
      | Some i \<Rightarrow> if i = [] then None else Some i)"

text \<open>The text between \<open>open\<close> and the next \<open>close\<close> after its start; both markers are searched by bytes.\<close>

definition text_between :: "string \<Rightarrow> string \<Rightarrow> string \<Rightarrow> string option" where
  "text_between opening closing s =
     (case index_str s opening of
        None \<Rightarrow> None
      | Some start \<Rightarrow> (case index_str (drop start s) closing of
          None \<Rightarrow> None
        | Some stop \<Rightarrow> Some (drop (length opening) (take stop (drop start s)))))"

definition saml_issuer_from_xml :: "string \<Rightarrow> string option" where
  "saml_issuer_from_xml xml =
     (case text_between ''<Issuer>'' ''</Issuer>'' xml of
        Some t \<Rightarrow> Some (trim_space t)
      | None \<Rightarrow> map_option trim_space (text_between '':Issuer>'' ''</'' xml))"

definition resolve_assertion :: "golib \<Rightarrow> 'w multi \<Rightarrow> 'w ctx \<Rightarrow> string \<Rightarrow> ('w, goerr + identity) act" where
  "resolve_assertion G m c xml =
     (case saml_issuer_from_xml xml of
        None \<Rightarrow> ret (Inl (wrap_err ErrUnauthorized ''could not extract SAML issuer''))
      | Some issuer \<Rightarrow> (case map_of (mu_saml m) issuer of
          None \<Rightarrow> ret (Inl (wrap_err ErrUnauthorized
                    (''no SAML provider registered for issuer '' @ go_quote (gl_printable G) issuer)))
        | Some adapter \<Rightarrow> adapter c))"

definition resolve_token :: "golib \<Rightarrow> 'w multi \<Rightarrow> 'w ctx \<Rightarrow> string \<Rightarrow> ('w, goerr + identity) act" where
  "resolve_token G m c token =
     (case jwt_issuer_from_token token of
        Some issuer \<Rightarrow> (case map_of (mu_oidc m) issuer of
          None \<Rightarrow> ret (Inl (wrap_err ErrUnauthorized
                    (''no OIDC provider registered for issuer '' @ go_quote (gl_printable G) issuer)))
        | Some adapter \<Rightarrow> adapter c)
      | None \<Rightarrow> (case mu_oidc m of
          [(k, adapter)] \<Rightarrow> adapter c
        | _ \<Rightarrow> ret (Inl (wrap_err ErrUnauthorized ''could not determine OIDC provider from token''))))"

definition multi_resolve :: "golib \<Rightarrow> 'w multi \<Rightarrow> 'w identity_service" where
  "multi_resolve G m c =
     (let xml = (case saml_assertion_from_context c of Some x \<Rightarrow> x | None \<Rightarrow> []);
          token = (case bearer_token_from_context c of Some t \<Rightarrow> t | None \<Rightarrow> []) in
      if trim_space xml \<noteq> [] then resolve_assertion G m c xml
      else if trim_space token \<noteq> [] then resolve_token G m c token
      else ret (Inl (bare_err ErrUnauthenticated)))"

lemma trim_space_Nil [simp]: "trim_space [] = []"
  by (simp add: trim_space_def)

subsection \<open>Which adapter answers\<close>

lemma multi_resolve_nothing:
  assumes "cx_saml c = None \<or> trim_space (the (cx_saml c)) = []"
    and "cx_bearer c = None \<or> trim_space (the (cx_bearer c)) = []"
  shows "run (multi_resolve G m c) w = (Inl (bare_err ErrUnauthenticated), w)"
  using assms
  by (auto simp: multi_resolve_def ctx_defs run_result_after split: option.splits)

lemma multi_resolve_token:
  assumes "cx_saml c = None" and "cx_bearer c = Some token" and "trim_space token \<noteq> []"
    and "jwt_issuer_from_token token = Some issuer"
  shows "multi_resolve G m c =
    (case map_of (mu_oidc m) issuer of
       None \<Rightarrow> ret (Inl (wrap_err ErrUnauthorized
                 (''no OIDC provider registered for issuer '' @ go_quote (gl_printable G) issuer)))
     | Some adapter \<Rightarrow> adapter c)"
  using assms by (simp add: multi_resolve_def resolve_token_def ctx_defs)

lemma multi_resolve_assertion:
  assumes "cx_saml c = Some xml" and "trim_space xml \<noteq> []" and "saml_issuer_from_xml xml = Some issuer"
  shows "multi_resolve G m c =
    (case map_of (mu_saml m) issuer of
       None \<Rightarrow> ret (Inl (wrap_err ErrUnauthorized
                 (''no SAML provider registered for issuer '' @ go_quote (gl_printable G) issuer)))
     | Some adapter \<Rightarrow> adapter c)"
  using assms by (simp add: multi_resolve_def resolve_assertion_def ctx_defs)

text \<open>An identity comes from a registered adapter, asked with the caller's own context.\<close>

lemma resolve_token_registered:
  assumes "result (resolve_token G m c token) w = Inr i"
  shows "\<exists>adapter \<in> snd ` set (mu_oidc m). resolve_token G m c token = adapter c"
proof (cases "jwt_issuer_from_token token")
  case None
  then obtain k adapter where "mu_oidc m = [(k, adapter)]"
    using assms by (auto simp: resolve_token_def split: list.splits)
  then show ?thesis using None by (simp add: resolve_token_def)
next
  case (Some issuer)
  then obtain adapter where a: "map_of (mu_oidc m) issuer = Some adapter"
    using assms by (auto simp: resolve_token_def split: option.splits)
  then have "adapter \<in> snd ` set (mu_oidc m)" by (force dest: map_of_SomeD)
  then show ?thesis using Some a by (auto simp: resolve_token_def)
qed

lemma resolve_assertion_registered:
  assumes "result (resolve_assertion G m c xml) w = Inr i"
  shows "\<exists>adapter \<in> snd ` set (mu_saml m). resolve_assertion G m c xml = adapter c"
proof -
  obtain issuer adapter where a: "saml_issuer_from_xml xml = Some issuer" "map_of (mu_saml m) issuer = Some adapter"
    using assms by (auto simp: resolve_assertion_def split: option.splits)
  then have "adapter \<in> snd ` set (mu_saml m)" by (force dest: map_of_SomeD)
  then show ?thesis using a by (auto simp: resolve_assertion_def)
qed

lemma multi_resolve_registered:
  assumes "result (multi_resolve G m c) w = Inr i"
  shows "\<exists>adapter \<in> snd ` set (mu_oidc m) \<union> snd ` set (mu_saml m). multi_resolve G m c = adapter c"
proof -
  define xml where "xml = (case cx_saml c of Some x \<Rightarrow> x | None \<Rightarrow> [])"
  define token where "token = (case cx_bearer c of Some t \<Rightarrow> t | None \<Rightarrow> [])"
  have m: "multi_resolve G m c =
      (if trim_space xml \<noteq> [] then resolve_assertion G m c xml
       else if trim_space token \<noteq> [] then resolve_token G m c token
       else ret (Inl (bare_err ErrUnauthenticated)))"
    by (simp add: multi_resolve_def xml_def token_def Let_def ctx_defs)
  show ?thesis
  proof (cases "trim_space xml \<noteq> []")
    case True
    then show ?thesis using assms resolve_assertion_registered [of G m c xml w i] m by auto
  next
    case False
    then show ?thesis using assms resolve_token_registered [of G m c token w i] m
      by (auto split: if_splits)
  qed
qed

lemma text_between_simple:
  assumes "index_str (opening @ t @ closing @ r) opening = Some 0"
    and "index_str (opening @ t @ closing @ r) closing = Some (length opening + length t)"
  shows "text_between opening closing (opening @ t @ closing @ r) = Some t"
  using assms by (simp add: text_between_def)

subsection \<open>The contract of the cache\<close>

text \<open>
  \<open>entries\<close> is what a cache holds: a lookup finds nothing else, and only \<open>ch_set\<close> adds to it.
\<close>

locale cache_laws =
  fixes cache :: "'w id_cache" and entries :: "'w \<Rightarrow> string \<Rightarrow> identity option"
  assumes get_hit: "result (ch_get cache k) w = Some i \<Longrightarrow> entries w k = Some i"
    and get_entries: "entries (after (ch_get cache k) w) \<subseteq>\<^sub>m entries w"
    and set_entries: "entries (after (ch_set cache k i) w) \<subseteq>\<^sub>m (entries w)(k \<mapsto> i)"
begin

definition vouched :: "(string \<Rightarrow> identity \<Rightarrow> bool) \<Rightarrow> 'w \<Rightarrow> bool" where
  "vouched P w \<longleftrightarrow> (\<forall>k i. entries w k = Some i \<longrightarrow> P k i)"

lemma vouched_less: "vouched P w \<Longrightarrow> entries w' \<subseteq>\<^sub>m entries w \<Longrightarrow> vouched P w'"
  unfolding vouched_def map_le_def by (metis domI)

lemma vouched_set: "vouched P w \<Longrightarrow> P k i \<Longrightarrow> vouched P (after (ch_set cache k i) w)"
  using set_entries [of k i w] unfolding vouched_def map_le_def
  by (metis domI fun_upd_apply option.inject)

text \<open>What the cache vouches for stays true of every identity it hands out.\<close>

lemma cached_resolve_vouched:
  assumes "vouched P w" and "\<And>w i. result check w = Inr i \<Longrightarrow> P k i"
    and "\<And>w. entries (after check w) \<subseteq>\<^sub>m entries w"
  shows "vouched P (after (cached_resolve cache check k) w)
    \<and> (\<forall>i. result (cached_resolve cache check k) w = Inr i \<longrightarrow> P k i)"
proof -
  let ?w = "after (ch_get cache k) w"
  have w: "vouched P ?w" using vouched_less [OF assms(1) get_entries] .
  have w': "vouched P (after check ?w)" using vouched_less [OF w assms(3)] .
  show ?thesis
  proof (cases "result (ch_get cache k) w")
    case None
    show ?thesis
    proof (cases "result check ?w")
      case (Inl e)
      then show ?thesis using None w' by (simp add: cached_resolve_def world_simps)
    next
      case (Inr i)
      then show ?thesis
        using None vouched_set [OF w' assms(2) [OF Inr]] assms(2) [OF Inr]
        by (simp add: cached_resolve_def world_simps)
    qed
  next
    case (Some i)
    then have "P k i" using get_hit [OF Some] assms(1) by (simp add: vouched_def)
    then show ?thesis using Some w by (simp add: cached_resolve_def world_simps)
  qed
qed

end

text \<open>
  A cache as \<^verbatim>\<open>ttlcache\<close> documents it: an item lives for \<open>ttl\<close> after it was set, and a hit
  starts its time anew (the library's default, which the adapters do not change).
\<close>

record cache_world =
  cw_now :: int
  cw_items :: "string \<Rightarrow> (identity \<times> int) option"

definition ttl_cache :: "int \<Rightarrow> cache_world id_cache" where
  "ttl_cache ttl =
     \<lparr>ch_get = (\<lambda>k. State (\<lambda>w. case cw_items w k of
          None \<Rightarrow> (None, w)
        | Some (i, until) \<Rightarrow>
            if cw_now w < until then (Some i, w\<lparr>cw_items := (cw_items w)(k \<mapsto> (i, cw_now w + ttl))\<rparr>) else (None, w))),
      ch_set = (\<lambda>k i. State (\<lambda>w. ((), w\<lparr>cw_items := (cw_items w)(k \<mapsto> (i, cw_now w + ttl))\<rparr>)))\<rparr>"

interpretation ttl: cache_laws "ttl_cache ttl" "\<lambda>w k. map_option fst (cw_items w k)"
  by unfold_locales (auto simp: ttl_cache_def map_le_def split: option.splits if_splits)

text \<open>A hit is not verified again.\<close>

lemma oidc_hit:
  assumes "cx_bearer c = Some token" and "trim_space token \<noteq> []"
    and "result (ch_get (od_cache a) token) w = Some i"
  shows "run (oidc_resolve a c) w = (Inr i, after (ch_get (od_cache a) token) w)"
  using assms by (simp add: oidc_resolve_def cached_resolve_def ctx_defs run_result_after world_simps)

text \<open>A token used at least once per lifetime of the cache is accepted for ever.\<close>

definition wait :: "int \<Rightarrow> cache_world \<Rightarrow> cache_world" where
  "wait d w = w\<lparr>cw_now := cw_now w + d\<rparr>"

fun use_again :: "cache_world oidc \<Rightarrow> cache_world ctx \<Rightarrow> int \<Rightarrow> nat \<Rightarrow> cache_world \<Rightarrow> cache_world" where
  "use_again a c d 0 w = w"
| "use_again a c d (Suc n) w = after (oidc_resolve a c) (wait d (use_again a c d n w))"

lemma use_again_live:
  assumes "od_cache a = ttl_cache ttl" and "cx_bearer c = Some token" and "trim_space token \<noteq> []"
    and "d < ttl" and "cw_items w token = Some (i, cw_now w + ttl)"
  shows "cw_items (use_again a c d n w) token = Some (i, cw_now (use_again a c d n w) + ttl)"
proof (induction n)
  case (Suc n)
  let ?w = "wait d (use_again a c d n w)"
  have g: "run (ch_get (ttl_cache ttl) token) ?w =
      (Some i, ?w\<lparr>cw_items := (cw_items ?w)(token \<mapsto> (i, cw_now ?w + ttl))\<rparr>)"
    using Suc assms(4) by (simp add: ttl_cache_def wait_def)
  have "after (oidc_resolve a c) ?w = ?w\<lparr>cw_items := (cw_items ?w)(token \<mapsto> (i, cw_now ?w + ttl))\<rparr>"
    using oidc_hit [OF assms(2,3), of a ?w i] g assms(1) by (simp add: run_result_after)
  then show ?case by simp
qed (use assms(5) in simp)

subsection \<open>Properties of identity resolution\<close>

text \<open>
  C27: The issuer decides who vouches. When a caller presents a bearer token with an issuer claim
  and no SAML assertion, an identity can only come from the adapter registered for exactly that
  issuer; without a registration the answer is \<open>ErrUnauthorized\<close> and no adapter is asked.
\<close>

theorem issuer_decides_adapter:
  assumes "cx_saml c = None" and "cx_bearer c = Some token" and "trim_space token \<noteq> []"
    and "jwt_issuer_from_token token = Some issuer"
  shows "(\<forall>i. result (multi_resolve G m c) w = Inr i \<longrightarrow>
      (\<exists>adapter. map_of (mu_oidc m) issuer = Some adapter \<and> result (adapter c) w = Inr i))
    \<and> (map_of (mu_oidc m) issuer = None \<longrightarrow>
      (\<exists>e. run (multi_resolve G m c) w = (Inl e, w) \<and> err_is e = ErrUnauthorized))"
  using multi_resolve_token [OF assms, of G m] by (auto simp: run_result_after split: option.splits)

definition demo_token :: string where
  "demo_token = ''h.'' @ b64_encode (json_print (JObj [(''iss'', JStr ''https://idp'')])) @ ''.s''"

lemma demo_token_issuer: "jwt_issuer_from_token demo_token = Some ''https://idp''"
proof -
  have p: "plain_text ''iss''" "plain_text ''https://idp''" by (simp_all add: plain_text_def html_char_def)
  have "json_parse (json_print (JObj [(''iss'', JStr ''https://idp'')])) = Some (JObj [(''iss'', JStr ''https://idp'')])"
    by (rule json_parse_print) (simp_all add: plain_text_ok p max_nesting_def)
  then have "unmarshal_string ''iss'' (json_print (JObj [(''iss'', JStr ''https://idp'')])) = Some ''https://idp''"
    unfolding unmarshal_string_def by (simp add: get_string_def field_vals_Cons plain_text_unquote p)
  then show ?thesis
    using jwt_claim_compact [of "''h''" "''s''" "''iss''" "json_print (JObj [(''iss'', JStr ''https://idp'')])"]
    by (simp add: jwt_issuer_from_token_def demo_token_def del: json_print.simps)
qed

lemma demo_token_present: "trim_space demo_token \<noteq> []"
  by code_simp

theorem issuer_decides_adapter_witness:
  "\<exists>e. run (multi_resolve golib0 \<lparr>mu_oidc = [(''https://other'', \<lambda>c. ret (Inr demo_caller))], mu_saml = []\<rparr>
        (with_bearer_token background demo_token)) () = (Inl e, ()) \<and> err_is e = ErrUnauthorized"
  using issuer_decides_adapter [of "with_bearer_token background demo_token" demo_token _ golib0
      "\<lparr>mu_oidc = [(''https://other'', \<lambda>c. ret (Inr demo_caller))], mu_saml = []\<rparr>" "()"] demo_token_issuer
  by (simp add: ctx_defs demo_token_present)

definition verified_identity :: "'w oidc \<Rightarrow> string \<Rightarrow> identity \<Rightarrow> bool" where
  "verified_identity a token i \<longleftrightarrow>
     (\<exists>w claims. result (od_verify a token) w = Inr claims \<and> i = normalize_claims a claims)"

text \<open>
  C15: An OIDC adapter hands out only identities that its verifier has accepted for that very
  token, at that call or an earlier one, and its cache stays within them, for every cache that
  finds only what was put in and every verifier that does not write to the cache.
\<close>

theorem oidc_identities_are_verified:
  assumes "cache_laws (od_cache a) entries"
    and "\<And>token w. entries (after (od_verify a token) w) \<subseteq>\<^sub>m entries w"
    and "\<And>token i. entries w token = Some i \<Longrightarrow> verified_identity a token i"
  shows "(\<forall>i token. cx_bearer c = Some token \<longrightarrow> result (oidc_resolve a c) w = Inr i \<longrightarrow> verified_identity a token i)
    \<and> (\<forall>token i. entries (after (oidc_resolve a c) w) token = Some i \<longrightarrow> verified_identity a token i)"
proof (cases "\<exists>token. cx_bearer c = Some token \<and> trim_space token \<noteq> []")
  case False
  then show ?thesis using assms(3) by (auto simp: oidc_resolve_def ctx_defs split: option.splits)
next
  case True
  then obtain token where t: "cx_bearer c = Some token" "trim_space token \<noteq> []" by blast
  have r: "oidc_resolve a c = cached_resolve (od_cache a) (oidc_check a token) token"
    using t by (simp add: oidc_resolve_def ctx_defs)
  have v: "result (oidc_check a token) w = Inr i \<Longrightarrow> verified_identity a token i" for w i
    by (auto simp: oidc_check_def world_simps verified_identity_def split: sum.splits)
  have k: "entries (after (oidc_check a token) w) \<subseteq>\<^sub>m entries w" for w
    using assms(2) by (simp add: oidc_check_def world_simps)
  have "cache_laws.vouched entries (verified_identity a) w"
    using assms(3) by (simp add: cache_laws.vouched_def [OF assms(1)])
  from cache_laws.cached_resolve_vouched [OF assms(1) this v k]
  show ?thesis using t by (simp add: r cache_laws.vouched_def [OF assms(1)])
qed

definition demo_oidc :: "cache_world oidc" where
  "demo_oidc =
     \<lparr>od_name = ''idp'', od_verify = (\<lambda>t. ret (if t = demo_token
        then Inr \<lparr>ic_subject = ''ann'', ic_email = [], ic_claims = [(''groups'', GArr [GStr ''dev''])]\<rparr>
        else Inl ''bad signature'')), od_groups_claim = ''groups'', od_cache = ttl_cache 300\<rparr>"

theorem oidc_identities_are_verified_witness:
  "\<exists>i. result (oidc_resolve demo_oidc (with_bearer_token background demo_token)) \<lparr>cw_now = 0, cw_items = \<lambda>_. None\<rparr> = Inr i
     \<and> verified_identity demo_oidc demo_token i"
proof -
  let ?w = "\<lparr>cw_now = 0, cw_items = \<lambda>_. None\<rparr>" and ?c = "with_bearer_token background demo_token"
  have "\<exists>i. result (oidc_resolve demo_oidc ?c) ?w = Inr i"
    by (simp add: oidc_resolve_def ctx_defs demo_token_present cached_resolve_def oidc_check_def
        demo_oidc_def ttl_cache_def world_simps)
  then show ?thesis
    using oidc_identities_are_verified [of demo_oidc "\<lambda>w k. map_option fst (cw_items w k)" ?w ?c] ttl.cache_laws_axioms [of 300]
    by (auto simp: demo_oidc_def ctx_defs)
qed

text \<open>
  C35: With the cache library's default, a hit starts the lifetime of an entry anew, so a token
  that is presented again within every lifetime is accepted for ever, without being verified
  again and whatever its own expiry.
\<close>

theorem used_tokens_never_expire:
  assumes "od_cache a = ttl_cache ttl" and "cx_bearer c = Some token" and "trim_space token \<noteq> []"
    and "d < ttl" and "cw_items w token = Some (i, cw_now w + ttl)"
  shows "result (oidc_resolve a c) (wait d (use_again a c d n w)) = Inr i"
proof -
  let ?w = "wait d (use_again a c d n w)"
  have "cw_items ?w token = Some (i, cw_now (use_again a c d n w) + ttl)"
    using use_again_live [OF assms] by (simp add: wait_def)
  then have "result (ch_get (od_cache a) token) ?w = Some i"
    using assms(1,4) by (simp add: ttl_cache_def wait_def)
  from oidc_hit [OF assms(2,3) this] show ?thesis by (simp add: run_result_after)
qed

theorem used_tokens_never_expire_witness:
  "result (oidc_resolve demo_oidc (with_bearer_token background demo_token))
     (wait 299 (use_again demo_oidc (with_bearer_token background demo_token) 299 1000
       \<lparr>cw_now = 0, cw_items = [demo_token \<mapsto> (demo_caller, 300)]\<rparr>)) = Inr demo_caller"
  by (rule used_tokens_never_expire [where token = demo_token and ttl = 300])
    (simp_all add: demo_oidc_def ctx_defs demo_token_present)

end
