(* ===== verification/Assertion.thy ===== *)
theory Assertion
  imports Inbound
begin

section \<open>Identity assertions (\<^verbatim>\<open>internal/auth/assertion\<close>)\<close>

text \<open>
  The minter signs with a key that stays in KMS. KMS, the parsing of a public key, the clock
  and the random identifiers are parameters. The model's lists do not tell a nil slice from an
  empty one, which \<open>Marshal\<close> prints as \<open>null\<close> and \<open>[]\<close>: \<open>ml_empty\<close> is what is printed.
\<close>

record rsa_key =
  rk_n :: nat
  rk_e :: nat

datatype key_parse = RsaKey rsa_key | OtherKey | BadKey string

record 'w kms_client =
  km_sign :: "string \<Rightarrow> bytes \<Rightarrow> ('w, string + bytes) act"
  km_public_key :: "string \<Rightarrow> ('w, string + bytes) act"

record 'w minter_lib =
  ml_now :: "('w, int) act"
  ml_uuid :: "('w, string) act"
  ml_empty :: json
  ml_pkix :: "bytes \<Rightarrow> key_parse"
  ml_pem :: "bytes \<Rightarrow> bytes option"

record 'w minter =
  mn_cfg :: assertion_config
  mn_kms :: "'w kms_client"
  mn_public :: rsa_key

subsection \<open>Construction\<close>

definition rsa_of :: "(string \<Rightarrow> goerr) \<Rightarrow> key_parse \<Rightarrow> goerr + rsa_key" where
  "rsa_of bad k =
     (case k of RsaKey r \<Rightarrow> Inr r
      | OtherKey \<Rightarrow> Inl (plain_err ''KMS key is not an RSA public key'')
      | BadKey t \<Rightarrow> Inl (bad t))"

definition parse_rsa_public_key :: "'w minter_lib \<Rightarrow> bytes \<Rightarrow> goerr + rsa_key" where
  "parse_rsa_public_key L der =
     (case ml_pkix L der of
        BadKey t \<Rightarrow> (case ml_pem L der of
            None \<Rightarrow> Inl (plain_err ''could not parse public key: not valid DER or PEM'')
          | Some block \<Rightarrow> rsa_of (\<lambda>t. plain_err (''parse PKIX public key from PEM: '' @ t)) (ml_pkix L block))
      | k \<Rightarrow> rsa_of plain_err k)"

definition cache_public_key :: "'w minter_lib \<Rightarrow> 'w kms_client \<Rightarrow> string \<Rightarrow> ('w, goerr + rsa_key) act" where
  "cache_public_key L K arn =
     State_Monad.bind (km_public_key K arn) (\<lambda>r. ret (case r of
        Inl t \<Rightarrow> Inl (wrap_err ErrServiceUnavailable (''kms:GetPublicKey failed: '' @ t))
      | Inr der \<Rightarrow> (case parse_rsa_public_key L der of
          Inl e \<Rightarrow> Inl (prefix_err ''parse RSA public key from KMS: '' e)
        | Inr k \<Rightarrow> Inr k)))"

definition new_minter :: "'w minter_lib \<Rightarrow> assertion_config \<Rightarrow> 'w kms_client \<Rightarrow> ('w, goerr + 'w minter) act" where
  "new_minter L cfg K =
     (if ac_kms_arn cfg = [] then ret (Inl (plain_err ''assertion: KMSKeyARN is required''))
      else if ac_issuer cfg = [] then ret (Inl (plain_err ''assertion: Issuer is required''))
      else if ac_audience cfg = [] then ret (Inl (plain_err ''assertion: Audience is required''))
      else if ac_ttl cfg = 0 then ret (Inl (plain_err ''assertion: TTL must be non-zero''))
      else State_Monad.bind (cache_public_key L K (ac_kms_arn cfg)) (\<lambda>r. ret (case r of
          Inl e \<Rightarrow> Inl (prefix_err ''assertion: cache public key: '' e)
        | Inr k \<Rightarrow> Inr \<lparr>mn_cfg = cfg, mn_kms = K, mn_public = k\<rparr>)))"

subsection \<open>Minting\<close>

text \<open>Maps are printed in the order of their keys.\<close>

definition jwt_header :: "string \<Rightarrow> json" where
  "jwt_header kid =
     JObj ([(''alg'', JStr ''RS256'')] @ (if kid \<noteq> [] then [(''kid'', JStr (quote kid))] else [])
           @ [(''typ'', JStr ''JWT'')])"

definition strings_json :: "json \<Rightarrow> string list \<Rightarrow> json" where
  "strings_json nothing xs = (if xs = [] then nothing else JArr (map (\<lambda>s. JStr (quote s)) xs))"

definition unix :: "int \<Rightarrow> int" where
  "unix t = t div 1000000000"

definition jwt_payload :: "'w minter_lib \<Rightarrow> assertion_config \<Rightarrow> identity \<Rightarrow> string \<Rightarrow> int \<Rightarrow> string \<Rightarrow> json" where
  "jwt_payload L cfg i origin_jti now jti =
     JObj [(''aud'', JStr (quote (ac_audience cfg))),
           (''exp'', JNum (show_int (unix (now + ac_ttl cfg)))),
           (''ext_identity'', JObj
              [(''entitlements'', strings_json (ml_empty L) (id_entitlements i)),
               (''groups'', strings_json (ml_empty L) (id_groups i)),
               (''origin_jti'', JStr (quote origin_jti)), (''provider'', JStr (quote (id_provider i)))]),
           (''iat'', JNum (show_int (unix now))), (''iss'', JStr (quote (ac_issuer cfg))),
           (''jti'', JStr (quote jti)), (''sub'', JStr (quote (id_user i)))]"

definition signing_input :: "json \<Rightarrow> json \<Rightarrow> string" where
  "signing_input header payload = b64_encode (json_print header) @ ''.'' @ b64_encode (json_print payload)"

definition mint :: "'w minter_lib \<Rightarrow> 'w minter \<Rightarrow> 'w assertion_minter" where
  "mint L m c i origin_jti =
     State_Monad.bind (ml_now L) (\<lambda>now. State_Monad.bind (ml_uuid L) (\<lambda>jti.
       (let input = signing_input (jwt_header (ac_key_id (mn_cfg m)))
              (jwt_payload L (mn_cfg m) i origin_jti now jti) in
        State_Monad.bind (km_sign (mn_kms m) (ac_kms_arn (mn_cfg m)) input) (\<lambda>r. ret (case r of
           Inl t \<Rightarrow> Inl (wrap_err ErrServiceUnavailable (''kms:Sign failed: '' @ t))
         | Inr sig \<Rightarrow> Inr (input @ ''.'' @ b64_encode sig))))))"

subsection \<open>The key set\<close>

text \<open>\<open>big.Int.Bytes\<close>: big-endian, no leading zero.\<close>

fun be_bytes :: "nat \<Rightarrow> bytes" where
  "be_bytes n = (if n = 0 then [] else be_bytes (n div 256) @ [char_of (n mod 256)])"

declare be_bytes.simps [simp del]

definition build_jwks :: "rsa_key \<Rightarrow> string \<Rightarrow> json" where
  "build_jwks k kid =
     JObj [(''keys'', JArr [JObj ([(''kty'', JStr ''RSA''), (''use'', JStr ''sig''), (''alg'', JStr ''RS256'')]
       @ (if kid \<noteq> [] then [(''kid'', JStr (quote kid))] else [])
       @ [(''n'', JStr (b64_encode (be_bytes (rk_n k)))), (''e'', JStr (b64_encode (be_bytes (rk_e k))))])])]"

definition jwks_handler :: "'w minter \<Rightarrow> http_reply" where
  "jwks_handler m =
     json_reply 200 (json_print (build_jwks (mn_public m) (ac_key_id (mn_cfg m))) @ [CHR 0x0A])"

subsection \<open>The startup check of a key\<close>

text \<open>What \<open>DescribeKey\<close> answers: an error, no metadata, or the key's spec and usage. The result is
  whether the process goes on.\<close>

datatype describe_outcome = DescribeFailed | NoMetadata | Metadata string string

definition must_validate_kms_key :: "describe_outcome \<Rightarrow> bool" where
  "must_validate_kms_key out \<longleftrightarrow>
     (case out of
        Metadata spec usage \<Rightarrow> spec \<in> {''RSA_2048'', ''RSA_4096''} \<and> usage = ''SIGN_VERIFY''
      | _ \<Rightarrow> False)"

subsection \<open>What a backend reads from a minted token\<close>

lemma claim_names [simp]:
  "plain_text ''aud''" "plain_text ''exp''" "plain_text ''ext_identity''" "plain_text ''entitlements''"
  "plain_text ''groups''" "plain_text ''origin_jti''" "plain_text ''iat''" "plain_text ''iss''"
  "plain_text ''jti''" "plain_text ''sub''" "plain_text ''alg''" "plain_text ''kid''" "plain_text ''typ''"
  "plain_text ''RS256''" "plain_text ''JWT''" "plain_text ''provider''"
  by (simp_all add: plain_text_def html_char_def)

lemma strings_json_ok:
  assumes "nothing = JNull \<or> nothing = JArr []"
  shows "json_ok (strings_json nothing xs)" and "json_depth (strings_json nothing xs) \<le> 2"
  using assms by (auto simp: strings_json_def quote_ok list_all_iff)

lemma jwt_payload_parse:
  assumes "ml_empty L = JNull \<or> ml_empty L = JArr []"
  shows "json_parse (json_print (jwt_payload L cfg i origin now jti)) = Some (jwt_payload L cfg i origin now jti)"
proof (rule json_parse_print)
  note s = strings_json_ok [OF assms]
  show "json_ok (jwt_payload L cfg i origin now jti)"
    using s(1) by (simp add: jwt_payload_def quote_ok plain_text_ok)
  have "json_depth (strings_json (ml_empty L) xs) \<le> 9998" for xs using s(2) [of xs] by simp
  then show "json_depth (jwt_payload L cfg i origin now jti) \<le> max_nesting"
    by (simp add: jwt_payload_def max_nesting_def)
qed

lemma mint_shape:
  assumes "result (mint L m c i origin) w = Inr token"
  shows "\<exists>now jti sig. token = b64_encode (json_print (jwt_header (ac_key_id (mn_cfg m))))
    @ CHR ''.'' # b64_encode (json_print (jwt_payload L (mn_cfg m) i origin now jti)) @ CHR ''.'' # b64_encode sig
    \<and> now = result (ml_now L) w \<and> jti = result (ml_uuid L) (after (ml_now L) w)"
  using assms by (auto simp: mint_def signing_input_def world_simps Let_def split: sum.splits)

lemma claim_folds [simp]:
  "fold_name ''aud'' = ''AUD''" "fold_name ''exp'' = ''EXP''" "fold_name ''ext_identity'' = ''EXT_IDENTITY''"
  "fold_name ''iat'' = ''IAT''" "fold_name ''iss'' = ''ISS''" "fold_name ''jti'' = ''JTI''"
  "fold_name ''sub'' = ''SUB''"
  by code_simp+

lemma jwt_payload_strings:
  "get_string ''sub'' (jwt_payload L cfg i origin now jti) = Some (to_valid (id_user i))"
  "get_string ''aud'' (jwt_payload L cfg i origin now jti) = Some (to_valid (ac_audience cfg))"
  "get_string ''iss'' (jwt_payload L cfg i origin now jti) = Some (to_valid (ac_issuer cfg))"
  "get_string ''jti'' (jwt_payload L cfg i origin now jti) = Some (to_valid jti)"
  by (simp_all add: get_string_def jwt_payload_def field_vals_Cons plain_text_unquote unquote_quote)

lemma mint_claims:
  assumes "ml_empty L = JNull \<or> ml_empty L = JArr []" and "result (mint L m c i origin) w = Inr token"
  shows "jwt_claim ''sub'' token = Some (to_valid (id_user i))"
    and "jwt_claim ''aud'' token = Some (to_valid (ac_audience (mn_cfg m)))"
    and "jwt_claim ''iss'' token = Some (to_valid (ac_issuer (mn_cfg m)))"
    and "jwt_claim ''jti'' token = Some (to_valid (result (ml_uuid L) (after (ml_now L) w)))"
proof -
  obtain now jti sig where t: "token = b64_encode (json_print (jwt_header (ac_key_id (mn_cfg m))))
      @ CHR ''.'' # b64_encode (json_print (jwt_payload L (mn_cfg m) i origin now jti)) @ CHR ''.'' # b64_encode sig"
      and j: "jti = result (ml_uuid L) (after (ml_now L) w)"
    using mint_shape [OF assms(2)] by blast
  have "jwt_claim f token = get_string f (jwt_payload L (mn_cfg m) i origin now jti)" for f
    unfolding t
    by (simp only: jwt_claim_compact [OF b64_encode_no_dot b64_encode_no_dot] unmarshal_string_def
        jwt_payload_parse [OF assms(1)] option.case)
  then show "jwt_claim ''sub'' token = Some (to_valid (id_user i))"
    and "jwt_claim ''aud'' token = Some (to_valid (ac_audience (mn_cfg m)))"
    and "jwt_claim ''iss'' token = Some (to_valid (ac_issuer (mn_cfg m)))"
    and "jwt_claim ''jti'' token = Some (to_valid (result (ml_uuid L) (after (ml_now L) w)))"
    by (simp_all add: jwt_payload_strings j)
qed

text \<open>The readers of a backend: the payload of a compact token, its members, a list of strings.\<close>

definition token_payload :: "string \<Rightarrow> json option" where
  "token_payload token =
     (case split_on (CHR ''.'') token of
        [h, p, s] \<Rightarrow> (case b64_decode p of None \<Rightarrow> None | Some b \<Rightarrow> json_parse b)
      | _ \<Rightarrow> None)"

definition members :: "string \<Rightarrow> json \<Rightarrow> json list" where
  "members f j = (case j of JObj ms \<Rightarrow> field_vals f ms | _ \<Rightarrow> [])"

fun string_list :: "json \<Rightarrow> string list option" where
  "string_list JNull = Some []"
| "string_list (JArr vs) = those (map (\<lambda>v. case v of JStr t \<Rightarrow> Some (unquote t) | _ \<Rightarrow> None) vs)"
| "string_list _ = None"

lemma string_list_strings:
  assumes "nothing = JNull \<or> nothing = JArr []"
  shows "string_list (strings_json nothing xs) = Some (map to_valid xs)"
proof -
  have "those (map (\<lambda>x. Some (unquote (quote x))) ys) = Some (map to_valid ys)" for ys
    by (induction ys) (simp_all add: unquote_quote)
  then show ?thesis using assms by (auto simp: strings_json_def comp_def)
qed

lemma more_claim_folds [simp]:
  "fold_name ''entitlements'' = ''ENTITLEMENTS''" "fold_name ''groups'' = ''GROUPS''"
  "fold_name ''origin_jti'' = ''ORIGIN_JTI''" "fold_name ''provider'' = ''PROVIDER''"
  by code_simp+

lemma mint_payload:
  assumes "ml_empty L = JNull \<or> ml_empty L = JArr []" and "result (mint L m c i origin) w = Inr token"
  shows "token_payload token = Some (jwt_payload L (mn_cfg m) i origin (result (ml_now L) w)
      (result (ml_uuid L) (after (ml_now L) w)))"
  using mint_shape [OF assms(2)]
  by (auto simp: token_payload_def split_on_append split_on_none b64_encode_no_dot jwt_payload_parse [OF assms(1)])

text \<open>When the token was minted, when it expires, and the identity inside it.\<close>

definition times_and_caller :: "json \<Rightarrow> int \<Rightarrow> int \<Rightarrow> identity \<Rightarrow> string \<Rightarrow> bool" where
  "times_and_caller p minted expires i origin \<longleftrightarrow>
     members ''iat'' p = [JNum (show_int minted)] \<and> members ''exp'' p = [JNum (show_int expires)]
     \<and> (\<exists>ext. members ''ext_identity'' p = [ext]
          \<and> map string_list (members ''groups'' ext) = [Some (map to_valid (id_groups i))]
          \<and> map string_list (members ''entitlements'' ext) = [Some (map to_valid (id_entitlements i))]
          \<and> get_string ''provider'' ext = Some (to_valid (id_provider i))
          \<and> get_string ''origin_jti'' ext = Some (to_valid origin))"

lemma jwt_payload_rest:
  assumes "ml_empty L = JNull \<or> ml_empty L = JArr []"
  shows "times_and_caller (jwt_payload L cfg i origin now jti) (unix now) (unix (now + ac_ttl cfg)) i origin"
  by (simp add: times_and_caller_def members_def jwt_payload_def get_string_def field_vals_Cons
      plain_text_unquote unquote_quote string_list_strings [OF assms])

text \<open>The signature is over exactly the two parts that are sent, under the configured key.\<close>

lemma mint_signed:
  assumes "result (mint L m c i origin) w = Inr token"
  shows "\<exists>input sig w'. token = input @ ''.'' @ b64_encode sig
    \<and> result (km_sign (mn_kms m) (ac_kms_arn (mn_cfg m)) input) w' = Inr sig"
  using assms by (auto simp: mint_def world_simps Let_def split: sum.splits)

lemma unix_ttl: "ttl mod 1000000000 = 0 \<Longrightarrow> unix (now + ttl) - unix now = ttl div 1000000000"
  by (auto simp: unix_def dvd_eq_mod_eq_0 div_plus_div_distrib_dvd_right)

subsection \<open>What a client reads from the key set\<close>

definition be_value :: "bytes \<Rightarrow> nat" where
  "be_value s = foldl (\<lambda>a c. a * 256 + byte c) 0 s"

lemma be_value_bytes [simp]: "be_value (be_bytes n) = n"
proof (induction n rule: be_bytes.induct)
  case (1 n)
  show ?case
  proof (cases "n = 0")
    case True
    then show ?thesis by (simp add: be_bytes.simps be_value_def)
  next
    case False
    then have "be_bytes n = be_bytes (n div 256) @ [char_of (n mod 256)]" by (subst be_bytes.simps) simp
    then have "be_value (be_bytes n) = be_value (be_bytes (n div 256)) * 256 + n mod 256"
      by (simp add: be_value_def)
    then show ?thesis using 1 False by simp
  qed
qed

lemma be_bytes_minimal: "be_bytes n \<noteq> [] \<Longrightarrow> byte (hd (be_bytes n)) \<noteq> 0"
proof (induction n rule: be_bytes.induct)
  case (1 n)
  show ?case
  proof (cases "n < 256")
    case True
    then show ?thesis using 1(2) by (cases "n = 0") (simp_all add: be_bytes.simps)
  next
    case False
    then have "be_bytes n = be_bytes (n div 256) @ [char_of (n mod 256)]" by (subst be_bytes.simps) simp
    moreover have "be_bytes (n div 256) \<noteq> []" using False by (subst be_bytes.simps) simp
    ultimately show ?thesis using 1(1) False by simp
  qed
qed

subsection \<open>Properties of assertions and the key set\<close>

text \<open>
  C21: A backend reads from a minted token the caller it was minted for: subject, audience, issuer
  and token id are those of the identity, the configuration and the fresh identifier; the token
  was issued now and expires after the configured time to live, counted in whole seconds; and its
  extended identity lists the caller's groups, entitlements and provider and the id of the token
  the caller came with. Its signature is the one that KMS gave, under the configured key, for
  exactly the header and the payload that are sent.
\<close>

theorem minted_tokens_carry_the_caller:
  assumes "ml_empty L = JNull \<or> ml_empty L = JArr []" and "result (mint L m c i origin) w = Inr token"
  shows "jwt_claim ''sub'' token = Some (to_valid (id_user i))
    \<and> jwt_claim ''aud'' token = Some (to_valid (ac_audience (mn_cfg m)))
    \<and> jwt_claim ''iss'' token = Some (to_valid (ac_issuer (mn_cfg m)))
    \<and> jwt_claim ''jti'' token = Some (to_valid (result (ml_uuid L) (after (ml_now L) w)))
    \<and> (\<exists>p. token_payload token = Some p
          \<and> times_and_caller p (unix (result (ml_now L) w)) (unix (result (ml_now L) w + ac_ttl (mn_cfg m))) i origin)
    \<and> (\<exists>input sig w'. token = input @ ''.'' @ b64_encode sig
          \<and> result (km_sign (mn_kms m) (ac_kms_arn (mn_cfg m)) input) w' = Inr sig)"
  using mint_claims [OF assms] mint_payload [OF assms] jwt_payload_rest [OF assms(1)] mint_signed [OF assms(2)] by blast

definition demo_minter_lib :: "'w minter_lib" where
  "demo_minter_lib =
     \<lparr>ml_now = ret 5000000000, ml_uuid = ret ''uuid'', ml_empty = JNull,
      ml_pkix = (\<lambda>der. RsaKey \<lparr>rk_n = 3233, rk_e = 17\<rparr>), ml_pem = (\<lambda>_. None)\<rparr>"

definition demo_minter :: "'w minter" where
  "demo_minter =
     \<lparr>mn_cfg = \<lparr>ac_issuer = ''https://abaris'', ac_audience = ''backend'', ac_ttl = 60000000000,
        ac_kms_arn = ''arn'', ac_key_id = ''k1''\<rparr>,
      mn_kms = \<lparr>km_sign = (\<lambda>arn input. ret (Inr (''sig:'' @ arn))), km_public_key = (\<lambda>arn. ret (Inr ''der''))\<rparr>,
      mn_public = \<lparr>rk_n = 3233, rk_e = 17\<rparr>\<rparr>"

lemma demo_minted_token: "\<exists>token. result (mint demo_minter_lib demo_minter c demo_caller ''j'') w = Inr token"
  by (simp add: mint_def demo_minter_lib_def demo_minter_def world_simps Let_def)

theorem minted_tokens_carry_the_caller_witness:
  "\<exists>token. result (mint demo_minter_lib demo_minter background demo_caller ''j'') () = Inr token
     \<and> jwt_claim ''sub'' token = Some (to_valid ''ann'')
     \<and> (\<exists>p. token_payload token = Some p \<and> times_and_caller p 5 65 demo_caller ''j'')"
  using demo_minted_token [of background "()"]
    minted_tokens_carry_the_caller [of demo_minter_lib demo_minter background demo_caller "''j''" "()"]
  by (auto simp: demo_minter_lib_def demo_minter_def demo_caller_def unix_def)

text \<open>
  C22: The published key set is the minter's key: it is JSON, and its one key holds the modulus
  and the exponent of the RSA key in unsigned big-endian base64url without padding, so a client
  reads exactly the two numbers back.
\<close>

theorem jwks_round_trip:
  "\<exists>ms n e. json_parse (json_print (build_jwks k kid)) = Some (JObj [(''keys'', JArr [JObj ms])])
     \<and> map_of ms ''n'' = Some (JStr n) \<and> map_option be_value (b64_decode n) = Some (rk_n k)
     \<and> map_of ms ''e'' = Some (JStr e) \<and> map_option be_value (b64_decode e) = Some (rk_e k)"
proof -
  have p: "plain_text ''keys''" "plain_text ''kty''" "plain_text ''RSA''" "plain_text ''use''" "plain_text ''sig''"
      "plain_text ''n''" "plain_text ''e''"
    by (simp_all add: plain_text_def html_char_def)
  have "json_parse (json_print (build_jwks k kid)) = Some (build_jwks k kid)"
    by (rule json_parse_print) (simp_all add: build_jwks_def quote_ok plain_text_ok p max_nesting_def)
  then show ?thesis by (simp add: build_jwks_def del: json_print.simps)
qed

end
