(* ===== verification/Infra.thy ===== *)
theory Infra
  imports Inbound
begin

section \<open>Infrastructure (\<^verbatim>\<open>internal/infra\<close>)\<close>

text \<open>
  Health checks, secrets and the log level. AWS is given by what it answers; graceful shutdown is
  the theory \<open>Shutdown\<close>.
\<close>

subsection \<open>Health\<close>

text \<open>
  The checks run concurrently and none depends on another, so the model runs them in the order
  of registration; \<open>results\<close> holds one entry per dependency, in that order.
\<close>

type_synonym 'w dependency = "('w, string option) act"

fun check_all :: "(string \<times> 'w dependency) list \<Rightarrow> ('w, (string \<times> string option) list) act" where
  "check_all [] = ret []"
| "check_all ((n, d) # ds) =
     State_Monad.bind d (\<lambda>e. State_Monad.bind (check_all ds) (\<lambda>rs. ret ((n, e) # rs)))"

definition register :: "string \<Rightarrow> 'w dependency \<Rightarrow> (string \<times> 'w dependency) list \<Rightarrow> (string \<times> 'w dependency) list" where
  "register n d ds = ds @ [(n, d)]"

text \<open>The map of degraded dependencies: a later one of the same name replaces an earlier one.\<close>

fun degraded :: "(string \<times> string) list \<Rightarrow> (string \<times> string option) list \<Rightarrow> (string \<times> string) list" where
  "degraded m [] = m"
| "degraded m ((n, None) # rs) = degraded m rs"
| "degraded m ((n, Some t) # rs) = degraded (map_put n t m) rs"

definition health_json :: "(string \<times> string) list \<Rightarrow> json" where
  "health_json m =
     (if m = [] then JObj [(''status'', JStr ''ok'')]
      else JObj [(''dependencies'', JObj (map (\<lambda>e. (quote (fst e), JStr (quote (snd e)))) m)),
                 (''status'', JStr ''degraded'')])"

definition health_handler :: "(string \<times> 'w dependency) list \<Rightarrow> ('w, http_reply) act" where
  "health_handler ds =
     State_Monad.bind (check_all ds) (\<lambda>rs. ret (let m = degraded [] rs in
        json_reply (if m = [] then 200 else 503) (json_print (health_json m) @ [CHR 0x0A])))"

lemma degraded_sorted: "map_sorted m \<Longrightarrow> map_sorted (degraded m rs)"
  by (induction m rs rule: degraded.induct) (auto simp: map_put_sorted)

lemma degraded_keys: "fst ` set (degraded m rs) = fst ` set m \<union> {n. \<exists>t. (n, Some t) \<in> set rs}"
  by (induction m rs rule: degraded.induct) (auto simp: fst_set_map_put)

lemma degraded_Nil: "degraded [] rs = [] \<longleftrightarrow> (\<forall>r \<in> set rs. snd r = None)"
proof -
  have "degraded [] rs = [] \<longleftrightarrow> fst ` set (degraded [] rs) = {}" by simp
  also have "\<dots> \<longleftrightarrow> (\<forall>r \<in> set rs. snd r = None)" unfolding degraded_keys by (auto simp: not_None_eq) (metis option.exhaust)
  finally show ?thesis .
qed

lemma check_all_names: "map fst (result (check_all ds) w) = map fst ds"
  by (induction ds arbitrary: w rule: check_all.induct) (auto simp: world_simps)

subsection \<open>Secrets\<close>

text \<open>What \<open>GetSecretValue\<close> answers; a secret may have no string value.\<close>

datatype secret_outcome = Secret "string option" | SecretNotFound | SecretFailed string

type_synonym 'w secrets_client = "string \<Rightarrow> ('w, secret_outcome) act"

text \<open>The AWS configuration for the region is loaded, or its error is given.\<close>

definition new_secrets_manager_adapter :: "string option \<Rightarrow> 'w secrets_client \<Rightarrow> goerr + 'w secrets_client" where
  "new_secrets_manager_adapter aws_error client =
     (case aws_error of
        Some t \<Rightarrow> Inl (wrap_err ErrServiceUnavailable (''loading AWS config: '' @ t))
      | None \<Rightarrow> Inr client)"

definition get_secret :: "'w secrets_client \<Rightarrow> string \<Rightarrow> string \<Rightarrow> ('w, goerr + string) act" where
  "get_secret client arn kind =
     State_Monad.bind (client arn) (\<lambda>r. ret (case r of
        SecretNotFound \<Rightarrow> Inl (wrap_err ErrUnauthorized (kind @ '' not found at ARN '' @ arn))
      | SecretFailed t \<Rightarrow> Inl (wrap_err ErrServiceUnavailable (''retrieving '' @ kind @ '' from Secrets Manager: '' @ t))
      | Secret None \<Rightarrow> Inl (wrap_err ErrServiceUnavailable (kind @ '' at ARN '' @ arn @ '' has no string value''))
      | Secret (Some s) \<Rightarrow> Inr s))"

definition get_service_credentials :: "'w secrets_client \<Rightarrow> string \<Rightarrow> ('w, goerr + string) act" where
  "get_service_credentials client arn = get_secret client arn ''service credentials''"

definition get_idp_client_secret :: "'w secrets_client \<Rightarrow> string \<Rightarrow> ('w, goerr + string) act" where
  "get_idp_client_secret client arn = get_secret client arn ''IDP client secret''"

text \<open>\<open>None\<close> is \<open>os.Exit(1)\<close>: nothing runs after it.\<close>

definition must_get_secret :: "'w secrets_client \<Rightarrow> string \<Rightarrow> ('w, string option) act" where
  "must_get_secret client arn =
     State_Monad.bind (client arn) (\<lambda>r. ret (case r of Secret s \<Rightarrow> s | _ \<Rightarrow> None))"

fun load_secrets :: "'w secrets_client \<Rightarrow> (string \<rightharpoonup> string) \<Rightarrow> string list \<Rightarrow> ('w, (string \<rightharpoonup> string) option) act" where
  "load_secrets client m [] = ret (Some m)"
| "load_secrets client m (arn # arns) =
     State_Monad.bind (must_get_secret client arn) (\<lambda>s. case s of
        None \<Rightarrow> ret None
      | Some v \<Rightarrow> load_secrets client (m(arn \<mapsto> v)) arns)"

definition must_load_secrets :: "'w secrets_client \<Rightarrow> string list \<Rightarrow> ('w, (string \<rightharpoonup> string) option) act" where
  "must_load_secrets client arns = load_secrets client Map.empty arns"

lemma load_secrets_dom:
  "result (load_secrets client m arns) w = Some m' \<Longrightarrow> dom m' = dom m \<union> set arns"
  by (induction client m arns arbitrary: w rule: load_secrets.induct)
    (auto simp: world_simps split: option.splits)

subsection \<open>The log level\<close>

datatype log_level = LevelDebug | LevelInfo | LevelWarn | LevelError

text \<open>
  \<open>strings.ToUpper\<close> compared with ASCII text: U+0131 and U+017F are the code points above ASCII
  whose upper case is an ASCII letter.
\<close>

function upper_name :: "string \<Rightarrow> string" where
  "upper_name s =
     (case s of
        [] \<Rightarrow> []
      | c # r \<Rightarrow>
          if has_prefix s [CHR 0xC4, CHR 0xB1] then CHR ''I'' # upper_name (drop 2 s)
          else if has_prefix s [CHR 0xC5, CHR 0xBF] then CHR ''S'' # upper_name (drop 2 s)
          else ascii_upper c # upper_name r)"
  by pat_completeness auto
termination
  by (relation "measure length") auto

declare upper_name.simps [simp del]

definition level_from_env :: "environ \<Rightarrow> log_level" where
  "level_from_env env =
     (let v = upper_name (env ''ABARIS_LOG_LEVEL'') in
      if v = ''DEBUG'' then LevelDebug
      else if v = ''WARN'' \<or> v = ''WARNING'' then LevelWarn
      else if v = ''ERROR'' then LevelError
      else LevelInfo)"

subsection \<open>Properties of the infrastructure\<close>

text \<open>
  The health endpoint tells the truth about its dependencies: it answers 200 exactly when
  every registered check passes, and otherwise 503; and it names exactly the dependencies of
  which some check failed.
\<close>

lemma health_reports_failures:
  "\<exists>m. result (health_handler ds) w =
      json_reply (if list_all (\<lambda>r. snd r = None) (result (check_all ds) w) then 200 else 503)
        (json_print (health_json m) @ [CHR 0x0A])
    \<and> fst ` set m = {n. \<exists>t. (n, Some t) \<in> set (result (check_all ds) w)}
    \<and> map fst (result (check_all ds) w) = map fst ds"
proof -
  let ?rs = "result (check_all ds) w"
  have "result (health_handler ds) w = json_reply (if degraded [] ?rs = [] then 200 else 503)
      (json_print (health_json (degraded [] ?rs)) @ [CHR 0x0A])"
    by (simp add: health_handler_def Let_def world_simps)
  then show ?thesis
    using degraded_keys [of "[]" ?rs] degraded_Nil [of ?rs] check_all_names [of ds w]
    by (auto simp: list_all_iff)
qed

end
