(* ===== verification/MainWiring.thy ===== *)
theory MainWiring
  imports ConnectHandler ConfigLoader Identity Assertion Infra
begin

section \<open>The composition root (\<^verbatim>\<open>cmd/abaris/main.go\<close>)\<close>

text \<open>
  \<open>run\<close> and its helpers: the order in which the parts are built, every way start-up can end, and
  the process that results. The libraries' constructors and clients are the fields of
  \<open>main_lib\<close>.
\<close>

subsection \<open>Helpers\<close>

definition env_or_default :: "environ \<Rightarrow> string \<Rightarrow> string \<Rightarrow> string" where
  "env_or_default env key fallback = (if env key \<noteq> [] then env key else fallback)"

text \<open>\<open>None\<close> is the exit of the process.\<close>

definition must_env :: "environ \<Rightarrow> string \<Rightarrow> string option" where
  "must_env env key = (if env key = [] then None else Some (env key))"

text \<open>\<open>time.ParseDuration\<close> is a parameter.\<close>

definition env_duration :: "(string \<Rightarrow> int option) \<Rightarrow> environ \<Rightarrow> string \<Rightarrow> int \<Rightarrow> int" where
  "env_duration parse env key fallback =
     (if env key = [] then fallback else (case parse (env key) of None \<Rightarrow> fallback | Some d \<Rightarrow> d))"

definition discovery_suffix :: string where
  "discovery_suffix = ''/.well-known/openid-configuration''"

definition issuer_from_discovery_url :: "string \<Rightarrow> string" where
  "issuer_from_discovery_url url =
     (if length discovery_suffix < length url \<and> has_suffix url discovery_suffix
      then take (length url - length discovery_suffix) url else url)"

definition upper_snake_char :: "char \<Rightarrow> char" where
  "upper_snake_char c =
     (if c = CHR ''-'' then CHR ''_'' else if 97 \<le> byte c \<and> byte c \<le> 122 then char_of (byte c - 32) else c)"

definition to_upper_snake :: "string \<Rightarrow> string" where
  "to_upper_snake s = map upper_snake_char s"

subsection \<open>Service credentials from the environment\<close>

definition cred_env_key :: "string \<Rightarrow> string" where
  "cred_env_key prefix = ''ABARIS_SERVICE_CRED_'' @ to_upper_snake prefix"

fun env_credentials :: "environ \<Rightarrow> (string \<rightharpoonup> string) \<Rightarrow> route_entry list \<Rightarrow> (string \<rightharpoonup> string)" where
  "env_credentials env m [] = m"
| "env_credentials env m (r # rs) =
     env_credentials env (if rt_obo r \<noteq> [] then m else m(rt_prefix r \<mapsto> env (cred_env_key (rt_prefix r)))) rs"

definition new_env_credential_store :: "environ \<Rightarrow> route_entry list \<Rightarrow> (string \<rightharpoonup> string)" where
  "new_env_credential_store env routes = env_credentials env Map.empty routes"

definition get_service_credential :: "golib \<Rightarrow> (string \<rightharpoonup> string) \<Rightarrow> 'w credential_store" where
  "get_service_credential G secrets c prefix =
     ret (case secrets prefix of
        None \<Rightarrow> Inl (wrap_err ErrServiceUnavailable
                  (''no service credential configured for prefix '' @ go_quote (gl_printable G) prefix))
      | Some cred \<Rightarrow> Inr cred)"

subsection \<open>The token store\<close>

text \<open>
  The two backends' constructors are given: \<open>dynamo region\<close> loads the AWS configuration and
  builds a client, \<open>badger dir\<close> opens the database; either may fail with a text.
\<close>

definition build_token_store :: "golib \<Rightarrow> environ \<Rightarrow> (string \<Rightarrow> string + 'w dynamo) \<Rightarrow> (string \<Rightarrow> string + 'w badger)
    \<Rightarrow> ('w token_store \<Rightarrow> string \<Rightarrow> 'w token_store) \<Rightarrow> token_store_config option \<Rightarrow> goerr + 'w token_store" where
  "build_token_store G env dynamo badger encrypted ts =
     (case ts of
        None \<Rightarrow> Inl (plain_err ''token_store config is required when secondary_providers are configured'')
      | Some t \<Rightarrow>
          (case (if tk_type t = ''dynamodb'' then
                   (if tk_table t = [] then Inl (plain_err ''token_store.table_name is required for dynamodb backend'')
                    else (case dynamo (if tk_region t = [] then env ''AWS_REGION'' else tk_region t) of
                        Inl x \<Rightarrow> Inl (plain_err (''load AWS config for DynamoDB: '' @ x))
                      | Inr d \<Rightarrow> Inr (dynamo_store G d (tk_table t))))
                 else if tk_type t = ''badger'' then
                   (if tk_data_dir t = [] then Inl (plain_err ''token_store.data_dir is required for badger backend'')
                    else (case new_badger_token_store G badger (tk_data_dir t) of
                        Inl e \<Rightarrow> Inl (prefix_err (''open BadgerDB at '' @ tk_data_dir t @ '': '') e)
                      | Inr b \<Rightarrow> Inr b))
                 else Inl (plain_err (''unknown token_store type '' @ go_quote (gl_printable G) (tk_type t)
                        @ '' (must be dynamodb or badger)''))) of
             Inl e \<Rightarrow> Inl e
           | Inr backend \<Rightarrow> Inr (encrypted backend (tk_kms_arn t))))"

subsection \<open>What the helpers promise\<close>

lemma issuer_from_discovery [simp]:
  "issuer \<noteq> [] \<Longrightarrow> issuer_from_discovery_url (issuer @ discovery_suffix) = issuer"
  by (simp add: issuer_from_discovery_url_def has_suffix_iff)

lemma env_credentials_lookup:
  "env_credentials env m rs p =
     (if \<exists>r \<in> set rs. rt_obo r = [] \<and> rt_prefix r = p then Some (env (cred_env_key p)) else m p)"
  by (induction env m rs rule: env_credentials.induct) auto

lemma get_service_credential_iff:
  "result (get_service_credential G (new_env_credential_store env routes) c p) w =
     (if \<exists>r \<in> set routes. rt_obo r = [] \<and> rt_prefix r = p then Inr (env (cred_env_key p))
      else Inl (wrap_err ErrServiceUnavailable
             (''no service credential configured for prefix '' @ go_quote (gl_printable G) p)))"
  by (simp add: get_service_credential_def new_env_credential_store_def env_credentials_lookup)

subsection \<open>Wiring\<close>

text \<open>
  What \<open>run\<close> takes from outside: the environment and the clients of the libraries. The two
  transports' default \<open>http.Client\<close>s are one parameter: their requests differ in a header, on
  which its answers may depend. The policy
  engine is shared and mutable, so its state lives in the world, read by \<open>mx_get_opa\<close> and set
  by \<open>mx_put_opa\<close>.
\<close>

record ('w, 'y, 'm, 'k, 'x) main_lib =
  mx_golib :: golib
  mx_env :: environ
  mx_config :: "'y config_env"
  mx_aws_error :: "string option"
  mx_secrets_error :: "string option"
  mx_secrets :: "'w secrets_client"
  mx_verifier :: "string \<Rightarrow> string \<Rightarrow> string \<Rightarrow> string \<Rightarrow> ('w, string + id_claims) act"
  mx_cache :: "int \<Rightarrow> 'w id_cache"
  mx_saml :: "('w, 'm, 'k, 'x) saml_lib"
  mx_minter :: "'w minter_lib"
  mx_kms :: "'w kms_client"
  mx_dynamo :: "string \<Rightarrow> string + 'w dynamo"
  mx_badger :: "string \<Rightarrow> string + 'w badger"
  mx_crypto :: "'w crypto"
  mx_opa_lib :: opa_lib
  mx_bundle :: bundle_outcome
  mx_get_opa :: "'w \<Rightarrow> opa"
  mx_put_opa :: "opa \<Rightarrow> 'w \<Rightarrow> 'w"
  mx_client :: "'w http_client"
  mx_round_trip :: "'w round_tripper"
  mx_token_source :: "'w token_source"

datatype 'a startup = Exited | Failed goerr | Up 'a

definition oidc_config_of :: "idp_config \<Rightarrow> oidc_config" where
  "oidc_config_of p =
     \<lparr>og_name = ip_name p, og_issuer = issuer_from_discovery_url (ip_discovery p), og_jwks = ip_jwks p,
      og_client_id = ip_client_id p, og_audience = ip_audience p, og_groups_claim = ip_groups_claim p,
      og_cache_ttl = 0\<rparr>"

definition saml_config_of :: "idp_config \<Rightarrow> saml_config" where
  "saml_config_of p =
     \<lparr>sc_name = ip_name p, sc_metadata_url = ip_metadata p, sc_sp_entity = ip_sp_entity p, sc_acs = ip_acs p,
      sc_cert_path = ip_cert p, sc_key_path = ip_key p, sc_cache_ttl = 0\<rparr>"

text \<open>The loop over the identity providers; an OIDC adapter is kept under its issuer, a SAML adapter
  under the entity id of the service provider.\<close>

fun wire_idps :: "('w, 'y, 'm, 'k, 'x) main_lib \<Rightarrow> idp_config list \<Rightarrow> 'w multi \<Rightarrow> ('w, goerr + 'w multi) act" where
  "wire_idps X [] m = ret (Inr m)"
| "wire_idps X (p # ps) m =
     (if ip_type p = ''oidc'' then
        (case new_oidc (mx_verifier X) (mx_cache X) (oidc_config_of p) of
           Inl e \<Rightarrow> ret (Inl (prefix_err (''wire OIDC adapter ''
                      @ go_quote (gl_printable (mx_golib X)) (ip_name p) @ '': '') e))
         | Inr a \<Rightarrow> wire_idps X ps (m\<lparr>mu_oidc :=
             map_put (issuer_from_discovery_url (ip_discovery p)) (oidc_resolve a) (mu_oidc m)\<rparr>))
      else if ip_type p = ''saml'' then
        State_Monad.bind (new_saml (mx_saml X) (saml_config_of p)) (\<lambda>r. case r of
           Inl e \<Rightarrow> ret (Inl (prefix_err (''wire SAML adapter ''
                      @ go_quote (gl_printable (mx_golib X)) (ip_name p) @ '': '') e))
         | Inr a \<Rightarrow> wire_idps X ps (m\<lparr>mu_saml := map_put (ip_sp_entity p) (saml_resolve a) (mu_saml m)\<rparr>))
      else wire_idps X ps m)"

text \<open>
  The on-behalf-of pipeline and the connect handler exist when there are secondary providers and
  a token store. The pipeline's \<open>Refresher\<close> is not set.
\<close>

definition wire_obo :: "('w, 'y, 'm, 'k, 'x) main_lib \<Rightarrow> config \<Rightarrow> 'w identity_service \<Rightarrow> 'w policy_engine
    \<Rightarrow> 'w assertion_minter \<Rightarrow> 'w token_store option
    \<Rightarrow> ('w, ('w obo_pipeline option \<times> 'w connect option) startup) act" where
  "wire_obo X cfg idsvc engine minter store =
     (case (cf_secondary cfg, store) of
        (sp # sps, Some st) \<Rightarrow>
          (case new_obo_pipeline (hc_new_request (mx_client X))
                  \<lparr>oc_identity = Some idsvc, oc_policy = Some engine, oc_token_store = Some st,
                   oc_minter = Some minter, oc_refresher = None,
                   oc_transport = Some (new_refresh_transport (mx_round_trip X) (Some (mx_round_trip X))
                     (Some (oauth2_refresh (mx_golib X) (mx_token_source X) (cf_secondary cfg)))),
                   oc_sse = Some (new_sse_backend_transport (mx_golib X) (mx_client X) None), oc_logger = True\<rparr> of
             Inl e \<Rightarrow> ret (Failed (prefix_err ''wire OBO pipeline: '' e))
           | Inr p \<Rightarrow>
          (case must_env (mx_env X) ''ABARIS_STATE_KEY_ARN'' of
             None \<Rightarrow> ret Exited
           | Some arn \<Rightarrow> State_Monad.bind (must_get_secret (mx_secrets X) arn) (\<lambda>k. ret (case k of
               None \<Rightarrow> Exited
             | Some key \<Rightarrow>
          (case must_env (mx_env X) ''ABARIS_REDIRECT_URI'' of
             None \<Rightarrow> Exited
           | Some uri \<Rightarrow>
          (case new_connect_handler \<lparr>cc_identity = Some idsvc, cc_store = Some st, cc_providers = cf_secondary cfg,
                  cc_key = key, cc_ttl = 0, cc_redirect = uri, cc_logger = True\<rparr> of
             Inl e \<Rightarrow> Failed (prefix_err ''wire ConnectHandler: '' e)
           | Inr h \<Rightarrow> Up (Some (obo_execute (mx_golib X) p), Some h)))))))
      | _ \<Rightarrow> ret (Up (None, None)))"

text \<open>The process once it is up: what the HTTP handlers, the input loop and the watcher run on.\<close>

record ('w, 'y) system =
  sy_broker :: "'w broker"
  sy_connect :: "'w connect option"
  sy_minter :: "'w minter"
  sy_loader :: "'y loader"
  sy_addr :: string

definition wire_store :: "('w, 'y, 'm, 'k, 'x) main_lib \<Rightarrow> config \<Rightarrow> goerr + 'w token_store option" where
  "wire_store X cfg =
     (case cf_token_store cfg of
        None \<Rightarrow> Inr None
      | Some t \<Rightarrow> map_sum id Some (build_token_store (mx_golib X) (mx_env X) (mx_dynamo X) (mx_badger X)
          (\<lambda>backend arn. encrypted_store (mx_golib X) (mx_crypto X) arn backend) (Some t)))"

definition wire_broker :: "('w, 'y, 'm, 'k, 'x) main_lib \<Rightarrow> config \<Rightarrow> 'w identity_service \<Rightarrow> 'w policy_engine
    \<Rightarrow> 'w assertion_minter \<Rightarrow> 'w token_store option \<Rightarrow> 'w obo_pipeline option \<Rightarrow> goerr + 'w broker" where
  "wire_broker X cfg idsvc engine minter store obo =
     new_broker (mx_golib X) (mx_client X)
       \<lparr>bc_identity = Some idsvc, bc_policy = Some engine,
        bc_transport = Some (new_http_backend_transport (mx_golib X) (mx_client X) None),
        bc_sse = Some (new_sse_backend_transport (mx_golib X) (mx_client X) None), bc_minter = Some minter,
        bc_creds = Some (get_service_credential (mx_golib X) (new_env_credential_store (mx_env X) (cf_routes cfg))),
        bc_logger = True, bc_routes = cf_routes cfg, bc_store = store, bc_obo = obo\<rparr>"

text \<open>Steps 5 to 12, from the configuration with its secrets resolved.\<close>

definition wire_services :: "('w, 'y, 'm, 'k, 'x) main_lib \<Rightarrow> 'y loader \<Rightarrow> ('w, ('w, 'y) system startup) act" where
  "wire_services X l =
     (let G = mx_golib X; cfg = current l in
      State_Monad.bind (wire_idps X (cf_idps cfg) \<lparr>mu_oidc = [], mu_saml = []\<rparr>) (\<lambda>r. case r of
        Inl e \<Rightarrow> ret (Failed e)
      | Inr ms \<Rightarrow> (case new_multi (mu_oidc ms) (mu_saml ms) of
        Inl e \<Rightarrow> ret (Failed (prefix_err ''wire MultiProviderIdentityService: '' e))
      | Inr m \<Rightarrow> State_Monad.bind (new_minter (mx_minter X) (cf_assertion cfg) (mx_kms X)) (\<lambda>r. case r of
        Inl e \<Rightarrow> ret Exited
      | Inr mn \<Rightarrow> (case wire_store X cfg of
        Inl e \<Rightarrow> ret Exited
      | Inr store \<Rightarrow> (case opa_new G (mx_bundle X) (env_or_default (mx_env X) ''ABARIS_BUNDLE_PATH'' ''/app/policies'')
                            (cf_policies cfg) of
        Inl e \<Rightarrow> ret (Failed (prefix_err ''wire OPA policy engine: '' e))
      | Inr a \<Rightarrow> State_Monad.bind (State (\<lambda>w. ((), mx_put_opa X a w))) (\<lambda>_.
          let engine = opa_engine (mx_opa_lib X) G (mx_get_opa X); minter = mint (mx_minter X) mn;
              idsvc = multi_resolve G m in
          State_Monad.bind (wire_obo X cfg idsvc engine minter store) (\<lambda>r. ret (case r of
             Exited \<Rightarrow> Exited
           | Failed e \<Rightarrow> Failed e
           | Up (obo, connect) \<Rightarrow> (case wire_broker X cfg idsvc engine minter store obo of
               Inl e \<Rightarrow> Failed (prefix_err ''wire Broker: '' e)
             | Inr b \<Rightarrow> Up \<lparr>sy_broker = b, sy_connect = connect, sy_minter = mn, sy_loader = l,
                             sy_addr = listen_addr (mx_env X)\<rparr>))))))))))"

text \<open>
  The whole of \<open>run\<close> up to serving. The watched loader is the first one, built without a
  callback; the second loader, which has one, is neither loaded nor watched, so it does not
  appear.
\<close>

definition start :: "('w, 'y, 'm, 'k, 'x) main_lib \<Rightarrow> ('w, ('w, 'y) system startup) act" where
  "start X =
     (let l0 = new_loader (env_or_default (mx_env X) ''ABARIS_CONFIG_DIR'' ''/app/config'') False in
      case load (mx_golib X) (mx_config X) l0 of
        (Inl e, _) \<Rightarrow> ret Exited
      | (Inr _, l) \<Rightarrow>
     (case must_env (mx_env X) ''AWS_REGION'' of
        None \<Rightarrow> ret Exited
      | Some region \<Rightarrow>
          if mx_aws_error X \<noteq> None then ret Exited
          else (case new_secrets_manager_adapter (mx_secrets_error X) (mx_secrets X) of
             Inl e \<Rightarrow> ret Exited
           | Inr secrets \<Rightarrow> State_Monad.bind
               (resolve_secondary_provider_secrets (\<lambda>arn. get_idp_client_secret secrets arn) l)
               (\<lambda>(e, l'). if e \<noteq> None then ret Exited else wire_services X l'))))"

subsection \<open>The system that comes up\<close>

lemma load_callback: "load G E l = (r, l') \<Longrightarrow> ld_has_callback l' = ld_has_callback l"
  by (auto simp: load_def Let_def split: sum.splits prod.splits option.splits)

lemma secrets_callback:
  "result (resolve_secondary_provider_secrets get l) w = (e, l') \<Longrightarrow> ld_has_callback l' = ld_has_callback l"
  by (auto simp: resolve_secondary_provider_secrets_def world_simps split: prod.splits)

text \<open>Resolving secrets changes the secrets only.\<close>

lemma resolve_secrets_shape:
  "map (\<lambda>p. p\<lparr>sp_secret := []\<rparr>) (snd (result (resolve_secrets get ps) w)) = map (\<lambda>p. p\<lparr>sp_secret := []\<rparr>) ps"
  by (induction get ps arbitrary: w rule: resolve_secrets.induct)
    (auto simp: world_simps case_prod_beta split: sum.splits)

lemma resolve_secrets_names:
  "map sp_name (snd (result (resolve_secrets get ps) w)) = map sp_name ps"
proof -
  have "map sp_name qs = map sp_name (map (\<lambda>p. p\<lparr>sp_secret := []\<rparr>) qs)" for qs :: "secondary_provider list" by simp
  then show ?thesis using resolve_secrets_shape by metis
qed

lemma resolve_secrets_valid:
  "list_all (valid_secondary is_url) (snd (result (resolve_secrets get ps) w)) = list_all (valid_secondary is_url) ps"
proof -
  have "list_all (valid_secondary is_url) qs
      = list_all (valid_secondary is_url) (map (\<lambda>p. p\<lparr>sp_secret := []\<rparr>) qs)" for qs :: "secondary_provider list"
    by (induction qs) (simp_all add: valid_secondary_def)
  then show ?thesis using resolve_secrets_shape by metis
qed

lemma secrets_config_ok:
  assumes "result (resolve_secondary_provider_secrets get l) w = (e, l')" and "config_ok G (ld_current l)"
  shows "config_ok G (ld_current l')"
proof -
  have "l' = l\<lparr>ld_current := (ld_current l)\<lparr>cf_secondary := snd (result (resolve_secrets get (cf_secondary (ld_current l))) w)\<rparr>\<rparr>"
    using assms(1) by (auto simp: resolve_secondary_provider_secrets_def world_simps split: prod.splits)
  then show ?thesis
    using assms(2) by (simp add: config_ok_def tags_ok_def valid_identity_def resolve_secrets_names resolve_secrets_valid)
qed

lemma wire_services_up:
  assumes "result (wire_services X l) w = Up s"
  shows "sy_loader s = l" and "bk_routes (sy_broker s) = cf_routes (ld_current l)"
proof -
  have loader: "sy_loader s = l \<and> bk_routes (sy_broker s) = cf_routes (ld_current l)"
    using assms
    by (auto simp: wire_services_def world_simps Let_def current_def wire_broker_def new_broker_def
        split: sum.splits startup.splits prod.splits option.splits)
  then show "sy_loader s = l" "bk_routes (sy_broker s) = cf_routes (ld_current l)" by simp_all
qed

lemma start_up:
  assumes "result (start X) w = Up s"
  shows "config_ok (mx_golib X) (ld_current (sy_loader s))" and "\<not> ld_has_callback (sy_loader s)"
    and "bk_routes (sy_broker s) = cf_routes (ld_current (sy_loader s))"
proof -
  let ?G = "mx_golib X"
  obtain cfg l region where load: "load ?G (mx_config X)
      (new_loader (env_or_default (mx_env X) ''ABARIS_CONFIG_DIR'' ''/app/config'') False) = (Inr cfg, l)"
      and rest: "result (State_Monad.bind
          (resolve_secondary_provider_secrets (\<lambda>arn. get_idp_client_secret (mx_secrets X) arn) l)
          (\<lambda>(e, l'). if e \<noteq> None then ret Exited else wire_services X l')) w = Up s"
    using assms by (auto simp: start_def Let_def new_secrets_manager_adapter_def split: prod.splits sum.splits option.splits if_splits)
  obtain e l' where sec: "result (resolve_secondary_provider_secrets
      (\<lambda>arn. get_idp_client_secret (mx_secrets X) arn) l) w = (e, l')" by fastforce
  then have up: "\<exists>w'. result (wire_services X l') w' = Up s"
    using rest by (auto simp: result_bind split: if_splits)
  have "\<not> ld_has_callback l" using load_callback [OF load] by (simp add: new_loader_def)
  then have "\<not> ld_has_callback l'" using secrets_callback [OF sec] by simp
  moreover have "config_ok ?G (ld_current l')" using secrets_config_ok [OF sec] load_ok [OF load] by simp
  ultimately show "config_ok ?G (ld_current (sy_loader s))" "\<not> ld_has_callback (sy_loader s)"
      "bk_routes (sy_broker s) = cf_routes (ld_current (sy_loader s))"
    using up wire_services_up by (metis)+
qed

text \<open>
  The adapters of the identity service that \<open>run\<close> builds: each is built from a configured provider,
  an OIDC adapter answering for the issuer of its discovery URL and a SAML adapter for the entity
  id of the service provider.
\<close>

definition oidc_adapter :: "('w, 'y, 'm, 'k, 'x) main_lib \<Rightarrow> idp_config list \<Rightarrow> string \<times> 'w identity_service \<Rightarrow> bool" where
  "oidc_adapter X ps kf \<longleftrightarrow>
     (\<exists>p a. p \<in> set ps \<and> ip_type p = ''oidc'' \<and> new_oidc (mx_verifier X) (mx_cache X) (oidc_config_of p) = Inr a
        \<and> kf = (issuer_from_discovery_url (ip_discovery p), oidc_resolve a))"

definition saml_adapter :: "('w, 'y, 'm, 'k, 'x) main_lib \<Rightarrow> idp_config list \<Rightarrow> string \<times> 'w identity_service \<Rightarrow> bool" where
  "saml_adapter X ps kf \<longleftrightarrow>
     (\<exists>p w a. p \<in> set ps \<and> ip_type p = ''saml'' \<and> result (new_saml (mx_saml X) (saml_config_of p)) w = Inr a
        \<and> kf = (ip_sp_entity p, saml_resolve a))"

definition wired_adapters :: "('w, 'y, 'm, 'k, 'x) main_lib \<Rightarrow> config \<Rightarrow> 'w multi \<Rightarrow> bool" where
  "wired_adapters X cfg m \<longleftrightarrow>
     list_all (oidc_adapter X (cf_idps cfg)) (mu_oidc m) \<and> list_all (saml_adapter X (cf_idps cfg)) (mu_saml m)"

definition saml_entities :: "config \<Rightarrow> string set" where
  "saml_entities cfg = {ip_sp_entity p | p. p \<in> set (cf_idps cfg) \<and> ip_type p = ''saml''}"

lemma wired_adapters_entities: "wired_adapters X cfg m \<Longrightarrow> fst ` set (mu_saml m) \<subseteq> saml_entities cfg"
  by (fastforce simp: wired_adapters_def saml_adapter_def saml_entities_def list_all_iff)

lemma list_all_map_put: "list_all P m \<Longrightarrow> P (k, v) \<Longrightarrow> list_all P (map_put k v m)"
  using set_map_put [of k v m] by (auto simp: list_all_iff)

lemma wire_idps_adapters:
  assumes "result (wire_idps X ps m) w = Inr m'" and "set ps \<subseteq> set all"
    and "list_all (oidc_adapter X all) (mu_oidc m) \<and> list_all (saml_adapter X all) (mu_saml m)"
  shows "list_all (oidc_adapter X all) (mu_oidc m') \<and> list_all (saml_adapter X all) (mu_saml m')"
  using assms
proof (induction ps arbitrary: m w)
  case (Cons p ps)
  let ?put_oidc = "\<lambda>a. m\<lparr>mu_oidc := map_put (issuer_from_discovery_url (ip_discovery p)) (oidc_resolve a) (mu_oidc m)\<rparr>"
    and ?put_saml = "\<lambda>a. m\<lparr>mu_saml := map_put (ip_sp_entity p) (saml_resolve a) (mu_saml m)\<rparr>"
  have p: "p \<in> set all" "set ps \<subseteq> set all" using Cons.prems(2) by simp_all
  consider (oidc) a where "ip_type p = ''oidc''" "new_oidc (mx_verifier X) (mx_cache X) (oidc_config_of p) = Inr a"
        "result (wire_idps X ps (?put_oidc a)) w = Inr m'"
    | (saml) a where "ip_type p = ''saml''" "result (new_saml (mx_saml X) (saml_config_of p)) w = Inr a"
        "result (wire_idps X ps (?put_saml a)) (after (new_saml (mx_saml X) (saml_config_of p)) w) = Inr m'"
    | (other) "result (wire_idps X ps m) w = Inr m'"
    using Cons.prems(1) by (auto simp: world_simps split: sum.splits if_splits)
  then show ?case
  proof cases
    case oidc
    then have "oidc_adapter X all (issuer_from_discovery_url (ip_discovery p), oidc_resolve a)"
      using p(1) by (auto simp: oidc_adapter_def)
    then show ?thesis using Cons.IH [OF oidc(3) p(2)] Cons.prems(3) by (simp add: list_all_map_put)
  next
    case saml
    then have "saml_adapter X all (ip_sp_entity p, saml_resolve a)"
      using p(1) by (auto simp: saml_adapter_def)
    then show ?thesis using Cons.IH [OF saml(3) p(2)] Cons.prems(3) by (simp add: list_all_map_put)
  next
    case other
    then show ?thesis using Cons.IH [OF other p(2)] Cons.prems(3) by simp
  qed
qed simp

text \<open>The pipeline and the broker of \<open>run\<close>, part by part.\<close>

definition process_pipeline :: "('w, 'y, 'm, 'k, 'x) main_lib \<Rightarrow> config \<Rightarrow> 'w identity_service \<Rightarrow> 'w policy_engine
    \<Rightarrow> 'w assertion_minter \<Rightarrow> 'w token_store \<Rightarrow> 'w obo" where
  "process_pipeline X cfg idsvc engine minter st =
     \<lparr>ob_identity = idsvc, ob_policy = engine, ob_store = st, ob_minter = minter, ob_refresher = None,
      ob_transport = refresh_round_trip (mx_round_trip X)
        (Some (oauth2_refresh (mx_golib X) (mx_token_source X) (cf_secondary cfg))),
      ob_sse = Some (sse_forward (mx_golib X) (mx_client X)), ob_new_request = hc_new_request (mx_client X)\<rparr>"

definition process_obo :: "('w, 'y, 'm, 'k, 'x) main_lib \<Rightarrow> config \<Rightarrow> 'w identity_service \<Rightarrow> 'w policy_engine
    \<Rightarrow> 'w assertion_minter \<Rightarrow> 'w token_store option \<Rightarrow> 'w obo_pipeline option" where
  "process_obo X cfg idsvc engine minter store =
     (case store of
        Some st \<Rightarrow> if cf_secondary cfg = [] then None
          else Some (obo_execute (mx_golib X) (process_pipeline X cfg idsvc engine minter st))
      | None \<Rightarrow> None)"

definition wired_parts :: "('w, 'y, 'm, 'k, 'x) main_lib \<Rightarrow> config \<Rightarrow> 'w multi \<Rightarrow> 'w minter \<Rightarrow> 'w broker \<Rightarrow> bool" where
  "wired_parts X cfg m mn b \<longleftrightarrow>
     bk_identity b = multi_resolve (mx_golib X) m \<and> wired_adapters X cfg m
     \<and> bk_policy b = opa_engine (mx_opa_lib X) (mx_golib X) (mx_get_opa X)
     \<and> bk_transport b = http_forward (mx_golib X) (mx_client X) \<and> bk_sse b = sse_forward (mx_golib X) (mx_client X)
     \<and> bk_minter b = mint (mx_minter X) mn \<and> mn_cfg mn = cf_assertion cfg \<and> mn_kms mn = mx_kms X
     \<and> bk_creds b = get_service_credential (mx_golib X) (new_env_credential_store (mx_env X) (cf_routes cfg))
     \<and> bk_routes b = cf_routes cfg \<and> wire_store X cfg = Inr (bk_store b)
     \<and> bk_obo b = process_obo X cfg (bk_identity b) (bk_policy b) (bk_minter b) (bk_store b)"

definition wired_connect :: "'w broker \<Rightarrow> 'w connect option \<Rightarrow> bool" where
  "wired_connect b connect \<longleftrightarrow>
     (case connect of None \<Rightarrow> True | Some h \<Rightarrow> cn_identity h = bk_identity b \<and> bk_store b = Some (cn_store h))"

lemma wire_obo_parts:
  assumes "result (wire_obo X cfg idsvc engine minter store) w = Up (obo, connect)"
  shows "obo = process_obo X cfg idsvc engine minter store"
    and "connect = Some h \<Longrightarrow> cn_identity h = idsvc \<and> store = Some (cn_store h)"
  using assms
  by (auto simp: wire_obo_def world_simps process_obo_def process_pipeline_def new_obo_pipeline_def new_connect_handler_def
      split: list.splits option.splits sum.splits if_splits)

lemma new_multi_parts:
  "new_multi (mu_oidc m) (mu_saml m) =
     (if mu_oidc m = [] \<and> mu_saml m = [] then Inl (plain_err ''auth: at least one identity provider adapter is required'')
      else Inr m)"
  by (cases m) (simp add: new_multi_def)

lemma new_minter_parts: "result (new_minter L cfg K) w = Inr m \<Longrightarrow> mn_cfg m = cfg \<and> mn_kms m = K"
  by (auto simp: new_minter_def world_simps split: if_splits sum.splits)

lemma wire_services_broker:
  assumes "result (wire_services X l) w = Up s"
  shows "\<exists>m. wired_parts X (ld_current l) m (sy_minter s) (sy_broker s)"
    and "wired_connect (sy_broker s) (sy_connect s)"
proof -
  obtain ms where ms: "result (wire_idps X (cf_idps (ld_current l)) \<lparr>mu_oidc = [], mu_saml = []\<rparr>) w = Inr ms"
    using assms by (auto simp: wire_services_def world_simps Let_def current_def split: sum.splits)
  let ?idsvc = "multi_resolve (mx_golib X) ms"
    and ?engine = "opa_engine (mx_opa_lib X) (mx_golib X) (mx_get_opa X)"
  obtain store obo v v' where parts:
      "result (new_minter (mx_minter X) (cf_assertion (ld_current l)) (mx_kms X)) v' = Inr (sy_minter s)"
      "wire_store X (ld_current l) = Inr store"
      "result (wire_obo X (ld_current l) ?idsvc ?engine (mint (mx_minter X) (sy_minter s)) store) v = Up (obo, sy_connect s)"
      "wire_broker X (ld_current l) ?idsvc ?engine (mint (mx_minter X) (sy_minter s)) store obo = Inr (sy_broker s)"
    using assms ms
    by (auto simp: wire_services_def world_simps Let_def current_def new_multi_parts
        split: sum.splits startup.splits prod.splits if_splits)
  have adapters: "wired_adapters X (ld_current l) ms"
    using wire_idps_adapters [OF ms subset_refl] by (simp add: wired_adapters_def)
  have "wired_parts X (ld_current l) ms (sy_minter s) b \<and> wired_connect b (sy_connect s)"
    if "wire_broker X (ld_current l) ?idsvc ?engine (mint (mx_minter X) (sy_minter s)) store obo = Inr b" for b
    using that parts(2) wire_obo_parts [OF parts(3)] new_minter_parts [OF parts(1)] adapters
    by (auto simp: wired_parts_def wired_connect_def wire_broker_def new_broker_def split: option.splits)
  then have "wired_parts X (ld_current l) ms (sy_minter s) (sy_broker s)" "wired_connect (sy_broker s) (sy_connect s)"
    using parts(4) by blast+
  then show "\<exists>m. wired_parts X (ld_current l) m (sy_minter s) (sy_broker s)"
    and "wired_connect (sy_broker s) (sy_connect s)"
    by blast+
qed

lemma start_broker:
  assumes "result (start X) w = Up s"
  shows "\<exists>m. wired_parts X (ld_current (sy_loader s)) m (sy_minter s) (sy_broker s)"
    and "wired_connect (sy_broker s) (sy_connect s)"
proof -
  obtain l w' where up: "result (wire_services X l) w' = Up s"
    using assms by (auto simp: start_def Let_def world_simps split: prod.splits sum.splits option.splits if_splits)
  then show "\<exists>m. wired_parts X (ld_current (sy_loader s)) m (sy_minter s) (sy_broker s)"
    using wire_services_broker(1) [OF up] wire_services_up(1) [OF up] by simp
  show "wired_connect (sy_broker s) (sy_connect s)" by (rule wire_services_broker(2) [OF up])
qed

text \<open>A loader without a callback tells nobody what it reloads.\<close>

lemma watch_silent: "\<not> ld_has_callback l \<Longrightarrow> fst (watch G es l) = []"
proof (induction es arbitrary: l)
  case (Cons e es)
  show ?case
  proof (cases e)
    case (FileEvent name ops E)
    obtain c l' where r: "reload_policies G E l = (c, l')" by fastforce
    then have "c = None \<and> \<not> ld_has_callback l'"
      by (cases rule: reload_cases) (use Cons.prems in auto)
    then show ?thesis using Cons r unfolding FileEvent watch_FileEvent by simp
  qed (use Cons in simp_all)
qed simp

lemma watch_no_callback: "\<not> ld_has_callback l \<Longrightarrow> \<not> ld_has_callback (snd (watch G es l))"
proof (induction es arbitrary: l)
  case (Cons e es)
  show ?case
  proof (cases e)
    case (FileEvent name ops E)
    obtain c l' where r: "reload_policies G E l = (c, l')" by fastforce
    then have "\<not> ld_has_callback l'" by (cases rule: reload_cases) (use Cons.prems in auto)
    then show ?thesis using Cons r unfolding FileEvent watch_FileEvent by simp
  qed (use Cons in simp_all)
qed simp

lemma watch_same: "same_but_policies (ld_current (snd (watch G es l))) (ld_current l)"
proof (induction es arbitrary: l)
  case (Cons e es)
  show ?case
  proof (cases e)
    case (FileEvent name ops E)
    show ?thesis
      using Cons.IH [of l] Cons.IH [of "snd (reload_policies G E l)"] reload_same [of G E l]
      unfolding FileEvent watch_FileEvent by (simp add: same_but_policies_def)
  qed (use Cons in \<open>simp_all add: same_but_policies_def\<close>)
qed (simp add: same_but_policies_def)

subsection \<open>Properties of the running process\<close>

text \<open>
  C29: A process that comes up runs on a validated configuration: the broker routes by the routes
  of the loaded configuration, whose policies name only those routes; its parts are the identity
  service over the configured providers, the OPA engine, the two transports, the KMS minter, the
  service credentials of the environment, the configured token store, and, exactly when there are
  secondary providers and a store, an on-behalf-of pipeline; and the loader that the watcher runs
  on has no callback.
\<close>

theorem running_process_is_configured:
  assumes "result (start X) w = Up s"
  shows "config_ok (mx_golib X) (ld_current (sy_loader s))
    \<and> (\<exists>m. wired_parts X (ld_current (sy_loader s)) m (sy_minter s) (sy_broker s))
    \<and> \<not> ld_has_callback (sy_loader s)"
  using start_up [OF assms] start_broker [OF assms] by blast

text \<open>
  C34: SAML logins work only when the identity provider calls itself what the service provider is
  called. In a process that has come up, an assertion whose issuer is not the \<^emph>\<open>service provider's\<close>
  entity id of some configured SAML provider is unauthorized, and no adapter is asked: the
  adapters are registered under \<open>SPEntityID\<close> but looked up by the assertion's issuer, which is the
  identity provider's entity id.
\<close>

theorem saml_issuer_must_be_sp_entity:
  assumes "result (start X) w = Up s" and "cx_saml c = Some xml" and "trim_space xml \<noteq> []"
    and "saml_issuer_from_xml xml = Some issuer" and "issuer \<notin> saml_entities (ld_current (sy_loader s))"
  shows "\<exists>e. run (bk_identity (sy_broker s) c) v = (Inl e, v) \<and> err_is e = ErrUnauthorized"
proof -
  obtain m where m: "bk_identity (sy_broker s) = multi_resolve (mx_golib X) m"
      "fst ` set (mu_saml m) \<subseteq> saml_entities (ld_current (sy_loader s))"
    using start_broker(1) [OF assms(1)] wired_adapters_entities unfolding wired_parts_def by metis
  then have "map_of (mu_saml m) issuer = None" using assms(5) by (auto simp: map_of_eq_None_iff)
  then show ?thesis using m(1) multi_resolve_assertion [OF assms(2-4)] by (simp add: run_result_after wrap_err_def)
qed

end
