(* ===== verification/System.thy ===== *)
theory System
  imports MainWiring
begin

section \<open>The system against a network that records every request\<close>

text \<open>
  The world of this theory records what was sent: method, URL, headers and body of each request,
  in order. \<open>rest\<close> is whatever else the collaborators keep. The answer of the network depends
  on everything sent so far, on the request and on \<open>rest\<close>, and on nothing else: a client reads
  no value from a request's context.
\<close>

record sent =
  st_method :: string
  st_url :: string
  st_header :: "(string \<times> string) list"
  st_body :: "bytes option"

record 'z net =
  nt_sent :: "sent list"
  nt_rest :: 'z

definition sent_of :: "'w http_request \<Rightarrow> sent" where
  "sent_of r = \<lparr>st_method = rq_method r, st_url = rq_url r, st_header = rq_header r, st_body = rq_body r\<rparr>"

type_synonym 'z network = "sent list \<Rightarrow> sent \<Rightarrow> 'z \<Rightarrow> (string + http_response) \<times> 'z"

definition trace_client :: "(string \<Rightarrow> string option) \<Rightarrow> 'z network \<Rightarrow> 'z net http_client" where
  "trace_client check answer =
     \<lparr>hc_new_request = check,
      hc_do = (\<lambda>r. State (\<lambda>w.
        (fst (answer (nt_sent w) (sent_of r) (nt_rest w)),
         \<lparr>nt_sent = nt_sent w @ [sent_of r], nt_rest = snd (answer (nt_sent w) (sent_of r) (nt_rest w))\<rparr>)))\<rparr>"

interpretation trace: client_laws "trace_client check answer"
  by unfold_locales (simp add: trace_client_def sent_of_def)

subsection \<open>What an action sends\<close>

definition sends :: "(sent \<Rightarrow> bool) \<Rightarrow> ('z net, 'a) act \<Rightarrow> bool" where
  "sends P m \<longleftrightarrow> (\<forall>w. \<exists>ss. nt_sent (after m w) = nt_sent w @ ss \<and> list_all P ss)"

text \<open>An action that talks to no backend.\<close>

definition quiet :: "('z net, 'a) act \<Rightarrow> bool" where
  "quiet m \<longleftrightarrow> (\<forall>w. nt_sent (after m w) = nt_sent w)"

named_theorems sends_intros \<open>what composed actions send\<close>

lemma quiet_sends: "quiet m \<Longrightarrow> sends P m"
  by (auto simp: quiet_def sends_def)

lemma quiet_ret [simp]: "quiet (ret x)"
  by (simp add: quiet_def)

lemma sends_ret [sends_intros, simp]: "sends P (ret x)"
  by (simp add: sends_def)

lemma sends_bind [sends_intros]:
  assumes "sends P m" and "\<And>x. sends P (f x)"
  shows "sends P (State_Monad.bind m f)"
  unfolding sends_def
proof
  fix w
  obtain s1 where s1: "nt_sent (after m w) = nt_sent w @ s1" "list_all P s1"
    using assms(1) by (auto simp: sends_def)
  obtain s2 where s2: "nt_sent (after (f (result m w)) (after m w)) = nt_sent (after m w) @ s2" "list_all P s2"
    using assms(2) unfolding sends_def by blast
  show "\<exists>ss. nt_sent (after (State_Monad.bind m f) w) = nt_sent w @ ss \<and> list_all P ss"
    using s1 s2 by (intro exI [of _ "s1 @ s2"]) (simp add: after_bind)
qed

lemma sends_do [sends_intros]: "P (sent_of r) \<Longrightarrow> sends P (hc_do (trace_client check answer) r)"
  by (simp add: sends_def trace_client_def)

text \<open>A request of a transport: to the given URL, with the given credential and no other.\<close>

definition backend_request :: "string \<Rightarrow> string \<Rightarrow> sent \<Rightarrow> bool" where
  "backend_request url cred s \<longleftrightarrow>
     st_method s = ''POST'' \<and> st_url s = url
       \<and> map_of (st_header s) ''Authorization'' = (if cred = [] then None else Some (''Bearer '' @ cred))"

lemma http_forward_sends:
  assumes "cx_cred c = Some cred"
  shows "sends (backend_request url cred) (http_forward G (trace_client check answer) c url call token)"
  using assms unfolding http_forward_def
  by (auto simp: backend_request_def sent_of_def http_headers_authorization ctx_defs
      split: sum.splits option.splits intro!: sends_intros)

lemma sse_post_sends:
  "sends (backend_request url cred) (sse_post G (trace_client check answer) c url call cred token session)"
  unfolding sse_post_def
  by (auto simp: backend_request_def sent_of_def sse_headers_authorization
      split: sum.splits option.splits intro!: sends_intros)

lemma sse_initialize_sends:
  "sends (backend_request url cred) (sse_initialize G (trace_client check answer) c url cred token)"
  unfolding sse_initialize_def by (auto intro!: sends_intros sse_post_sends split: prod.splits)

lemma sse_forward_sends:
  assumes "cx_cred c = Some cred"
  shows "sends (backend_request url cred) (sse_forward G (trace_client check answer) c url call token)"
  using assms unfolding sse_forward_def sse_send_def
  by (auto simp: ctx_defs split: sum.splits prod.splits
      intro!: sends_intros sse_initialize_sends sse_post_sends)

subsection \<open>What the broker sends\<close>

definition new_sent :: "('z net, 'a) act \<Rightarrow> 'z net \<Rightarrow> sent list" where
  "new_sent m w = drop (length (nt_sent w)) (nt_sent (after m w))"

lemma new_sent_sends: "sends P m \<Longrightarrow> s \<in> set (new_sent m w) \<Longrightarrow> P s"
proof -
  assume "sends P m" "s \<in> set (new_sent m w)"
  moreover then obtain ss where "nt_sent (after m w) = nt_sent w @ ss" "list_all P ss"
    by (auto simp: sends_def)
  ultimately show "P s" by (simp add: new_sent_def list_all_iff)
qed

lemma new_sent_quiet: "quiet m \<Longrightarrow> new_sent m w = []"
  by (simp add: quiet_def new_sent_def)

lemma new_sent_after:
  "after m w = after m' w' \<Longrightarrow> nt_sent w' = nt_sent w \<Longrightarrow> new_sent m w = new_sent m' w'"
  by (simp add: new_sent_def)

text \<open>
  A broker over the recording network whose other collaborators send nothing to backends, with
  no token store and no on-behalf-of pipeline (their requests carry the user's own downstream
  token).
\<close>

definition plain_broker :: "golib \<Rightarrow> (string \<Rightarrow> string option) \<Rightarrow> 'z network \<Rightarrow> 'z net broker \<Rightarrow> bool" where
  "plain_broker G check answer b \<longleftrightarrow>
     bk_transport b = http_forward G (trace_client check answer) \<and> bk_sse b = sse_forward G (trace_client check answer)
       \<and> bk_store b = None \<and> bk_obo b = None
       \<and> (\<forall>c. quiet (bk_identity b c)) \<and> (\<forall>c idn call. quiet (pe_evaluate (bk_policy b) c idn call))
       \<and> (\<forall>c idn ns. quiet (pe_filter (bk_policy b) c idn ns)) \<and> (\<forall>c p. quiet (bk_creds b c p))
       \<and> (\<forall>c idn j. quiet (bk_minter b c idn j))"

text \<open>A request to a route's backend with the credential that the store gives for the route.\<close>

definition route_request :: "'z net broker \<Rightarrow> 'z net ctx \<Rightarrow> route_entry \<Rightarrow> sent \<Rightarrow> bool" where
  "route_request b c r s \<longleftrightarrow>
     (\<exists>w cred. result (bk_creds b c (rt_prefix r)) w = Inr cred \<and> backend_request (rt_backend r) cred s)"

lemma transport_for_sends:
  assumes "plain_broker G check answer b" and "cx_cred c = Some cred"
  shows "sends (backend_request url cred) (transport_for b r c url call token)"
  using assms http_forward_sends [OF assms(2)] sse_forward_sends [OF assms(2)]
  by (simp add: transport_for_def plain_broker_def)

text \<open>When a credential is asked for first, what follows knows it.\<close>

lemma sends_bind_result:
  assumes "quiet m" and "\<And>w. sends P (f (result m w))"
  shows "sends P (State_Monad.bind m f)"
  unfolding sends_def
proof
  fix w
  obtain ss where "nt_sent (after (f (result m w)) (after m w)) = nt_sent (after m w) @ ss" "list_all P ss"
    using assms(2) unfolding sends_def by blast
  then show "\<exists>ss. nt_sent (after (State_Monad.bind m f) w) = nt_sent w @ ss \<and> list_all P ss"
    using assms(1) by (auto simp: after_bind quiet_def)
qed

lemma sends_weaken: "sends P m \<Longrightarrow> (\<And>s. P s \<Longrightarrow> Q s) \<Longrightarrow> sends Q m"
  unfolding sends_def by (metis list_all_iff)

lemma route_transport_sends:
  assumes "plain_broker G check answer b" and "result (bk_creds b c (rt_prefix r)) w = Inr cred"
    and "url = rt_backend r"
  shows "sends (route_request b c r) (transport_for b r (with_service_credential c cred) url call token)"
  by (rule sends_weaken [OF transport_for_sends [OF assms(1)]])
    (use assms(2,3) in \<open>auto simp: ctx_defs route_request_def\<close>)

lemma handle_standard_sends:
  assumes b: "plain_broker G check answer b"
  shows "sends (route_request b c route) (handle_standard b c call idn route)"
proof -
  have creds: "quiet (bk_creds b c (rt_prefix route))" using b by (simp add: plain_broker_def)
  have minter: "sends (route_request b c route) (bk_minter b c idn j)" for j
    using b by (intro quiet_sends) (simp add: plain_broker_def)
  show ?thesis
    unfolding handle_standard_def Let_def
    by (rule sends_bind_result [OF creds])
      (auto split: sum.splits intro!: sends_intros minter route_transport_sends [OF b])
qed

lemma list_backend_sends:
  assumes b: "plain_broker G check answer b"
  shows "sends (route_request b c r) (list_backend G' b c idn r)"
proof -
  have cred: "\<exists>w'. result (bk_creds b c (rt_prefix r)) w' = Inr t" if "result (list_credential b c idn r) w = Some t" for w t
    using that b
    by (auto simp: list_credential_def plain_broker_def Let_def world_simps split: if_splits sum.splits)
  have quiet: "quiet (list_credential b c idn r)"
    using b by (auto simp: list_credential_def plain_broker_def Let_def quiet_def after_bind)
  have fwd: "sends (route_request b c r) (transport_for b r (with_service_credential c t) (rt_backend r) call token)"
    if "result (list_credential b c idn r) w = Some t" for w t call token
    using cred [OF that] route_transport_sends [OF b] by blast
  show ?thesis
    unfolding list_backend_def
    by (rule sends_bind_result [OF quiet]) (auto split: option.splits intro!: sends_intros fwd)
qed

lemma find_route_mem: "find_route p rs = Some r \<Longrightarrow> r \<in> set rs \<and> rt_prefix r = p"
  by (induction rs) (auto split: if_splits)

subsection \<open>What a broker sends when its parts are known\<close>

text \<open>
  The contract between a broker and its collaborators on the recording network: identity and
  policy send nothing, and what listing or calling a route's backend sends satisfies \<open>P\<close> of that
  route. Whether the credential is the service's or the user's own, the broker sends requests
  of known routes only, and for a call only after the checks.
\<close>

locale broker_laws =
  fixes b :: "'z net broker" and c :: "'z net ctx" and P :: "route_entry \<Rightarrow> sent \<Rightarrow> bool"
  assumes identity_quiet: "quiet (bk_identity b c)"
    and evaluate_quiet: "quiet (pe_evaluate (bk_policy b) c idn call)"
    and filter_quiet: "quiet (pe_filter (bk_policy b) c idn ns)"
    and list_sends: "(\<And>i. who = Some i \<Longrightarrow> \<exists>w. result (bk_identity b c) w = Inr i) \<Longrightarrow>
      sends (P r) (list_backend G b c who r)"
    and call_sends: "sends (P r) (if rt_obo r \<noteq> [] then handle_obo b c call r else handle_standard b c call idn r)"
begin

lemma loop_sends:
  assumes "\<And>i. who = Some i \<Longrightarrow> \<exists>w. result (bk_identity b c) w = Inr i"
  shows "sends (\<lambda>s. \<exists>r \<in> set rs. P r s) (aggregate_loop G b c who rs acc)"
proof (induction rs arbitrary: acc)
  case (Cons r rs)
  have "sends (\<lambda>s. \<exists>r \<in> set (r # rs). P r s) (list_backend G b c who r)"
    by (rule sends_weaken [OF list_sends [OF assms]]) simp_all
  moreover have "sends (\<lambda>s. \<exists>r \<in> set (r # rs). P r s) (aggregate_loop G b c who rs acc)" for acc
    by (rule sends_weaken [OF Cons]) auto
  ultimately show ?case unfolding aggregate_loop.simps by (intro sends_bind)
qed simp

lemma aggregate_sends: "sends (\<lambda>s. \<exists>r \<in> set (bk_routes b). P r s) (aggregate_tools G b c)"
proof (cases "bk_store b")
  case None
  then show ?thesis by (auto simp: aggregate_tools_def intro!: sends_intros loop_sends)
next
  case (Some st)
  let ?who = "State_Monad.bind (bk_identity b c) (\<lambda>x. ret (case x of Inl e \<Rightarrow> None | Inr i \<Rightarrow> Some i))"
  have q: "quiet ?who" using identity_quiet by (simp add: quiet_def after_bind)
  have known: "\<exists>w. result (bk_identity b c) w = Inr i" if "result ?who w = Some i" for w i
    using that by (auto simp: world_simps split: sum.splits)
  show ?thesis
    unfolding aggregate_tools_def Some option.case
    by (rule sends_bind_result [OF q], rule sends_bind [OF loop_sends], erule known, simp)
qed

lemma discovery_sends:
  assumes "s \<in> set (new_sent (handle_discovery G b c call) w)"
  shows "\<exists>idn route. result (bk_identity b c) w = Inr idn \<and> route \<in> set (bk_routes b) \<and> P route s"
proof (cases "result (bk_identity b c) w")
  case (Inl e)
  have "new_sent (handle_discovery G b c call) w = new_sent (bk_identity b c) w"
    using Inl by (intro new_sent_after) (simp_all add: handle_discovery_def after_bind)
  also have "\<dots> = []" using identity_quiet by (rule new_sent_quiet)
  finally show ?thesis using assms by simp
next
  case (Inr idn)
  have "sends (\<lambda>s. \<exists>r \<in> set (bk_routes b). P r s) (handle_discovery G b c call)"
    unfolding handle_discovery_def
    by (auto split: sum.splits intro!: sends_intros aggregate_sends
        quiet_sends [OF identity_quiet] quiet_sends [OF filter_quiet])
  then show ?thesis using Inr new_sent_sends assms by blast
qed

lemma execution_sends:
  assumes s: "s \<in> set (new_sent (handle_execution G b c call) w)"
  shows "\<exists>idn route. result (bk_identity b c) w = Inr idn
    \<and> says_yes (result (pe_evaluate (bk_policy b) c idn call) (after (bk_identity b c) w))
    \<and> find_route (tool_prefix (tool_name_from_call call)) (bk_routes b) = Some route \<and> P route s"
proof -
  let ?E = "handle_execution G b c call" and ?w1 = "after (bk_identity b c) w"
  have qi: "nt_sent (after (bk_identity b c) x) = nt_sent x" for x
    using identity_quiet by (simp add: quiet_def)
  have qp: "nt_sent (after (pe_evaluate (bk_policy b) c idn call) x) = nt_sent x" for idn x
    using evaluate_quiet by (simp add: quiet_def)
  have none: "nt_sent (after ?E w) \<noteq> nt_sent w" using s by (auto simp: new_sent_def)
  obtain idn where idn: "result (bk_identity b c) w = Inr idn"
    using none qi execution_unidentified [of b c w _ G call]
    by (cases "result (bk_identity b c) w") (auto simp: run_result_after)
  have yes: "says_yes (result (pe_evaluate (bk_policy b) c idn call) ?w1)"
  proof (rule ccontr)
    assume "\<not> ?thesis"
    from execution_refused [OF idn refl this, of G] show False using none by (simp add: run_result_after qi qp)
  qed
  obtain route where route: "find_route (tool_prefix (tool_name_from_call call)) (bk_routes b) = Some route"
  proof (cases "find_route (tool_prefix (tool_name_from_call call)) (bk_routes b)")
    case None
    from execution_unrouted [OF idn refl yes this, of G] have False using none by (simp add: run_result_after qi qp)
    then show ?thesis ..
  qed
  let ?w2 = "after (pe_evaluate (bk_policy b) c idn call) ?w1" and ?f = "strip_prefix_from_call call (rt_prefix route)"
  let ?H = "if rt_obo route \<noteq> [] then handle_obo b c ?f route else handle_standard b c ?f idn route"
  have "after ?E w = after ?H ?w2"
    using execution_routed [OF idn refl yes route, of G] by (simp add: run_result_after)
  then have "new_sent ?E w = new_sent ?H ?w2" by (rule new_sent_after) (simp add: qi qp)
  then have "P route s" using new_sent_sends [OF call_sends] s by metis
  then show ?thesis using idn yes route by blast
qed

lemma handle_sends:
  assumes s: "s \<in> set (new_sent (handle G b c data) w)"
  shows "\<exists>call idn route. parse_tool_call G data = Inr call \<and> result (bk_identity b c) w = Inr idn
    \<and> route \<in> set (bk_routes b) \<and> P route s
    \<and> (tc_method call = ''tools/list''
       \<or> tc_method call = ''tools/call''
         \<and> find_route (tool_prefix (tool_name_from_call call)) (bk_routes b) = Some route
         \<and> says_yes (result (pe_evaluate (bk_policy b) c idn call) (after (bk_identity b c) w)))"
proof (cases "parse_tool_call G data")
  case (Inl e)
  then show ?thesis using s by (simp add: handle_def new_sent_def)
next
  case (Inr call)
  consider "tc_method call = ''tools/list''" | "tc_method call = ''tools/call''"
    | "tc_method call \<noteq> ''tools/list''" "tc_method call \<noteq> ''tools/call''" by blast
  then show ?thesis
  proof cases
    case 1
    then have "s \<in> set (new_sent (handle_discovery G b c call) w)" using s Inr by (simp add: handle_def)
    then show ?thesis using discovery_sends Inr 1 by blast
  next
    case 2
    then have "s \<in> set (new_sent (handle_execution G b c call) w)" using s Inr by (simp add: handle_def)
    then show ?thesis using execution_sends find_route_mem Inr 2 by blast
  next
    case 3
    then show ?thesis using s Inr by (simp add: handle_def new_sent_def)
  qed
qed

end

lemma plain_broker_laws:
  assumes b: "plain_broker G check answer b"
  shows "broker_laws b c (route_request b c)"
proof
  show "sends (route_request b c r) (list_backend G' b c who r)" for who r G'
    by (rule list_backend_sends [OF b])
  show "sends (route_request b c r) (if rt_obo r \<noteq> [] then handle_obo b c call r else handle_standard b c call idn r)"
    for r call idn
    using handle_standard_sends [OF b] b by (auto simp: handle_obo_def plain_broker_def)
qed (use b in \<open>auto simp: plain_broker_def\<close>)

subsection \<open>The engine as the broker sees it\<close>

lemma tool_name_dry: "tool_name_from_call call = dry_tool_name call"
  by (auto simp: tool_name_from_call_def dry_tool_name_def split: option.splits)

end
