(* ===== verification/UserTokens.thy ===== *)
theory UserTokens
  imports System
begin

section \<open>Whose token goes where\<close>

text \<open>
  The broker as \<open>run\<close> wires it: with a token store and the on-behalf-of pipeline over the
  recording network. The pipeline's transport is the refreshing round tripper over a round tripper
  that records; the token store, the OAuth2 refresher, the identity service, the policy engine,
  the minter and the credential store talk to other services than the backends, so they record
  nothing.
\<close>

definition trace_round_trip :: "'z network \<Rightarrow> 'z net round_tripper" where
  "trace_round_trip answer r =
     State (\<lambda>w. (map_sum plain_err id (fst (answer (nt_sent w) (sent_of r) (nt_rest w))),
       \<lparr>nt_sent = nt_sent w @ [sent_of r], nt_rest = snd (answer (nt_sent w) (sent_of r) (nt_rest w))\<rparr>))"

definition quiet_store :: "'z net token_store \<Rightarrow> bool" where
  "quiet_store st \<longleftrightarrow>
     (\<forall>u p. quiet (ts_get st u p)) \<and> (\<forall>u p t. quiet (ts_save st u p t)) \<and> (\<forall>u p. quiet (ts_delete st u p))"

text \<open>The pipeline of \<open>run\<close>, which has no Cognito refresher.\<close>

definition wired_obo :: "golib \<Rightarrow> (string \<Rightarrow> string option) \<Rightarrow> 'z network \<Rightarrow> 'z net token_refresher \<Rightarrow> 'z net token_store
    \<Rightarrow> 'z net obo \<Rightarrow> bool" where
  "wired_obo G check answer refresh st p \<longleftrightarrow>
     ob_refresher p = None \<and> ob_store p = st \<and> ob_transport p = refresh_round_trip (trace_round_trip answer) (Some refresh)
       \<and> ob_sse p = Some (sse_forward G (trace_client check answer))
       \<and> (\<forall>c. quiet (ob_identity p c)) \<and> (\<forall>c idn call. quiet (pe_evaluate (ob_policy p) c idn call))
       \<and> (\<forall>c idn j. quiet (ob_minter p c idn j)) \<and> quiet_store st \<and> (\<forall>u q t. quiet (refresh u q t))"

text \<open>
  A token of a user for a provider: one that the store answered for exactly that user and
  provider, or that the provider gave in exchange for the refresh token of such a pair.
\<close>

definition user_token :: "'w token_store \<Rightarrow> 'w token_refresher \<Rightarrow> string \<Rightarrow> string \<Rightarrow> string \<Rightarrow> bool" where
  "user_token st refresh user provider t \<longleftrightarrow>
     (\<exists>w pair. result (ts_get st user provider) w = Inr pair \<and>
        (t = tp_access pair \<or> (\<exists>w' fresh. result (refresh user provider (tp_refresh pair)) w' = Inr fresh \<and> t = tp_access fresh)))"

definition user_request :: "'w token_store \<Rightarrow> 'w token_refresher \<Rightarrow> string \<Rightarrow> route_entry \<Rightarrow> sent \<Rightarrow> bool" where
  "user_request st refresh user r s \<longleftrightarrow>
     st_method s = ''POST'' \<and> st_url s = rt_backend r
       \<and> (\<exists>t. user_token st refresh user (rt_obo r) t
            \<and> map_of (st_header s) ''Authorization'' \<in> {Some (''Bearer '' @ t)} \<union> (if t = [] then {None} else {}))"

lemma user_request_backend:
  "backend_request (rt_backend r) t s \<Longrightarrow> user_token st refresh user (rt_obo r) t \<Longrightarrow> user_request st refresh user r s"
  unfolding user_request_def backend_request_def by (cases "t = []") (auto intro!: exI [of _ t])

lemma sends_trace_round_trip: "P (sent_of r) \<Longrightarrow> sends P (trace_round_trip answer r)"
  by (simp add: sends_def trace_round_trip_def)

lemma sends_sum [sends_intros]:
  "(\<And>e. x = Inl e \<Longrightarrow> sends P (f e)) \<Longrightarrow> (\<And>y. x = Inr y \<Longrightarrow> sends P (g y)) \<Longrightarrow>
     sends P (case x of Inl e \<Rightarrow> f e | Inr y \<Rightarrow> g y)"
  by (cases x) simp_all

lemma sends_if [sends_intros]: "(b \<Longrightarrow> sends P m) \<Longrightarrow> (\<not> b \<Longrightarrow> sends P n) \<Longrightarrow> sends P (if b then m else n)"
  by simp

lemma user_request_headers:
  assumes "st_method s = ''POST''" and "st_url s = rt_backend r" and "user_token st refresh user (rt_obo r) t"
    and "map_of (st_header s) ''Authorization'' = Some (''Bearer '' @ t)"
  shows "user_request st refresh user r s"
  unfolding user_request_def using assms by blast

lemma refresh_round_trip_sends:
  assumes st: "quiet_store st" and refresh: "\<And>u q t. quiet (refresh u q t)"
    and ctx: "cx_obo (rq_ctx req) = Some \<lparr>oc_store = st, oc_user = user, oc_provider = rt_obo r\<rparr>"
    and req: "rq_method req = ''POST''" "rq_url req = rt_backend r"
      "map_of (rq_header req) ''Authorization'' = Some (''Bearer '' @ t)" "user_token st refresh user (rt_obo r) t"
  shows "sends (user_request st refresh user r) (refresh_round_trip (trace_round_trip answer) (Some refresh) req)"
proof -
  let ?P = "user_request st refresh user r"
  have first: "sends ?P (trace_round_trip answer req)"
    by (rule sends_trace_round_trip, rule user_request_headers [OF _ _ req(4)]) (simp_all add: sent_of_def req)
  have again: "sends ?P (trace_round_trip answer (retry_request req (tp_access fresh)))"
    if "result (ts_get st user (rt_obo r)) w = Inr cur" "result (refresh user (rt_obo r) (tp_refresh cur)) w' = Inr fresh"
    for w w' cur fresh
  proof -
    have "user_token st refresh user (rt_obo r) (tp_access fresh)" using that unfolding user_token_def by blast
    then show ?thesis
      by (intro sends_trace_round_trip user_request_headers) (simp_all add: sent_of_def retry_request_def req)
  qed
  have get: "quiet (ts_get st user (rt_obo r))" and del: "sends ?P (ts_delete st user (rt_obo r))"
    and save: "sends ?P (ts_save st user (rt_obo r) pair)" for pair
    using st by (auto simp: quiet_store_def intro: quiet_sends)
  show ?thesis
    unfolding refresh_round_trip_def obo_context_from_context_def ctx
    apply (rule sends_bind [OF first], rule sends_sum, simp, rule sends_if, simp, simp)
    apply (rule sends_bind_result [OF get], rule sends_sum, simp)
    apply (rule sends_bind_result [OF refresh], rule sends_sum)
     apply (rule sends_bind [OF del], simp)
    apply (rule sends_bind [OF save], rule again, assumption+)
    done
qed

text \<open>What the pipeline sends, it sends with a token of the caller.\<close>

lemma obo_round_trip_sends:
  assumes p: "wired_obo G check answer refresh st p" and t: "user_token st refresh user (rt_obo r) t"
  shows "sends (user_request st refresh user r) (obo_round_trip G' p c call r user t token)"
  using p t unfolding obo_round_trip_def wired_obo_def
  by (auto simp: with_obo_context_def split: sum.splits option.splits
      intro!: sends_intros refresh_round_trip_sends [where t = t])

lemma resolve_identity_wired:
  assumes "wired_obo G check answer refresh st p"
  shows "quiet (resolve_identity p c)"
    and "result (resolve_identity p c) w = Inr (idn, c') \<Longrightarrow> result (ob_identity p c) w = Inr idn \<and> c' = c"
  using assms
  by (auto simp: wired_obo_def resolve_identity_def quiet_def world_simps split: sum.splits if_splits option.splits)

lemma obo_execute_sends:
  assumes p: "wired_obo G check answer refresh st p"
  shows "sends (\<lambda>s. \<exists>idn w. result (ob_identity p c) w = Inr idn \<and> user_request st refresh (id_user idn) r s)
    (obo_execute G' p c call r)" (is "sends ?P _")
proof -
  define P where "P = ?P"
  have st: "ob_store p = st" and sse: "ob_sse p = Some (sse_forward G (trace_client check answer))"
    and get: "quiet (ts_get st u q)" and policy: "sends P (pe_evaluate (ob_policy p) c idn call)"
    and minter: "sends P (ob_minter p c idn j)" for u q idn j
    using p by (auto simp: wired_obo_def quiet_store_def intro: quiet_sends)
  have sse_sends: "sends P (sse_forward G (trace_client check answer) (with_service_credential c t) (rt_backend r) call token)"
    if "result (ob_identity p c) w = Inr idn" "user_token st refresh (id_user idn) (rt_obo r) t" for w idn t token
    by (rule sends_weaken [OF sse_forward_sends [of _ t]])
      (use that in \<open>auto simp: P_def ctx_defs intro!: exI [of _ idn] user_request_backend\<close>)
  have rt_sends: "sends P (obo_round_trip G' p c call r (id_user idn) t token)"
    if "result (ob_identity p c) w = Inr idn" "user_token st refresh (id_user idn) (rt_obo r) t" for w idn t token
    by (rule sends_weaken [OF obo_round_trip_sends [OF p that(2)]]) (use that(1) in \<open>auto simp: P_def\<close>)
  have forward: "sends P (case (rt_transport r = ''sse'', ob_sse p) of
        (True, Some sse) \<Rightarrow> sse (with_service_credential c (tp_access uat)) (rt_backend r) call token
      | _ \<Rightarrow> obo_round_trip G' p c call r (id_user idn) (tp_access uat) token)"
    if "result (ob_identity p c) w = Inr idn" "result (ts_get st (id_user idn) (rt_obo r)) w' = Inr uat" for w w' idn uat token
  proof -
    have "user_token st refresh (id_user idn) (rt_obo r) (tp_access uat)" using that(2) by (auto simp: user_token_def)
    then show ?thesis using sse_sends [OF that(1)] rt_sends [OF that(1)] sse by (cases "rt_transport r = ''sse''") simp_all
  qed
  have "sends P (obo_execute G' p c call r)"
    unfolding obo_execute_def st
  proof (rule sends_bind_result [OF resolve_identity_wired(1) [OF p]], rule sends_sum, simp, goal_cases)
    case (1 w y)
    then obtain idn where y: "y = (idn, c)" and idn: "result (ob_identity p c) w = Inr idn"
      using resolve_identity_wired(2) [OF p] by (cases y) blast
    show ?case
      unfolding y prod.case Let_def
      apply (rule sends_bind [OF policy], rule sends_sum, simp, rule sends_if, simp)
      apply (rule sends_bind_result [OF get], rule sends_sum, simp)
      apply (rule sends_bind [OF minter], rule sends_sum, simp, rule forward [OF idn, unfolded prod.case], assumption)
      done
  qed
  then show ?thesis by (simp add: P_def)
qed

subsection \<open>The broker with its pipeline\<close>

definition wired_broker :: "golib \<Rightarrow> (string \<Rightarrow> string option) \<Rightarrow> 'z network \<Rightarrow> 'z net token_refresher \<Rightarrow> 'z net token_store
    \<Rightarrow> 'z net obo \<Rightarrow> 'z net broker \<Rightarrow> bool" where
  "wired_broker G check answer refresh st p b \<longleftrightarrow>
     wired_obo G check answer refresh st p \<and> bk_store b = Some st
       \<and> (bk_obo b = None \<or> bk_obo b = Some (obo_execute G p))
       \<and> bk_identity b = ob_identity p \<and> bk_policy b = ob_policy p
       \<and> plain_broker G check answer (b\<lparr>bk_store := None, bk_obo := None\<rparr>)"

text \<open>
  A request to a route's backend: with the service credential of the route or, for a route with a
  provider, with a token of the caller for that provider.
\<close>

definition broker_request :: "'z net broker \<Rightarrow> 'z net token_store \<Rightarrow> 'z net token_refresher \<Rightarrow> 'z net ctx \<Rightarrow> route_entry
    \<Rightarrow> sent \<Rightarrow> bool" where
  "broker_request b st refresh c r s \<longleftrightarrow>
     route_request b c r s
       \<or> rt_obo r \<noteq> [] \<and> (\<exists>idn w. result (bk_identity b c) w = Inr idn \<and> user_request st refresh (id_user idn) r s)"

lemma plain_part_transport [simp]: "transport_for (b\<lparr>bk_store := x, bk_obo := y\<rparr>) = transport_for b"
  by (intro ext) (simp add: transport_for_def)

lemma plain_part_simps [simp]:
  "route_request (b\<lparr>bk_store := x, bk_obo := y\<rparr>) = route_request b"
  "handle_standard (b\<lparr>bk_store := x, bk_obo := y\<rparr>) = handle_standard b"
  by (intro ext, simp add: route_request_def handle_standard_def cong del: sum.case_cong_weak)+

lemma wired_quiet:
  assumes "wired_broker G check answer refresh st p b"
  shows "quiet (bk_identity b c)" "quiet (pe_evaluate (bk_policy b) c idn call)" "quiet (pe_filter (bk_policy b) c idn ns)"
    "quiet (bk_creds b c q)" "quiet (ts_get st u q)"
  using assms by (auto simp: wired_broker_def plain_broker_def wired_obo_def quiet_store_def)

lemma wired_handler_sends:
  assumes b: "wired_broker G check answer refresh st p b"
  shows "sends (broker_request b st refresh c r) (if rt_obo r \<noteq> [] then handle_obo b c call r else handle_standard b c call idn r)"
proof (cases "rt_obo r = []")
  case True
  have "sends (route_request b c r) (handle_standard b c call idn r)"
    using handle_standard_sends [of G check answer "b\<lparr>bk_store := None, bk_obo := None\<rparr>" c r call idn] b
    by (simp add: wired_broker_def)
  then show ?thesis using True by (auto simp: broker_request_def elim: sends_weaken)
next
  case False
  have "sends (broker_request b st refresh c r) (obo_execute G p c call r)"
    by (rule sends_weaken [OF obo_execute_sends [of G check answer refresh st p]])
      (use b False in \<open>auto simp: wired_broker_def broker_request_def\<close>)
  then show ?thesis
    using False b by (auto simp: handle_obo_def wired_broker_def split: sum.splits intro!: sends_intros)
qed

lemma wired_list_sends:
  assumes b: "wired_broker G check answer refresh st p b" and idn: "\<And>i. idn = Some i \<Longrightarrow> \<exists>w. result (bk_identity b c) w = Inr i"
  shows "sends (broker_request b st refresh c r) (list_backend G' b c idn r)"
proof -
  have quiet: "quiet (list_credential b c idn r)"
    using wired_quiet [OF b] b
    by (auto simp: list_credential_def Let_def quiet_def after_bind wired_broker_def split: option.splits)
  have cred: "(\<exists>w'. result (bk_creds b c (rt_prefix r)) w' = Inr t)
      \<or> rt_obo r \<noteq> [] \<and> (\<exists>i w'. result (bk_identity b c) w' = Inr i \<and> user_token st refresh (id_user i) (rt_obo r) t)"
    if t: "result (list_credential b c idn r) w = Some t" for w t
  proof (cases "rt_obo r = [] \<or> idn = None")
    case True
    then show ?thesis using t b
      by (auto simp: list_credential_def Let_def world_simps wired_broker_def split: sum.splits option.splits)
  next
    case False
    then obtain i where i: "idn = Some i" "rt_obo r \<noteq> []" by auto
    obtain pair where "result (ts_get st (id_user i) (rt_obo r)) w = Inr pair" "t = tp_access pair"
      using t i b by (auto simp: list_credential_def Let_def world_simps wired_broker_def split: sum.splits)
    then have "user_token st refresh (id_user i) (rt_obo r) t" by (auto simp: user_token_def)
    then show ?thesis using i idn by blast
  qed
  have fwd: "sends (broker_request b st refresh c r) (transport_for b r (with_service_credential c t) (rt_backend r) call token)"
    if "result (list_credential b c idn r) w = Some t" for w t call token
  proof -
    have "sends (backend_request (rt_backend r) t) (transport_for b r (with_service_credential c t) (rt_backend r) call token)"
      using transport_for_sends [of G check answer "b\<lparr>bk_store := None, bk_obo := None\<rparr>" "with_service_credential c t" t
          "rt_backend r" r call token] b
      by (simp add: wired_broker_def ctx_defs)
    then show ?thesis
      by (rule sends_weaken)
        (use cred [OF that] in \<open>auto simp: broker_request_def route_request_def intro: user_request_backend\<close>)
  qed
  show ?thesis
    unfolding list_backend_def
    by (rule sends_bind_result [OF quiet]) (auto split: option.splits intro!: sends_intros fwd)
qed

lemma wired_broker_laws:
  assumes b: "wired_broker G check answer refresh st p b"
  shows "broker_laws b c (broker_request b st refresh c)"
  by unfold_locales (use wired_quiet [OF b] wired_handler_sends [OF b] wired_list_sends [OF b] in auto)

text \<open>
  C3: Only the caller's own tokens are sent. In the broker as it is wired, with a token store and,
  if there is one, the on-behalf-of pipeline, every request that \<open>Handle\<close> makes goes to the backend of a configured
  route, as a \<open>POST\<close> with one of two credentials: the service credential of that route, or, when
  the route names a provider, a token of a user whom the identity service has resolved from the
  credentials of this very request, for this very provider. For a call the route is that of the
  tool's prefix and the policy engine has permitted the caller; otherwise the request is a
  discovery.
\<close>

theorem only_own_tokens_are_sent:
  assumes "wired_broker G check answer refresh st p b" and "s \<in> set (new_sent (handle G' b c data) w)"
  shows "\<exists>call idn route. parse_tool_call G' data = Inr call \<and> result (bk_identity b c) w = Inr idn
    \<and> route \<in> set (bk_routes b) \<and> broker_request b st refresh c route s
    \<and> (tc_method call = ''tools/list''
       \<or> tc_method call = ''tools/call''
         \<and> find_route (tool_prefix (tool_name_from_call call)) (bk_routes b) = Some route
         \<and> says_yes (result (pe_evaluate (bk_policy b) c idn call) (after (bk_identity b c) w)))"
  using broker_laws.handle_sends [OF wired_broker_laws [OF assms(1)] assms(2)] .

end
