(* ===== verification/Conversation.thy ===== *)
theory Conversation
  imports UserTokens Forwarding
begin

section \<open>Conversations with a backend\<close>

text \<open>
  What passes between the broker and a backend, request by request, against the recording
  network of \<open>System\<close>.
\<close>

subsection \<open>One exchange\<close>

definition exchange :: "'z network \<Rightarrow> sent \<Rightarrow> 'z net \<Rightarrow> (string + http_response) \<times> 'z net" where
  "exchange answer s w =
     (fst (answer (nt_sent w) s (nt_rest w)),
      \<lparr>nt_sent = nt_sent w @ [s], nt_rest = snd (answer (nt_sent w) s (nt_rest w))\<rparr>)"

lemma run_do: "run (hc_do (trace_client check answer) r) w = exchange answer (sent_of r) w"
  by (simp add: trace_client_def exchange_def)

lemma exchange_sent [simp]: "nt_sent (snd (exchange answer s w)) = nt_sent w @ [s]"
  by (simp add: exchange_def)

text \<open>The answers to a list of requests sent one after the other.\<close>

fun answers :: "'z network \<Rightarrow> 'z net \<Rightarrow> sent list \<Rightarrow> (string + http_response) list" where
  "answers answer w [] = []"
| "answers answer w (s # ss) =
     (case exchange answer s w of (a, w') \<Rightarrow> a # answers answer w' ss)"

lemma length_answers [simp]: "length (answers answer w ss) = length ss"
  by (induction ss arbitrary: w) (simp_all split: prod.splits)

definition status_of :: "string + http_response \<Rightarrow> int option" where
  "status_of a = (case a of Inl e \<Rightarrow> None | Inr resp \<Rightarrow> Some (hr_status resp))"

definition session_of :: "string + http_response \<Rightarrow> string" where
  "session_of a = (case a of Inl e \<Rightarrow> [] | Inr resp \<Rightarrow> hr_header resp ''Mcp-Session-Id'')"

subsection \<open>A session of the streamable HTTP transport\<close>

definition post_sent :: "string \<Rightarrow> bytes \<Rightarrow> string \<Rightarrow> string \<Rightarrow> string \<Rightarrow> sent" where
  "post_sent url body cred token session =
     \<lparr>st_method = ''POST'', st_url = url, st_header = sse_headers cred token session, st_body = Some body\<rparr>"

text \<open>What \<open>post\<close> makes of an answer.\<close>

definition post_outcome :: "string \<Rightarrow> string + http_response \<Rightarrow> (goerr + sse_reply) \<times> int" where
  "post_outcome url a =
     (case a of
        Inl t \<Rightarrow> (Inl (wrap_err ErrServiceUnavailable (''sse backend: POST '' @ url @ '': '' @ t)), 0)
      | Inr resp \<Rightarrow>
          if hr_status resp \<noteq> 200 \<and> hr_status resp \<noteq> 202 then
            (Inl (wrap_err ErrServiceUnavailable (''sse backend: POST '' @ url @ '' returned ''
               @ show_int (hr_status resp) @ '': '' @ take 4096 (hb_bytes (hr_body resp)))), hr_status resp)
          else
            (case (if contains (hr_header resp ''Content-Type'') ''text/event-stream''
                   then read_first_message (read_limited max_sse_response_size (hr_body resp)) url
                   else (case read_limited max_sse_response_size (hr_body resp) of
                           Inl t \<Rightarrow> Inl (plain_err t) | Inr b \<Rightarrow> Inr b)) of
               Inl e \<Rightarrow> (Inl e, hr_status resp)
             | Inr b \<Rightarrow> (Inr \<lparr>sr_body = b, sr_header = hr_header resp\<rparr>, hr_status resp)))"

lemma post_outcome_reply: "post_outcome url a = (Inr r, n) \<Longrightarrow> sr_header r ''Mcp-Session-Id'' = session_of a"
  by (auto simp: post_outcome_def session_of_def split: sum.splits if_splits)

lemma post_outcome_status: "post_outcome url a = (r, n) \<Longrightarrow> n \<noteq> 0 \<Longrightarrow> status_of a = Some n"
  by (auto simp: post_outcome_def status_of_def split: sum.splits if_splits)

lemma run_post:
  assumes "marshal_call G call = Inr body" and "check url = None"
  shows "run (sse_post G (trace_client check answer) c url call cred token session) w =
    map_prod (post_outcome url) id (exchange answer (post_sent url body cred token session) w)"
  using assms
  by (simp add: sse_post_def run_result_after world_simps exchange_def post_outcome_def post_sent_def sent_of_def
      trace_client_def split: sum.splits)

lemma run_post_refused:
  assumes "check url \<noteq> None \<or> (\<exists>e. marshal_call G call = Inl e)"
  shows "\<exists>e. run (sse_post G (trace_client check answer) c url call cred token session) w = ((Inl e, 0), w)"
  using assms
  by (auto simp: sse_post_def trace_client_def split: sum.splits option.splits)

lemma init_marshals: "\<exists>b. marshal_call G init_call = Inr b"
proof -
  have "json_parse init_params \<noteq> None" by code_simp
  then show ?thesis by (intro marshal_call_ok) (simp add: params_ok_def init_call_def)
qed

definition init_outcome :: "string \<Rightarrow> string + http_response \<Rightarrow> goerr + string" where
  "init_outcome url a =
     (case fst (post_outcome url a) of
        Inl e \<Rightarrow> Inl (prefix_err ''sse backend: initialize: '' e)
      | Inr reply \<Rightarrow>
          (case response_error (sr_body reply) of
             Some e \<Rightarrow> Inl (wrap_err ErrServiceUnavailable (''sse backend: initialize rejected by server: ''
                          @ show_int (je_code e) @ '' '' @ je_message e))
           | None \<Rightarrow> Inr (sr_header reply ''Mcp-Session-Id'')))"

lemma init_outcome_session: "init_outcome url a = Inr s \<Longrightarrow> s = session_of a"
  using post_outcome_reply [of url a]
  by (cases "post_outcome url a") (auto simp: init_outcome_def split: sum.splits option.splits)

lemma run_initialize:
  assumes "marshal_call G init_call = Inr body" and "check url = None"
  shows "run (sse_initialize G (trace_client check answer) c url cred token) w =
    map_prod (init_outcome url) id (exchange answer (post_sent url body cred token []) w)"
  using run_post [where check = check and url = url, OF assms, of answer c cred token "[]" w]
  by (cases "exchange answer (post_sent url body cred token []) w")
    (simp add: sse_initialize_def init_outcome_def run_result_after world_simps case_prod_beta)

lemma post_outcome_404: "status_of a = Some 404 \<Longrightarrow> \<exists>e. post_outcome url a = (Inl e, 404)"
  by (auto simp: post_outcome_def status_of_def split: sum.splits)

lemma post_outcome_Inr:
  assumes "post_outcome url a = (Inr r, n)"
  shows "status_of a \<noteq> Some 404"
  using assms post_outcome_404 [of a url] by auto

text \<open>
  The conversation of one \<open>Forward\<close>: it opens a session, calls, and, if the backend has forgotten
  the session, opens another and calls once more. The last two steps belong to \<open>send\<close>.
\<close>

definition send_requests :: "string \<Rightarrow> bytes \<Rightarrow> bytes \<Rightarrow> string \<Rightarrow> string \<Rightarrow> string \<Rightarrow> (string + http_response) list
    \<Rightarrow> sent list" where
  "send_requests url init body cred token session as =
     [post_sent url body cred token session, post_sent url init cred token [],
      post_sent url body cred token (session_of (as ! 1))]"

lemma sum_case_map: "(case x of Inl e \<Rightarrow> Inl e | Inr y \<Rightarrow> Inr (f y)) = map_sum id f x"
  by (cases x) simp_all

lemma send_conversation:
  assumes i: "marshal_call G init_call = Inr init" and b: "marshal_call G call = Inr body" and u: "check url = None"
    and S_def: "S = sse_send G (trace_client check answer) c url call cred token s"
    and as_def: "as = answers answer w (new_sent S w)"
  shows "\<exists>n \<in> {1..3}. new_sent S w = take n (send_requests url init body cred token s as)
    \<and> nt_sent (after S w) = nt_sent w @ new_sent S w
    \<and> (2 \<le> n \<longleftrightarrow> status_of (as ! 0) = Some 404 \<and> s \<noteq> [])
    \<and> (3 \<le> n \<longleftrightarrow> 2 \<le> n \<and> (\<exists>t. init_outcome url (as ! 1) = Inr t))
    \<and> (if n = 2 then \<exists>e. init_outcome url (last as) = Inl e \<and> result S w = Inl e
       else result S w = map_sum id sr_body (fst (post_outcome url (last as))))" (is "?goal")
proof -
  let ?H = "trace_client check answer" and ?I = "post_sent url init cred token []" and ?C = "post_sent url body cred token"
  note init = run_initialize [where check = check and url = url, OF i u, of answer c cred token, unfolded run_result_after map_prod_def]
  note post = run_post [where check = check and url = url, OF b u, of answer c cred token, unfolded run_result_after map_prod_def]
  obtain a1 w1 where e1: "exchange answer (?C s) w = (a1, w1)" by fastforce
  have s1: "nt_sent w1 = nt_sent w @ [?C s]" using exchange_sent [of answer "?C s" w] e1 by simp
  obtain r1 n1 where o1: "post_outcome url a1 = (r1, n1)" by fastforce
  show ?goal
  proof (cases "n1 = 404 \<and> s \<noteq> [] \<and> (\<exists>e. r1 = Inl e)")
    case False
    then have r: "result S w = map_sum id sr_body r1" "after S w = w1"
      using post [of s w] e1 o1 by (auto simp: S_def sse_send_def world_simps split: sum.splits)
    have "new_sent S w = [?C s]" using r s1 by (simp add: new_sent_def)
    moreover have "\<not> (status_of a1 = Some 404 \<and> s \<noteq> [])" using False post_outcome_404 [of a1 url] o1 by auto
    ultimately show ?thesis
      using r s1 e1 o1 by (intro bexI [of _ 1]) (simp_all add: as_def send_requests_def split: sum.splits)
  next
    case True
    then have st: "status_of a1 = Some 404" using post_outcome_status [OF o1] by simp
    obtain a2 w2 where e2: "exchange answer ?I w1 = (a2, w2)" by fastforce
    have s2: "nt_sent w2 = nt_sent w @ [?C s, ?I]" using exchange_sent [of answer ?I w1] e2 s1 by simp
    obtain a3 w3 where e3: "exchange answer (?C (session_of a2)) w2 = (a3, w3)" by fastforce
    have s3: "nt_sent w3 = nt_sent w @ [?C s, ?I, ?C (session_of a2)]"
      using exchange_sent [of answer "?C (session_of a2)" w2] e3 s2 by simp
    show ?thesis
    proof (cases "init_outcome url a2")
      case (Inl e)
      then have r: "result S w = Inl e" "after S w = w2"
        using True post [of s w] e1 o1 init [of w1] e2 by (auto simp: S_def sse_send_def world_simps)
      then have "new_sent S w = [?C s, ?I]" using s2 by (simp add: new_sent_def)
      then show ?thesis
        using r s2 e1 e2 st True Inl by (intro bexI [of _ 2]) (simp_all add: as_def send_requests_def)
    next
      case (Inr s')
      then have "s' = session_of a2" by (rule init_outcome_session)
      then have r: "result S w = map_sum id sr_body (fst (post_outcome url a3))"
          "after S w = w3"
        using True Inr post [of s w] e1 o1 init [of w1] e2 post [of s' w2] e3
        by (auto simp: S_def sse_send_def world_simps case_prod_beta sum_case_map)
      then have "new_sent S w = [?C s, ?I, ?C (session_of a2)]" using s3 by (simp add: new_sent_def)
      then show ?thesis
        using r s3 e1 e2 e3 st True Inr by (intro bexI [of _ 3]) (simp_all add: as_def send_requests_def split: sum.splits)
    qed
  qed
qed

definition session_requests :: "string \<Rightarrow> bytes \<Rightarrow> bytes \<Rightarrow> string \<Rightarrow> string \<Rightarrow> (string + http_response) list \<Rightarrow> sent list" where
  "session_requests url init body cred token as =
     [post_sent url init cred token [], post_sent url body cred token (session_of (as ! 0)),
      post_sent url init cred token [], post_sent url body cred token (session_of (as ! 2))]"

lemma forward_conversation:
  assumes i: "marshal_call G init_call = Inr init" and b: "marshal_call G call = Inr body" and u: "check url = None"
    and cred: "cred = (case service_credential_from_context c of None \<Rightarrow> [] | Some t \<Rightarrow> t)"
    and F_def: "F = sse_forward G (trace_client check answer) c url call token"
    and as_def: "as = answers answer w (new_sent F w)"
  shows "\<exists>n \<in> {1..4}. new_sent F w = take n (session_requests url init body cred token as)
    \<and> (2 \<le> n \<longleftrightarrow> (\<exists>t. init_outcome url (as ! 0) = Inr t))
    \<and> (3 \<le> n \<longleftrightarrow> 2 \<le> n \<and> status_of (as ! 1) = Some 404 \<and> session_of (as ! 0) \<noteq> [])
    \<and> (4 \<le> n \<longleftrightarrow> 3 \<le> n \<and> (\<exists>t. init_outcome url (as ! 2) = Inr t))
    \<and> (if even n then result F w = map_sum id sr_body (fst (post_outcome url (last as)))
       else \<exists>e. init_outcome url (last as) = Inl e \<and> result F w = Inl e)" (is "?goal")
proof -
  let ?H = "trace_client check answer"
  let ?I = "post_sent url init cred token []" and ?C = "post_sent url body cred token"
  have F: "F = State_Monad.bind (sse_initialize G ?H c url cred token)
      (\<lambda>s. case s of Inl e \<Rightarrow> ret (Inl e) | Inr session \<Rightarrow> sse_send G ?H c url call cred token session)"
    unfolding F_def sse_forward_def Let_def cred ..
  note init = run_initialize [where check = check and url = url, OF i u, of answer c cred token, unfolded run_result_after map_prod_def]
  obtain a0 w0 where e0: "exchange answer ?I w = (a0, w0)" by fastforce
  have s0: "nt_sent w0 = nt_sent w @ [?I]" using exchange_sent [of answer ?I w] e0 by simp
  show ?goal
  proof (cases "init_outcome url a0")
    case (Inl e)
    then have r: "result F w = Inl e" "after F w = w0" using init [of w] e0 by (simp_all add: F world_simps)
    then have "new_sent F w = [?I]" using s0 by (simp add: new_sent_def)
    then show ?thesis
      using r e0 Inl by (intro bexI [of _ 1]) (simp_all add: as_def session_requests_def)
  next
    case (Inr s)
    then have s: "s = session_of a0" by (rule init_outcome_session)
    define S where "S = sse_send G ?H c url call cred token s"
    define as' where "as' = answers answer w0 (new_sent S w0)"
    have FS: "result F w = result S w0" "after F w = after S w0"
      using init [of w] e0 Inr by (simp_all add: F S_def world_simps)
    obtain n where n: "n \<in> {1..3}" and reqs: "new_sent S w0 = take n (send_requests url init body cred token s as')"
        and sent: "nt_sent (after S w0) = nt_sent w0 @ new_sent S w0"
        and retry: "2 \<le> n \<longleftrightarrow> status_of (as' ! 0) = Some 404 \<and> s \<noteq> []"
        and again: "3 \<le> n \<longleftrightarrow> 2 \<le> n \<and> (\<exists>t. init_outcome url (as' ! 1) = Inr t)"
        and res: "if n = 2 then \<exists>e. init_outcome url (last as') = Inl e \<and> result S w0 = Inl e
          else result S w0 = map_sum id sr_body (fst (post_outcome url (last as')))"
      using send_conversation [where check = check and url = url, OF i b u S_def as'_def]
      by (elim bexE conjE) (rule that)
    have new: "new_sent F w = ?I # new_sent S w0" unfolding new_sent_def [of F] FS(2) sent s0 by simp
    then have as: "as = a0 # as'" using e0 by (simp add: as_def as'_def)
    have "length as' = length (new_sent S w0)" by (simp add: as'_def)
    then have "as' \<noteq> []" using reqs n by (auto simp: send_requests_def)
    moreover have "n = 1 \<or> n = 2 \<or> n = 3" using n by auto
    then have "even (Suc n) \<longleftrightarrow> n \<noteq> 2" by auto
    ultimately show ?thesis
      using n new reqs retry again res FS s Inr
      by (intro bexI [of _ "Suc n"])
        (auto simp: as session_requests_def send_requests_def simp del: even_Suc split: sum.splits)
  qed
qed

text \<open>
  The protocol of a session, as a relation between the requests \<open>reqs\<close>, their answers \<open>as\<close> and the
  result: the first \<open>n\<close> requests are made, each when the answers so far ask for it.
\<close>

definition follows_protocol :: "string \<Rightarrow> bytes \<Rightarrow> bytes \<Rightarrow> string \<Rightarrow> string \<Rightarrow> nat \<Rightarrow> sent list \<Rightarrow> (string + http_response) list
    \<Rightarrow> goerr + bytes \<Rightarrow> bool" where
  "follows_protocol url init body cred token n reqs as res \<longleftrightarrow>
     reqs = take n (session_requests url init body cred token as)
     \<and> (2 \<le> n \<longleftrightarrow> (\<exists>t. init_outcome url (as ! 0) = Inr t))
     \<and> (3 \<le> n \<longleftrightarrow> 2 \<le> n \<and> status_of (as ! 1) = Some 404 \<and> session_of (as ! 0) \<noteq> [])
     \<and> (4 \<le> n \<longleftrightarrow> 3 \<le> n \<and> (\<exists>t. init_outcome url (as ! 2) = Inr t))
     \<and> (if even n then res = map_sum id sr_body (fst (post_outcome url (last as)))
        else \<exists>e. init_outcome url (last as) = Inl e \<and> res = Inl e)"

text \<open>
  C11: A call over the streamable HTTP transport is a session of at most four requests, in the
  order the protocol asks for. First an \<open>initialize\<close> without a session; if it succeeds, the call
  with the session it opened; if that session has expired (the answer is 404 and there was a
  session), a second \<open>initialize\<close>, and if that succeeds, the call once more with the new session,
  and never a third time. Each step happens exactly when the answers so far ask for it, and the
  result is what the last answer says.
\<close>

theorem sse_forward_follows_protocol:
  assumes "marshal_call G call = Inr body" and "check url = None" and "service_credential_from_context c = Some cred"
    and "F = sse_forward G (trace_client check answer) c url call token"
  shows "\<exists>init. marshal_call G init_call = Inr init
    \<and> (\<exists>n \<in> {1..4}. follows_protocol url init body cred token n (new_sent F w) (answers answer w (new_sent F w)) (result F w))"
proof -
  obtain init where i: "marshal_call G init_call = Inr init" using init_marshals by blast
  have "cred = (case service_credential_from_context c of None \<Rightarrow> [] | Some t \<Rightarrow> t)" using assms(3) by simp
  from forward_conversation [where check = check and url = url, OF i assms(1,2) this assms(4) refl]
  show ?thesis using i unfolding follows_protocol_def by blast
qed

text \<open>A backend that has forgotten its first session.\<close>

definition forgetful :: "unit network" where
  "forgetful sent s z =
     (Inr (if map_of (st_header s) ''Mcp-Session-Id'' = Some ''one''
           then \<lparr>hr_status = 404, hr_header = (\<lambda>_. []), hr_body = \<lparr>hb_bytes = [], hb_error = None, hb_no_body = False\<rparr>\<rparr>
           else \<lparr>hr_status = 200, hr_header = (\<lambda>_. []) (''Mcp-Session-Id'' := if sent = [] then ''one'' else ''two''),
                 hr_body = \<lparr>hb_bytes = ''{}'', hb_error = None, hb_no_body = False\<rparr>\<rparr>), z)"

lemma forgetful_outcomes:
  "init_outcome url (fst (forgetful sent (post_sent url' body cred token []) z)) = Inr (if sent = [] then ''one'' else ''two'')"
  "fst (post_outcome url (fst (forgetful sent (post_sent url' body cred token ''two'') z))) =
     Inr \<lparr>sr_body = ''{}'', sr_header = (\<lambda>_. []) (''Mcp-Session-Id'' := if sent = [] then ''one'' else ''two'')\<rparr>"
  "status_of (fst (forgetful sent (post_sent url' body cred token ''one'') z)) = Some 404"
  "session_of (fst (forgetful sent (post_sent url' body cred token []) z)) = (if sent = [] then ''one'' else ''two'')"
proof -
  have "response_error ''{}'' = None" "\<not> contains [] ''text/event-stream''" by code_simp+
  then show "init_outcome url (fst (forgetful sent (post_sent url' body cred token []) z)) = Inr (if sent = [] then ''one'' else ''two'')"
    and "fst (post_outcome url (fst (forgetful sent (post_sent url' body cred token ''two'') z))) =
      Inr \<lparr>sr_body = ''{}'', sr_header = (\<lambda>_. []) (''Mcp-Session-Id'' := if sent = [] then ''one'' else ''two'')\<rparr>"
    by (simp_all add: init_outcome_def post_outcome_def forgetful_def post_sent_def sse_headers_session
        max_sse_response_size_def read_limited_def read_all_def)
qed (simp_all add: status_of_def session_of_def forgetful_def post_sent_def sse_headers_session)

lemma forgetful_protocol:
  assumes p: "follows_protocol url init body cred token n reqs (answers forgetful \<lparr>nt_sent = [], nt_rest = ()\<rparr> reqs) res"
    and n: "n \<in> {1..4}"
  shows "length reqs = 4 \<and> res = Inr ''{}''"
proof -
  let ?as = "answers forgetful \<lparr>nt_sent = [], nt_rest = ()\<rparr> reqs"
  let ?I = "post_sent url init cred token []" and ?C = "post_sent url body cred token"
  note p' = p [unfolded follows_protocol_def]
  have t: "reqs = take n (session_requests url init body cred token ?as)" using p' by blast
  obtain r1 where r1: "reqs = ?I # r1"
    using n arg_cong [OF t, of "take 1"] by (cases reqs) (simp_all add: session_requests_def min_def)
  then have a0: "?as ! 0 = fst (forgetful [] ?I ())" by (simp add: exchange_def)
  then have "2 \<le> n" using p' by (simp add: forgetful_outcomes)
  then obtain r2 where r2: "reqs = ?I # ?C ''one'' # r2"
    using arg_cong [OF t, of "take 2"] a0 r1 by (cases r1) (simp_all add: session_requests_def min_def forgetful_outcomes)
  then have a1: "?as ! 1 = fst (forgetful [?I] (?C ''one'') ())" by (simp add: exchange_def forgetful_def)
  then have "3 \<le> n" using p' a0 \<open>2 \<le> n\<close> by (simp add: forgetful_outcomes)
  then obtain r3 where r3: "reqs = ?I # ?C ''one'' # ?I # r3"
    using arg_cong [OF t, of "take 3"] r2 by (cases r2) (simp_all add: session_requests_def min_def eval_nat_numeral)
  then have a2: "?as ! 2 = fst (forgetful [?I, ?C ''one''] ?I ())" by (simp add: exchange_def forgetful_def)
  then have "n = 4" using p' \<open>3 \<le> n\<close> n by (simp add: forgetful_outcomes)
  then have r4: "reqs = [?I, ?C ''one'', ?I, ?C ''two'']"
    using t a0 a2 by (simp add: session_requests_def forgetful_outcomes)
  then have "last ?as = fst (forgetful [?I, ?C ''one'', ?I] (?C ''two'') ())" by (simp add: exchange_def forgetful_def)
  moreover have "res = map_sum id sr_body (fst (post_outcome url (last ?as)))" using p' \<open>n = 4\<close> by simp
  ultimately have "res = Inr ''{}''" by (simp only: forgetful_outcomes) simp
  then show ?thesis using r4 by simp
qed

definition demo_session :: "(unit net, goerr + bytes) act" where
  "demo_session =
     sse_forward golib0 (trace_client (\<lambda>_. None) forgetful) (with_service_credential background ''s'') ''http://b'' list_call ''t''"

theorem sse_forward_follows_protocol_witness:
  "length (new_sent demo_session \<lparr>nt_sent = [], nt_rest = ()\<rparr>) = 4
   \<and> result demo_session \<lparr>nt_sent = [], nt_rest = ()\<rparr> = Inr ''{}''"
proof -
  let ?w = "\<lparr>nt_sent = [], nt_rest = ()\<rparr>" and ?F = demo_session
  obtain body where b: "marshal_call golib0 list_call = Inr body"
    using marshal_call_ok [of list_call golib0] by (auto simp: params_ok_def list_call_def)
  from sse_forward_follows_protocol [where check = "\<lambda>_. None", OF b refl _ demo_session_def, of "''s''" ?w]
  obtain init n where n: "n \<in> {1..4}" and
      p: "follows_protocol ''http://b'' init body ''s'' ''t'' n (new_sent ?F ?w) (answers forgetful ?w (new_sent ?F ?w)) (result ?F ?w)"
    by (auto simp: ctx_defs)
  show ?thesis by (rule forgetful_protocol [OF p n])
qed

subsection \<open>Streams\<close>

definition stream_text :: "string list \<Rightarrow> bytes" where
  "stream_text ls = concat (map (\<lambda>l. l @ [CHR 0x0A]) ls)"

lemma split_stream:
  "list_all (\<lambda>l. CHR 0x0A \<notin> set l) ls \<Longrightarrow>
     split_on (CHR 0x0A) (stream_text ls @ rest) = ls @ split_on (CHR 0x0A) rest"
  by (induction ls) (simp_all add: stream_text_def split_on_append)

lemma first_message_last:
  assumes "\<forall>e \<in> set es. word_text (fst e) \<and> word_text (snd e) \<and> fst e \<noteq> ''message''" and "word_text d"
    and "message = [''event: message'', ''data: '' @ d] \<or> message = [''data: '' @ d]"
  shows "first_message [] (concat (map event_lines es) @ message @ ls) = Some d"
  using assms(1)
proof (induction es)
  case Nil
  have "trim_right_cr (''data: '' @ d) = ''data: '' @ d"
    using assms(2) trim_right_cr_append [of d "''data: ''"] by (auto simp: word_text_def)
  moreover have "trim_right_cr ''event: message'' = ''event: message''" by (simp add: trim_right_cr_def)
  moreover have "trim_space ''message'' = ''message''" by code_simp
  ultimately show ?case
    using assms(2,3) by (auto simp: word_text_def trim_prefix_def trim_space_blank)
qed (use first_message_skip in simp)

text \<open>
  C26: From a stream of server-sent events the transport takes the message. Whatever events of
  other types come before it, the answer is the data line of the first event that is a
  \<open>message\<close>, by name or because it names no type; and whatever follows that line is not read,
  even when it is a further data line of the same event.
\<close>

theorem first_message_is_returned:
  assumes "list_all (\<lambda>e. word_text (fst e) \<and> word_text (snd e) \<and> fst e \<noteq> ''message'') es" and "word_text d"
    and "message = [''event: message'', ''data: '' @ d] \<or> message = [''data: '' @ d]"
    and "list_all (\<lambda>l. CHR 0x0A \<notin> set l) (concat (map event_lines es) @ message)"
  shows "read_first_message (Inr (stream_text (concat (map event_lines es) @ message) @ rest)) url = Inr d"
proof -
  have "\<forall>e \<in> set es. word_text (fst e) \<and> word_text (snd e) \<and> fst e \<noteq> ''message''"
    using assms(1) by (simp add: list_all_iff)
  from first_message_last [OF this assms(2,3), of "split_on (CHR 0x0A) rest"] show ?thesis
    by (simp only: read_first_message_def sum.case split_stream [OF assms(4)] option.case append_assoc)
qed

theorem first_message_is_returned_witness:
  "read_first_message (Inr (stream_text [''event: ping'', ''data: 1'', [], ''event: message'', ''data: {'', ''data: }'', []])) ''http://b'' = Inr ''{''"
proof -
  have w: "word_text ''ping''" "word_text ''1''" "word_text ''{''" by code_simp+
  show ?thesis
    using first_message_is_returned [of "[(''ping'', ''1'')]" "''{''" "[''event: message'', ''data: '' @ ''{'']"
        "stream_text [''data: }'', []]" "''http://b''"] w
    by (simp add: event_lines_def stream_text_def)
qed

subsection \<open>A permitted call gets through\<close>

definition http_sent :: "string \<Rightarrow> bytes \<Rightarrow> string \<Rightarrow> string \<Rightarrow> sent" where
  "http_sent url body cred token =
     \<lparr>st_method = ''POST'', st_url = url, st_header = http_headers (Some cred) token, st_body = Some body\<rparr>"

lemma http_forward_exchange:
  assumes "marshal_call G call = Inr body" and "check url = None"
  shows "run (http_forward G (trace_client check answer) (with_service_credential c cred) url call token) w =
    (case exchange answer (http_sent url body cred token) w of
       (Inl t, w') \<Rightarrow> (Inl (wrap_err ErrServiceUnavailable t), w')
     | (Inr resp, w') \<Rightarrow> (case read_all (hr_body resp) of
           Inl t \<Rightarrow> (Inl (wrap_err ErrServiceUnavailable (''read response: '' @ t)), w')
         | Inr b \<Rightarrow> (Inr b, w')))"
  using assms
  by (auto simp: http_forward_def run_result_after world_simps ctx_defs trace_client_def exchange_def http_sent_def
      sent_of_def split: sum.splits prod.splits)

lemma run_handle_standard:
  assumes "run (bk_creds b c (rt_prefix route)) w = (Inr cred, w1)"
    and "run (bk_minter b c idn (origin_jti_from_token (case bearer_token_from_context c of None \<Rightarrow> [] | Some t \<Rightarrow> t))) w1 = (Inr token, w2)"
    and "run (transport_for b route (with_service_credential c cred) (rt_backend route) call token) w2 = (r, w3)"
  shows "run (handle_standard b c call idn route) w =
    (case r of Inl e \<Rightarrow> error_response (tc_id call) code_service_unavailable ''service unavailable: backend unreachable''
     | Inr reply \<Rightarrow> reply, w3)"
  using assms by (auto simp: handle_standard_def Let_def run_result_after world_simps split: sum.splits)

subsubsection \<open>The body that is sent\<close>

lemma parsed_params:
  assumes "parse_tool_call G data = Inr call" and "tc_params call = Some ps"
  shows "\<exists>j. json_parse ps = Some j \<and> json_ok j \<and> json_depth j \<le> max_nesting - 1"
proof -
  obtain ms where ms: "json_parse data = Some (JObj ms)" "decode_call G ms = Some call"
    using parse_tool_call_Some [OF assms(1)] by blast
  have "raw_field (field_vals ''params'' ms) = Some ps"
    using ms(2) assms(2) by (auto simp: decode_call_def split: option.splits)
  then have ps: "ps = json_print (last (field_vals ''params'' ms))" and ne: "field_vals ''params'' ms \<noteq> []"
    by (auto simp: raw_field_def split: if_splits)
  obtain k where k: "(k, last (field_vals ''params'' ms)) \<in> set ms" using set_field_vals [OF last_in_set [OF ne]] by blast
  have "json_ok (JObj ms)" "json_depth (JObj ms) \<le> max_nesting" using json_parse_ok [OF ms(1)] by auto
  then have "json_ok (last (field_vals ''params'' ms))" "json_depth (last (field_vals ''params'' ms)) \<le> max_nesting - 1"
    using k by fastforce+
  then show ?thesis using ps json_parse_print [of "last (field_vals ''params'' ms)"] by simp
qed

text \<open>The members of a parsed object are themselves well formed, and one level less deep.\<close>

lemma params_map_member:
  assumes "json_parse ps = Some j" and "json_ok j" and "json_depth j \<le> d" and "params_map ps = Some m" and "map_of m k = Some v"
  shows "json_ok v \<and> json_depth v \<le> d - 1"
proof -
  obtain ms where j: "j = JObj ms" using assms(1,4,5) by (auto simp: params_map_def split: json.splits)
  obtain k' where "(k', v) \<in> set ms"
    using subsetD [OF params_map_props(2) [OF assms(1) [unfolded j] assms(4)] map_of_SomeD [OF assms(5)]] by auto
  then show ?thesis using assms(2,3) j by fastforce
qed

lemma marshal_params:
  "json_parse ps = Some j \<Longrightarrow> ps \<noteq> [] \<Longrightarrow> marshal_call G (call\<lparr>tc_params := Some ps\<rparr>) = Inr (json_print (JObj
     [(''jsonrpc'', JStr (quote (tc_jsonrpc call))), (''id'', any_json (tc_id call)),
      (''method'', JStr (quote (tc_method call))), (''params'', html_json j)]))"
  by (simp add: marshal_call_def marshal_raw_def Let_def)

lemma call_json_parse:
  fixes v m :: string
  assumes "id_ok i" and "json_ok p" and "json_depth p \<le> max_nesting - 1"
  defines "j \<equiv> JObj [(''jsonrpc'', JStr (quote v)), (''id'', any_json i), (''method'', JStr (quote m)), (''params'', p)]"
  shows "json_parse (json_print j) = Some j"
proof (rule json_parse_print)
  have "plain_text ''params''" by (simp add: plain_text_def html_char_def)
  then show "json_ok j" using assms(1,2) by (simp add: j_def quote_ok any_json_ok id_ok_def plain_text_ok)
  show "json_depth j \<le> max_nesting" using assms(1,3) by (simp add: j_def id_ok_def max_nesting_def)
qed

lemma forwarded_body:
  assumes f64: "f64_ok (gl_f64 G)" and parse: "parse_tool_call G data = Inr call" and ps: "tc_params call = Some ps"
    and one: "one_name ps" and name: "unmarshal_string ''name'' ps = Some (pre @ ''/'' @ t)" and pre: "pre \<noteq> []"
  shows "\<exists>body p m m'. marshal_call G (strip_prefix_from_call call pre) = Inr body
    \<and> json_parse body = Some (JObj [(''jsonrpc'', JStr (quote (tc_jsonrpc call))), (''id'', any_json (tc_id call)),
         (''method'', JStr (quote (tc_method call))), (''params'', p)])
    \<and> params_map ps = Some m \<and> params_map (json_print p) = Some m' \<and> map_of m' ''name'' = Some (JStr (quote t))
    \<and> (\<forall>f64 k. k \<noteq> ''name'' \<longrightarrow> map_option (to_any_soft f64) (map_of m' k) = map_option (to_any_soft f64) (map_of m k))"
proof -
  obtain ms m j where *: "json_parse ps = Some (JObj ms)" "params_map ps = Some m"
      "map_of m ''name'' = Some j" "raw_string j = Some (pre @ ''/'' @ t)"
    by (rule one_name_cases [OF one name]) blast
  obtain r where r: "j = JStr r" "unquote r = pre @ ''/'' @ t"
    using *(4) pre by (cases j) (auto simp: raw_string_def)
  let ?m = "map_put ''name'' (JStr (quote t)) m"
  let ?xs = "map (\<lambda>e. (quote (fst e), html_json (snd e))) ?m"
  let ?p = "JObj (map (\<lambda>e. (quote (fst e), html_json (html_json (snd e)))) ?m)"
  let ?body = "JObj [(''jsonrpc'', JStr (quote (tc_jsonrpc call))), (''id'', any_json (tc_id call)),
         (''method'', JStr (quote (tc_method call))), (''params'', ?p)]"
  note props = params_map_props [OF *(1,2)]
  have p: "html_json (JObj ?xs) = ?p" by (simp add: comp_def)
  have call: "strip_prefix_from_call call pre = call\<lparr>tc_params := Some (json_print (JObj ?xs))\<rparr>"
    by (rule strip_prefix_unfold [OF ps pre *(1,2) *(3) [unfolded r(1)] r(2)])
  have marshal: "marshal_call G (strip_prefix_from_call call pre) = Inr (json_print ?body)"
    unfolding call p [symmetric] by (rule marshal_params [OF strip_prefix_params [OF *(1,2)]]) simp
  obtain j' where "json_parse ps = Some j'" "json_ok j'" "json_depth j' \<le> max_nesting - 1" using parsed_params [OF parse ps] by blast
  then have old: "json_ok v \<and> json_depth v \<le> max_nesting - 2" if "map_of m k = Some v" for k v
    using params_map_member [OF _ _ _ *(2) that] by fastforce
  have dist: "distinct (map fst ?m)" using map_put_sorted [OF props(1)] by (rule map_sorted_distinct)
  have e: "json_ok (snd e) \<and> json_depth (snd e) \<le> max_nesting - 2" if "e \<in> set ?m" for e
  proof -
    have "map_of ?m (fst e) = Some (snd e)" using that dist by (simp add: map_of_is_SomeI)
    then have "snd e = JStr (quote t) \<or> map_of m (fst e) = Some (snd e)"
      by (auto simp: map_of_map_put [OF props(1)] split: if_splits)
    moreover have "json_ok (JStr (quote t)) \<and> json_depth (JStr (quote t)) \<le> max_nesting - 2"
      by (simp add: quote_ok max_nesting_def)
    ultimately show ?thesis using old by metis
  qed
  then have e': "json_ok (html_json (html_json (snd e))) \<and> json_depth (html_json (html_json (snd e))) \<le> max_nesting - 2"
    if "e \<in> set ?m" for e
    using that html_json_ok html_json_depth by meson
  have pok: "json_ok ?p" using e' by (auto simp: quote_ok)
  have pdepth: "json_depth ?p \<le> max_nesting - 1" using e' by (auto simp: max_nesting_def)
  have body: "json_parse (json_print ?body) = Some ?body"
    by (rule call_json_parse [OF parse_tool_call_id_ok [OF f64 parse] pok pdepth])
  have pp: "json_parse (json_print ?p) = Some ?p"
    by (rule json_parse_print [OF pok order_trans [OF pdepth]]) simp
  have utf: "utf8_valid (fst x)" if "x \<in> set ?m" for x
  proof -
    have "fst x \<in> insert ''name'' (fst ` set m)" using that fst_set_map_put [of "''name''" "JStr (quote t)" m] by blast
    moreover have "fst ` set m \<subseteq> (\<lambda>x. unquote (fst x)) ` set ms" using image_mono [OF props(2), of fst] by (simp add: image_image)
    ultimately show ?thesis by auto
  qed
  obtain m' where m': "params_map (json_print ?p) = Some m'" "\<And>k. map_of m' k = map_option (html_json \<circ> html_json) (map_of ?m k)"
    using printed_map [of "json_print ?p" "html_json \<circ> html_json" ?m] pp dist utf by auto
  have kept: "map_option (to_any_soft f64) (map_of m' k) = map_option (to_any_soft f64) (map_of m k)" if "k \<noteq> ''name''" for f64 k
    using that old [of k] html_json_ok to_any_soft_html
    by (cases "map_of m k") (simp_all add: m'(2) map_of_map_put [OF props(1)])
  have "map_of m' ''name'' = Some (JStr (quote t))" by (simp add: m'(2) map_of_map_put [OF props(1)])
  then show ?thesis using marshal body *(2) m'(1) kept by blast
qed


end
