(* ===== verification/Frame.thy ===== *)
theory Frame
  imports MainWiring
begin

section \<open>What serving leaves alone\<close>

text \<open>
  An observation \<open>obs\<close> of the world (the policy engine's state, in use) that no collaborator
  changes is changed by no handler. The collaborators' half is a predicate on each interface, the
  handlers' half follows along their code.
\<close>

lemma keeps_pair [keeps_intros]: "(\<And>x y. p = (x, y) \<Longrightarrow> keeps obs (f x y)) \<Longrightarrow> keeps obs (case p of (x, y) \<Rightarrow> f x y)"
  by (cases p) simp

lemma keeps_bind_change:
  "obs (after (State_Monad.bind m f) w) \<noteq> obs w \<Longrightarrow> keeps obs m \<Longrightarrow>
     obs (after (f (result m w)) (after m w)) \<noteq> obs (after m w)"
  by (simp add: keeps_def after_bind)

lemma keeps_no_change: "obs (after m w) \<noteq> obs w \<Longrightarrow> keeps obs m \<Longrightarrow> False"
  by (simp add: keeps_def)

definition client_keeps :: "('w \<Rightarrow> 'v) \<Rightarrow> 'w http_client \<Rightarrow> bool" where
  "client_keeps obs H \<longleftrightarrow> (\<forall>r. keeps obs (hc_do H r))"

definition transport_keeps :: "('w \<Rightarrow> 'v) \<Rightarrow> 'w backend_transport \<Rightarrow> bool" where
  "transport_keeps obs t \<longleftrightarrow> (\<forall>c url call token. keeps obs (t c url call token))"

definition entry_keeps :: "('w \<Rightarrow> 'v) \<Rightarrow> 'w token_store \<Rightarrow> string \<Rightarrow> string \<Rightarrow> bool" where
  "entry_keeps obs st u p \<longleftrightarrow>
     keeps obs (ts_get st u p) \<and> (\<forall>t. keeps obs (ts_save st u p t)) \<and> keeps obs (ts_delete st u p)"

definition store_keeps :: "('w \<Rightarrow> 'v) \<Rightarrow> 'w token_store \<Rightarrow> bool" where
  "store_keeps obs st \<longleftrightarrow> (\<forall>u p. entry_keeps obs st u p)"

definition engine_keeps :: "('w \<Rightarrow> 'v) \<Rightarrow> 'w policy_engine \<Rightarrow> bool" where
  "engine_keeps obs e \<longleftrightarrow> (\<forall>c i call. keeps obs (pe_evaluate e c i call)) \<and> (\<forall>c i ns. keeps obs (pe_filter e c i ns))"

lemma entry_keepsD:
  "entry_keeps obs st u p \<Longrightarrow> keeps obs (ts_get st u p)"
  "entry_keeps obs st u p \<Longrightarrow> keeps obs (ts_save st u p t)"
  "entry_keeps obs st u p \<Longrightarrow> keeps obs (ts_delete st u p)"
  by (simp_all add: entry_keeps_def)

lemma store_keepsD: "store_keeps obs st \<Longrightarrow> entry_keeps obs st u p"
  by (simp add: store_keeps_def)

lemma engine_keepsD [keeps_intros]:
  "engine_keeps obs e \<Longrightarrow> keeps obs (pe_evaluate e c i call)"
  "engine_keeps obs e \<Longrightarrow> keeps obs (pe_filter e c i ns)"
  by (simp_all add: engine_keeps_def)

lemma opa_engine_keeps: "engine_keeps obs (opa_engine L G get)"
  by (simp add: engine_keeps_def opa_engine_def keeps_def)

subsection \<open>Transports\<close>

lemma http_forward_keeps: "client_keeps obs H \<Longrightarrow> transport_keeps obs (http_forward G H)"
  by (auto simp: transport_keeps_def client_keeps_def http_forward_def intro!: keeps_intros)

lemma sse_post_keeps [keeps_intros]: "client_keeps obs H \<Longrightarrow> keeps obs (sse_post G H c url call cred token session)"
  by (auto simp: client_keeps_def sse_post_def intro!: keeps_intros)

lemma sse_initialize_keeps [keeps_intros]: "client_keeps obs H \<Longrightarrow> keeps obs (sse_initialize G H c url cred token)"
  by (auto simp: sse_initialize_def intro!: keeps_intros)

lemma sse_forward_keeps: "client_keeps obs H \<Longrightarrow> transport_keeps obs (sse_forward G H)"
  by (auto simp: transport_keeps_def sse_forward_def sse_send_def Let_def intro!: keeps_intros)

lemma refresh_round_trip_keeps:
  assumes "\<And>r. keeps obs (inner r)" and "\<And>u p t. keeps obs (refresh u p t)"
    and "\<And>o'. cx_obo (rq_ctx req) = Some o' \<Longrightarrow> entry_keeps obs (oc_store o') (oc_user o') (oc_provider o')"
  shows "keeps obs (refresh_round_trip inner (Some refresh) req)"
  using assms unfolding refresh_round_trip_def obo_context_from_context_def entry_keeps_def
  by (auto split: option.splits intro!: keeps_intros)

subsection \<open>The on-behalf-of pipeline\<close>

definition obo_keeps :: "('w \<Rightarrow> 'v) \<Rightarrow> 'w obo \<Rightarrow> bool" where
  "obo_keeps obs p \<longleftrightarrow>
     (\<forall>c. keeps obs (ob_identity p c)) \<and> engine_keeps obs (ob_policy p)
     \<and> (\<forall>c i j. keeps obs (ob_minter p c i j)) \<and> ob_refresher p = None
     \<and> (\<forall>r o'. cx_obo (rq_ctx r) = Some o' \<and> entry_keeps obs (oc_store o') (oc_user o') (oc_provider o')
          \<longrightarrow> keeps obs (ob_transport p r))
     \<and> (\<forall>t. ob_sse p = Some t \<longrightarrow> transport_keeps obs t)"

text \<open>The pipeline touches the entry of the caller it resolves, for the route's provider, and no other.\<close>

lemma obo_execute_touches:
  assumes p: "obo_keeps obs p" and change: "obs (after (obo_execute G p c call route) w) \<noteq> obs w"
  shows "\<exists>idn. result (ob_identity p c) w = Inr idn \<and> \<not> entry_keeps obs (ob_store p) (id_user idn) (rt_obo route)"
proof -
  have id: "keeps obs (resolve_identity p c)"
    using p by (auto simp: obo_keeps_def resolve_identity_def intro!: keeps_intros)
  have rt: "keeps obs (obo_round_trip G p c' call route user access token)"
    if "entry_keeps obs (ob_store p) user (rt_obo route)" for c' user access token
    using p that by (auto simp: obo_keeps_def obo_round_trip_def with_obo_context_def intro!: keeps_intros)
  obtain idn c' where x: "result (resolve_identity p c) w = Inr (idn, c')"
    using keeps_bind_change [OF change [unfolded obo_execute_def] id] by (fastforce split: sum.splits)
  have "result (ob_identity p c) w = Inr idn"
    using p x by (auto simp: obo_keeps_def resolve_identity_def world_simps split: sum.splits if_splits option.splits)
  moreover have "\<not> entry_keeps obs (ob_store p) (id_user idn) (rt_obo route)"
  proof
    assume entry: "entry_keeps obs (ob_store p) (id_user idn) (rt_obo route)"
    note rest = keeps_bind_change [OF change [unfolded obo_execute_def] id, unfolded x sum.case prod.case Let_def]
    show False
      by (rule keeps_no_change [OF rest])
        (use p entry in \<open>auto simp: obo_keeps_def transport_keeps_def split: bool.splits
          intro!: keeps_intros entry_keepsD(1) rt\<close>)
  qed
  ultimately show ?thesis by blast
qed

subsection \<open>The broker\<close>

definition broker_keeps :: "('w \<Rightarrow> 'v) \<Rightarrow> 'w broker \<Rightarrow> bool" where
  "broker_keeps obs b \<longleftrightarrow>
     (\<forall>c. keeps obs (bk_identity b c)) \<and> engine_keeps obs (bk_policy b)
     \<and> transport_keeps obs (bk_transport b) \<and> transport_keeps obs (bk_sse b)
     \<and> (\<forall>c i j. keeps obs (bk_minter b c i j)) \<and> (\<forall>c p. keeps obs (bk_creds b c p))
     \<and> (\<forall>st u p. bk_store b = Some st \<longrightarrow> keeps obs (ts_get st u p))"

lemma transport_for_keeps:
  assumes b: "broker_keeps obs b"
  shows "keeps obs (transport_for b r c url call token)"
  using b by (simp add: broker_keeps_def transport_keeps_def transport_for_def)

lemma list_backend_keeps:
  assumes b: "broker_keeps obs b"
  shows "keeps obs (list_backend G b c idn r)"
  using b unfolding list_backend_def list_credential_def broker_keeps_def Let_def
  by (auto split: option.splits intro!: keeps_intros transport_for_keeps [OF b])

lemma aggregate_loop_keeps:
  assumes b: "broker_keeps obs b"
  shows "keeps obs (aggregate_loop G b c idn rs acc)"
  by (induction rs arbitrary: acc) (simp_all add: keeps_bind list_backend_keeps [OF b])

text \<open>
  Only the pipeline can change what the transports and the services keep: after a permitted call
  on a route with a provider.
\<close>

definition piped_call :: "golib \<Rightarrow> 'w broker \<Rightarrow> 'w ctx \<Rightarrow> tool_call \<Rightarrow> route_entry \<Rightarrow> 'w \<Rightarrow> 'w \<Rightarrow> bool" where
  "piped_call G b c call route v w \<longleftrightarrow>
     (\<exists>idn d. tc_method call = ''tools/call'' \<and> result (bk_identity b c) v = Inr idn
        \<and> result (pe_evaluate (bk_policy b) c idn call) (after (bk_identity b c) v) = Inr d \<and> d_permitted d
        \<and> w = after (pe_evaluate (bk_policy b) c idn call) (after (bk_identity b c) v)
        \<and> find_route (tool_prefix (tool_name_from_call call)) (bk_routes b) = Some route \<and> rt_obo route \<noteq> [])"

lemma handle_changes:
  assumes b: "broker_keeps obs b" and change: "obs (after (handle G b c data) v) \<noteq> obs v"
  shows "\<exists>call route w obo. parse_tool_call G data = Inr call \<and> piped_call G b c call route v w \<and> bk_obo b = Some obo
    \<and> obs (after (obo c (strip_prefix_from_call call (rt_prefix route)) route) w) \<noteq> obs w"
proof -
  have std: "keeps obs (handle_standard b c call' idn route)" for call' idn route
    using b unfolding handle_standard_def broker_keeps_def Let_def
    by (auto intro!: keeps_intros transport_for_keeps [OF b])
  have "keeps obs (aggregate_tools G b c)"
    using b by (auto simp: aggregate_tools_def broker_keeps_def intro!: keeps_intros aggregate_loop_keeps [OF b])
  then have disc: "keeps obs (handle_discovery G b c call)" for call
    using b unfolding handle_discovery_def broker_keeps_def by (auto intro!: keeps_intros)
  obtain call where call: "parse_tool_call G data = Inr call" "tc_method call = ''tools/call''"
      and exec: "obs (after (handle_execution G b c call) v) \<noteq> obs v"
    using change keepsD [OF disc] by (auto simp: handle_def split: sum.splits if_splits)
  have id: "keeps obs (bk_identity b c)" and ev: "keeps obs (pe_evaluate (bk_policy b) c i call)" for i
    using b by (auto simp: broker_keeps_def intro: engine_keepsD)
  note exec' = keeps_bind_change [OF exec [unfolded handle_execution_def Let_def] id]
  then obtain idn where idn: "result (bk_identity b c) v = Inr idn" by (cases "result (bk_identity b c) v") simp_all
  note rest = keeps_bind_change [OF exec' [unfolded idn sum.case] ev]
  let ?w = "after (pe_evaluate (bk_policy b) c idn call) (after (bk_identity b c) v)"
  obtain d route obo where "result (pe_evaluate (bk_policy b) c idn call) (after (bk_identity b c) v) = Inr d" "d_permitted d"
      "find_route (tool_prefix (tool_name_from_call call)) (bk_routes b) = Some route" "rt_obo route \<noteq> []" "bk_obo b = Some obo"
      "obs (after (obo c (strip_prefix_from_call call (rt_prefix route)) route) ?w) \<noteq> obs ?w"
    using rest keepsD [OF std]
    by (auto simp: resolve_route_def handle_obo_def after_bind split: sum.splits if_splits option.splits)
  then show ?thesis using call idn unfolding piped_call_def by blast
qed

lemma handle_keeps:
  assumes "broker_keeps obs b" and "\<And>obo call route. bk_obo b = Some obo \<Longrightarrow> keeps obs (obo c call route)"
  shows "keeps obs (handle G b c data)"
  using handle_changes [OF assms(1)] assms(2) unfolding keeps_def by metis

lemma handle_mcp_keeps:
  assumes "\<And>c data. keeps obs (handle G b c data)"
  shows "keeps obs (handle_mcp G b c r)"
  using assms by (auto simp: handle_mcp_def intro!: keeps_intros)

subsection \<open>The connect flow\<close>

definition connect_lib_keeps :: "('w \<Rightarrow> 'v) \<Rightarrow> 'w connect_lib \<Rightarrow> bool" where
  "connect_lib_keeps obs L \<longleftrightarrow>
     keeps obs (cl_now L) \<and> (\<forall>cfg url redirect code. keeps obs (cl_exchange L cfg url redirect code))"

lemma serve_connect_keeps:
  assumes "connect_lib_keeps obs L" and "\<And>c. keeps obs (cn_identity h c)"
  shows "keeps obs (serve_connect L h c r)"
  using assms unfolding serve_connect_def connect_lib_keeps_def Let_def by (auto intro!: keeps_intros)

lemma serve_callback_keeps:
  assumes "connect_lib_keeps obs L" and "store_keeps obs (cn_store h)"
  shows "keeps obs (serve_callback G L h r)"
  using assms unfolding serve_callback_def connect_lib_keeps_def store_keeps_def entry_keeps_def Let_def by (auto intro!: keeps_intros)

subsection \<open>Identity, assertions, stores\<close>

definition cache_keeps :: "('w \<Rightarrow> 'v) \<Rightarrow> 'w id_cache \<Rightarrow> bool" where
  "cache_keeps obs cache \<longleftrightarrow> (\<forall>k. keeps obs (ch_get cache k)) \<and> (\<forall>k i. keeps obs (ch_set cache k i))"

lemma cached_resolve_keeps:
  "cache_keeps obs cache \<Longrightarrow> keeps obs check \<Longrightarrow> keeps obs (cached_resolve cache check k)"
  by (auto simp: cached_resolve_def cache_keeps_def intro!: keeps_intros)

lemma oidc_resolve_keeps:
  assumes "new_oidc verifier cache cfg = Inr a" and "\<And>i u k t. keeps obs (verifier i u k t)"
    and "\<And>ttl. cache_keeps obs (cache ttl)"
  shows "keeps obs (oidc_resolve a c)"
proof -
  have "keeps obs (oidc_check a t)" "cache_keeps obs (od_cache a)" for t
    using assms by (auto simp: new_oidc_def oidc_check_def split: if_splits intro!: keeps_intros)
  then show ?thesis by (auto simp: oidc_resolve_def intro!: keeps_intros cached_resolve_keeps)
qed

lemma saml_resolve_keeps:
  assumes "result (new_saml S cfg) w = Inr a" and "\<And>sp x. keeps obs (sl_provider S sp x)"
    and "\<And>ttl. cache_keeps obs (sl_cache S ttl)"
  shows "keeps obs (saml_resolve a c)"
proof -
  have "(\<exists>sp. sm_parse a = sl_provider S sp) \<and> (\<exists>ttl. sm_cache a = sl_cache S ttl)"
    using assms(1) by (auto simp: new_saml_def world_simps split: if_splits sum.splits option.splits)
  then have "keeps obs (saml_check a x)" "cache_keeps obs (sm_cache a)" for x
    using assms(2,3) by (auto simp: saml_check_def intro!: keeps_intros)
  then show ?thesis by (auto simp: saml_resolve_def intro!: keeps_intros cached_resolve_keeps)
qed

lemma multi_resolve_keeps:
  assumes "list_all (\<lambda>kf. \<forall>c. keeps obs (snd kf c)) (mu_oidc m)" and "list_all (\<lambda>kf. \<forall>c. keeps obs (snd kf c)) (mu_saml m)"
  shows "keeps obs (multi_resolve G m c)"
proof -
  have "keeps obs (f c)" if "map_of (mu_oidc m) k = Some f \<or> map_of (mu_saml m) k = Some f" for f k
    using assms that by (auto simp: list_all_iff dest!: map_of_SomeD)
  moreover have "keeps obs (f c)" if "mu_oidc m = [(k, f)]" for f k
    using assms(1) that by simp
  ultimately show ?thesis
    unfolding multi_resolve_def resolve_assertion_def resolve_token_def Let_def
    by (auto intro!: keeps_intros split: list.splits)
qed

lemma mint_keeps:
  assumes "keeps obs (ml_now L)" and "keeps obs (ml_uuid L)" and "\<And>arn i. keeps obs (km_sign (mn_kms m) arn i)"
  shows "keeps obs (mint L m c i j)"
  using assms by (auto simp: mint_def Let_def intro!: keeps_intros)

definition dynamo_keeps :: "('w \<Rightarrow> 'v) \<Rightarrow> 'w dynamo \<Rightarrow> bool" where
  "dynamo_keeps obs D \<longleftrightarrow>
     (\<forall>t k. keeps obs (dy_get D t k)) \<and> (\<forall>t i. keeps obs (dy_put D t i)) \<and> (\<forall>t k. keeps obs (dy_delete D t k))"

definition badger_keeps :: "('w \<Rightarrow> 'v) \<Rightarrow> 'w badger \<Rightarrow> bool" where
  "badger_keeps obs B \<longleftrightarrow>
     (\<forall>k. keeps obs (bg_get B k)) \<and> (\<forall>k x. keeps obs (bg_set B k x)) \<and> (\<forall>k. keeps obs (bg_delete B k))"

definition crypto_keeps :: "('w \<Rightarrow> 'v) \<Rightarrow> 'w crypto \<Rightarrow> bool" where
  "crypto_keeps obs C \<longleftrightarrow>
     (\<forall>arn. keeps obs (km_generate (cr_kms C) arn)) \<and> (\<forall>arn k. keeps obs (km_decrypt (cr_kms C) arn k)) \<and> keeps obs (cr_nonce C)"

lemma dynamo_store_keeps: "dynamo_keeps obs D \<Longrightarrow> store_keeps obs (dynamo_store G D table)"
  by (auto simp: dynamo_keeps_def store_keeps_def entry_keeps_def dynamo_store_def dynamo_get_def dynamo_save_def dynamo_delete_def
      intro!: keeps_intros)

lemma badger_store_keeps: "badger_keeps obs B \<Longrightarrow> store_keeps obs (badger_store G B)"
  by (auto simp: badger_keeps_def store_keeps_def entry_keeps_def badger_store_def badger_get_def badger_save_def badger_delete_def
      intro!: keeps_intros)

lemma encrypted_store_keeps:
  assumes "store_keeps obs st" and "crypto_keeps obs C"
  shows "store_keeps obs (encrypted_store G C arn st)"
  unfolding store_keeps_def entry_keeps_def
proof (intro conjI allI)
  have st: "keeps obs (ts_get st u p)" "keeps obs (ts_save st u p t)" "keeps obs (ts_delete st u p)" for u p t
    using assms(1) by (simp_all add: store_keeps_def entry_keeps_def)
  show "keeps obs (ts_get (encrypted_store G C arn st) u p)" for u p
    using assms st by (auto simp: encrypted_store_def encrypted_get_def crypto_keeps_def intro!: keeps_intros)
  show "keeps obs (ts_save (encrypted_store G C arn st) u p t)" for u p t
    using assms st by (auto simp: encrypted_store_def encrypted_save_def seal_pair_def crypto_keeps_def intro!: keeps_intros)
  show "keeps obs (ts_delete (encrypted_store G C arn st) u p)" for u p
    using assms st by (auto simp: encrypted_store_def encrypted_delete_def intro!: keeps_intros)
qed

lemma oauth2_refresh_keeps: "(\<And>cfg t. keeps obs (source cfg t)) \<Longrightarrow> keeps obs (oauth2_refresh G source ps u p t)"
  by (auto simp: oauth2_refresh_def intro!: keeps_intros)

subsection \<open>The whole process\<close>

text \<open>
  The services that a process uses besides its backends change nothing that \<open>obs\<close> sees: the
  identity providers and the identity caches, the assertion minter's clock, random source and KMS
  key, the providers' token endpoints, the clock of the connect flow, and Secrets Manager; and what
  the token store is built on, a database, data keys and nonces.
\<close>

definition services_keep :: "('w \<Rightarrow> 'v) \<Rightarrow> ('w, 'y, 'm, 'k, 'x) main_lib \<Rightarrow> 'w connect_lib \<Rightarrow> bool" where
  "services_keep obs X L \<longleftrightarrow>
     (\<forall>i u k t. keeps obs (mx_verifier X i u k t)) \<and> (\<forall>ttl. cache_keeps obs (mx_cache X ttl))
     \<and> (\<forall>sp x. keeps obs (sl_provider (mx_saml X) sp x)) \<and> (\<forall>ttl. cache_keeps obs (sl_cache (mx_saml X) ttl))
     \<and> keeps obs (ml_now (mx_minter X)) \<and> keeps obs (ml_uuid (mx_minter X)) \<and> (\<forall>arn i. keeps obs (km_sign (mx_kms X) arn i))
     \<and> (\<forall>cfg t. keeps obs (mx_token_source X cfg t)) \<and> connect_lib_keeps obs L \<and> (\<forall>arn. keeps obs (mx_secrets X arn))"

definition databases_keep :: "('w \<Rightarrow> 'v) \<Rightarrow> ('w, 'y, 'm, 'k, 'x) main_lib \<Rightarrow> bool" where
  "databases_keep obs X \<longleftrightarrow>
     (\<forall>r D. mx_dynamo X r = Inr D \<longrightarrow> dynamo_keeps obs D) \<and> (\<forall>d B. mx_badger X d = Inr B \<longrightarrow> badger_keeps obs B)
     \<and> crypto_keeps obs (mx_crypto X)"

lemma wired_parts_keep:
  assumes parts: "wired_parts X cfg m mn b" and keep: "services_keep obs X L"
  shows "keeps obs (bk_identity b c)" and "keeps obs (bk_minter b c i j)"
    and "keeps obs (oauth2_refresh (mx_golib X) (mx_token_source X) (cf_secondary cfg) u p t)"
proof -
  have oidc: "\<forall>c. keeps obs (snd kf c)" if "oidc_adapter X (cf_idps cfg) kf" for kf
    using that keep oidc_resolve_keeps [of "mx_verifier X" "mx_cache X" _ _ obs]
    by (auto simp: oidc_adapter_def services_keep_def)
  have saml: "\<forall>c. keeps obs (snd kf c)" if "saml_adapter X (cf_idps cfg) kf" for kf
    using that keep saml_resolve_keeps [of "mx_saml X" _ _ _ obs]
    by (auto simp: saml_adapter_def services_keep_def)
  have "wired_adapters X cfg m" using parts by (simp add: wired_parts_def)
  then have "list_all (\<lambda>kf. \<forall>c. keeps obs (snd kf c)) (mu_oidc m)" "list_all (\<lambda>kf. \<forall>c. keeps obs (snd kf c)) (mu_saml m)"
    unfolding wired_adapters_def by (auto elim!: list.pred_mono_strong dest: oidc saml)
  then show "keeps obs (bk_identity b c)" using parts by (simp add: wired_parts_def multi_resolve_keeps)
  show "keeps obs (bk_minter b c i j)"
    using parts keep by (auto simp: wired_parts_def services_keep_def intro: mint_keeps)
  show "keeps obs (oauth2_refresh (mx_golib X) (mx_token_source X) (cf_secondary cfg) u p t)"
    using keep by (auto simp: services_keep_def intro: oauth2_refresh_keeps)
qed

lemma wired_store_keeps:
  assumes "wired_parts X cfg m mn b" and "databases_keep obs X" and "bk_store b = Some st"
  shows "store_keeps obs st"
proof -
  have "wire_store X cfg = Inr (Some st)" using assms(1,3) by (simp add: wired_parts_def)
  then show ?thesis using assms(2)
    by (auto simp: wire_store_def build_token_store_def new_badger_token_store_def databases_keep_def split: option.splits sum.splits if_splits
        intro!: encrypted_store_keeps dynamo_store_keeps badger_store_keeps)
qed

lemma wired_broker_keeps:
  assumes parts: "wired_parts X cfg m mn b" and keep: "services_keep obs X L"
    and client: "client_keeps obs (mx_client X)" and get: "\<And>st u p. bk_store b = Some st \<Longrightarrow> keeps obs (ts_get st u p)"
  shows "broker_keeps obs b"
proof -
  have "engine_keeps obs (bk_policy b)" using parts by (simp add: wired_parts_def opa_engine_keeps)
  moreover have "transport_keeps obs (bk_transport b)" "transport_keeps obs (bk_sse b)"
    using parts client by (simp_all add: wired_parts_def http_forward_keeps sse_forward_keeps)
  moreover have "keeps obs (bk_creds b c p)" for c p
    using parts by (simp add: wired_parts_def get_service_credential_def)
  ultimately show ?thesis unfolding broker_keeps_def using wired_parts_keep(1,2) [OF parts keep] get by blast
qed

lemma wired_obo_touches:
  assumes parts: "wired_parts X cfg m mn b" and keep: "services_keep obs X L"
    and client: "client_keeps obs (mx_client X)" and rt: "\<And>r. keeps obs (mx_round_trip X r)"
    and obo: "bk_obo b = Some obo" and change: "obs (after (obo c call route) w) \<noteq> obs w"
  shows "\<exists>st idn. bk_store b = Some st \<and> result (bk_identity b c) w = Inr idn
    \<and> \<not> entry_keeps obs st (id_user idn) (rt_obo route)"
proof -
  note keeps = wired_parts_keep [OF parts keep]
  have engine: "engine_keeps obs (bk_policy b)" using parts by (simp add: wired_parts_def opa_engine_keeps)
  have "process_obo X cfg (bk_identity b) (bk_policy b) (bk_minter b) (bk_store b) = Some obo"
    using parts obo unfolding wired_parts_def by metis
  then obtain st where st: "bk_store b = Some st" and o': "obo = obo_execute (mx_golib X)
      (process_pipeline X cfg (bk_identity b) (bk_policy b) (bk_minter b) st)"
    by (auto simp: process_obo_def split: option.splits if_splits)
  have "keeps obs (refresh_round_trip (mx_round_trip X)
      (Some (oauth2_refresh (mx_golib X) (mx_token_source X) (cf_secondary cfg))) r)"
    if "cx_obo (rq_ctx r) = Some o'" "entry_keeps obs (oc_store o') (oc_user o') (oc_provider o')" for r o'
    by (rule refresh_round_trip_keeps [OF rt keeps(3)]) (use that in simp)
  then have "obo_keeps obs (process_pipeline X cfg (bk_identity b) (bk_policy b) (bk_minter b) st)"
    unfolding obo_keeps_def process_pipeline_def
    by (auto intro: keeps(1,2) engine sse_forward_keeps client)
  from obo_execute_touches [OF this change [unfolded o']] show ?thesis
    using st by (simp add: process_pipeline_def)
qed

text \<open>An observation that nothing changes, not even the token store, is changed by no message.\<close>

lemma wired_handle_keeps:
  assumes parts: "wired_parts X cfg m mn b" and keep: "services_keep obs X L" and db: "databases_keep obs X"
    and client: "client_keeps obs (mx_client X)" and rt: "\<And>r. keeps obs (mx_round_trip X r)"
  shows "keeps obs (handle G b c data)"
proof (rule handle_keeps)
  note entry = store_keepsD [OF wired_store_keeps [OF parts db]]
  show "broker_keeps obs b"
    by (rule wired_broker_keeps [OF parts keep client]) (simp add: entry_keepsD(1) [OF entry])
  show "keeps obs (obo c call' route)" if "bk_obo b = Some obo" for obo call' route
    using wired_obo_touches [OF parts keep client rt that] entry unfolding keeps_def by blast
qed

end
