(* ===== verification/HttpSurface.thy ===== *)
theory HttpSurface
  imports Conversation Frame
begin

section \<open>The running process and its HTTP surface (\<^verbatim>\<open>cmd/abaris/main.go\<close>)\<close>

text \<open>
  The handlers that \<open>run\<close> registers, by the segments of a request's path (\<open>net/http\<close>'s multiplexer
  has cleaned the path and matches \<open>{provider}\<close> with one segment that is not empty), and what a
  process that has come up sends to backends, whatever requests it is given.
\<close>

datatype endpoint = Mcp | Health | Jwks | Connect string | Callback string | NoHandler

definition endpoint_of :: "bool \<Rightarrow> string list \<Rightarrow> endpoint" where
  "endpoint_of connect path =
     (if path = [''mcp''] then Mcp
      else if path = [''health''] then Health
      else if path = [''.well-known'', ''jwks.json''] then Jwks
      else (case path of
          [c, p] \<Rightarrow> if connect \<and> c = ''connect'' \<and> p \<noteq> [] then Connect p else NoHandler
        | [c, p, k] \<Rightarrow> if connect \<and> c = ''connect'' \<and> p \<noteq> [] \<and> k = ''callback'' then Callback p else NoHandler
        | _ \<Rightarrow> NoHandler))"

definition with_provider :: "in_request \<Rightarrow> string \<Rightarrow> in_request" where
  "with_provider r p = r\<lparr>iq_path_value := (\<lambda>k. if k = ''provider'' then p else [])\<rparr>"

text \<open>No dependency is ever registered with the health checker.\<close>

definition serve_http :: "golib \<Rightarrow> 'w connect_lib \<Rightarrow> ('w, 'y) system \<Rightarrow> 'w ctx \<Rightarrow> string list \<Rightarrow> in_request
    \<Rightarrow> ('w, http_reply) act" where
  "serve_http G L s c path r =
     (case endpoint_of (sy_connect s \<noteq> None) path of
        Mcp \<Rightarrow> handle_mcp G (sy_broker s) c r
      | Health \<Rightarrow> health_handler []
      | Jwks \<Rightarrow> ret (jwks_handler (sy_minter s))
      | Connect p \<Rightarrow> serve_connect L (the (sy_connect s)) c (with_provider r p)
      | Callback p \<Rightarrow> serve_callback G L (the (sy_connect s)) (with_provider r p)
      | NoHandler \<Rightarrow> ret (http_error ''404 page not found'' 404))"

lemma endpoint_connect: "endpoint_of connect path = Connect p \<or> endpoint_of connect path = Callback p \<Longrightarrow> connect"
  by (auto simp: endpoint_of_def split: if_splits list.splits)

lemma endpoint_mcp: "endpoint_of connect path = Mcp \<longleftrightarrow> path = [''mcp'']"
  by (auto simp: endpoint_of_def split: list.splits)

lemma serve_http_mcp: "serve_http G L s c [''mcp''] r = handle_mcp G (sy_broker s) c r"
  by (simp add: serve_http_def endpoint_of_def)

subsection \<open>What serving leaves alone\<close>

lemma health_keeps: "keeps obs (health_handler [])"
  by (simp add: health_handler_def keeps_def after_bind)

lemma serve_http_other_keeps:
  assumes "path \<noteq> [''mcp'']" and L: "connect_lib_keeps obs L" and con: "wired_connect (sy_broker s) (sy_connect s)"
    and id: "\<And>c. keeps obs (bk_identity (sy_broker s) c)"
    and st: "\<And>st. bk_store (sy_broker s) = Some st \<Longrightarrow> store_keeps obs st"
  shows "keeps obs (serve_http G L s c path r)"
proof -
  have h: "keeps obs (serve_connect L h c r')" "keeps obs (serve_callback G L h r')" if "sy_connect s = Some h" for h r'
    using serve_connect_keeps [OF L, of h] serve_callback_keeps [OF L, of h] con id st that
    by (simp_all add: wired_connect_def)
  show ?thesis
  proof (cases "endpoint_of (sy_connect s \<noteq> None) path")
    case (Connect p)
    then obtain h where "sy_connect s = Some h" using endpoint_connect by fastforce
    then show ?thesis using Connect h by (simp add: serve_http_def)
  next
    case (Callback p)
    then obtain h where "sy_connect s = Some h" using endpoint_connect by fastforce
    then show ?thesis using Callback h by (simp add: serve_http_def)
  qed (use assms(1) endpoint_mcp in \<open>auto simp: serve_http_def health_keeps\<close>)
qed

lemma serve_http_keeps:
  assumes "\<And>c data. keeps obs (handle G (sy_broker s) c data)" and "connect_lib_keeps obs L"
    and "wired_connect (sy_broker s) (sy_connect s)" and "\<And>c. keeps obs (bk_identity (sy_broker s) c)"
    and "\<And>st. bk_store (sy_broker s) = Some st \<Longrightarrow> store_keeps obs st"
  shows "keeps obs (serve_http G L s c path r)"
  using serve_http_other_keeps [OF _ assms(2-5)] handle_mcp_keeps [OF assms(1)]
  by (cases "path = [''mcp'']") (auto simp: serve_http_mcp)

subsection \<open>What the process sends\<close>

lemma quiet_keeps: "quiet m \<longleftrightarrow> keeps nt_sent m"
  by (simp add: quiet_def keeps_def)

lemma quiet_store_keeps: "quiet_store st \<longleftrightarrow> store_keeps nt_sent st"
  by (auto simp: quiet_store_def store_keeps_def entry_keeps_def quiet_keeps)

text \<open>
  The process of \<open>run\<close> over the recording network: its HTTP clients record, and the services that
  are not backends send nothing to one.
\<close>

definition recorded :: "('z net, 'y, 'm, 'k, 'x) main_lib \<Rightarrow> (string \<Rightarrow> string option) \<Rightarrow> 'z network \<Rightarrow> 'z net connect_lib
    \<Rightarrow> bool" where
  "recorded X check answer L \<longleftrightarrow>
     mx_client X = trace_client check answer \<and> mx_round_trip X = trace_round_trip answer
     \<and> services_keep nt_sent X L \<and> databases_keep nt_sent X"

definition process_refresh :: "('w, 'y, 'm, 'k, 'x) main_lib \<Rightarrow> ('w, 'y) system \<Rightarrow> 'w token_refresher" where
  "process_refresh X s = oauth2_refresh (mx_golib X) (mx_token_source X) (cf_secondary (ld_current (sy_loader s)))"

text \<open>
  A request to a route's backend: with the service credential that the environment names for the
  route or, on a route with a provider, with a token of the caller for that provider.
\<close>

definition process_request :: "('z net, 'y, 'm, 'k, 'x) main_lib \<Rightarrow> ('z net, 'y) system \<Rightarrow> 'z net ctx \<Rightarrow> route_entry
    \<Rightarrow> sent \<Rightarrow> bool" where
  "process_request X s c r q \<longleftrightarrow>
     backend_request (rt_backend r) (mx_env X (cred_env_key (rt_prefix r))) q
     \<or> rt_obo r \<noteq> [] \<and> (\<exists>st idn v. bk_store (sy_broker s) = Some st \<and> result (bk_identity (sy_broker s) c) v = Inr idn
          \<and> user_request st (process_refresh X s) (id_user idn) r q)"

lemma silent_engine:
  "keeps obs (pe_evaluate (opa_engine L G get) c idn call)" "keeps obs (pe_filter (opa_engine L G get) c idn ns)"
  by (simp_all add: opa_engine_def keeps_def)

lemma process_plain:
  assumes "wired_parts X cfg m mn b" and "recorded X check answer L"
  shows "plain_broker (mx_golib X) check answer (b\<lparr>bk_store := None, bk_obo := None\<rparr>)"
  using assms wired_parts_keep(1,2) [OF assms(1), of nt_sent L]
  by (auto simp: plain_broker_def wired_parts_def recorded_def silent_engine get_service_credential_def quiet_keeps)

lemma process_wired:
  assumes parts: "wired_parts X cfg m mn b" and rec: "recorded X check answer L" and st: "bk_store b = Some st"
  shows "wired_broker (mx_golib X) check answer (oauth2_refresh (mx_golib X) (mx_token_source X) (cf_secondary cfg)) st
    (process_pipeline X cfg (bk_identity b) (bk_policy b) (bk_minter b) st) b"
proof -
  note keeps = wired_parts_keep [OF parts, of nt_sent L]
  show ?thesis
    using process_plain [OF parts rec] st parts rec keeps wired_store_keeps [OF parts _ st, of nt_sent]
    by (auto simp: wired_broker_def wired_obo_def process_pipeline_def process_obo_def wired_parts_def recorded_def
        silent_engine quiet_keeps quiet_store_keeps)
qed

lemma process_credential:
  assumes "wired_parts X cfg m mn (sy_broker s)" and "route_request (sy_broker s) c r q"
  shows "process_request X s c r q"
proof -
  obtain w cred where "result (bk_creds (sy_broker s) c (rt_prefix r)) w = Inr cred" "backend_request (rt_backend r) cred q"
    using assms(2) by (auto simp: route_request_def)
  then have "cred = mx_env X (cred_env_key (rt_prefix r))" and "backend_request (rt_backend r) cred q"
    using assms(1) get_service_credential_iff [of "mx_golib X" "mx_env X" "cf_routes cfg" c "rt_prefix r" w]
    by (auto simp: wired_parts_def split: if_splits)
  then show ?thesis by (simp add: process_request_def)
qed

text \<open>A process keeps the contract of \<open>broker_laws\<close>, with or without a token store.\<close>

lemma process_laws:
  assumes w: "wired_parts X (ld_current (sy_loader s)) m mn (sy_broker s)" and r: "recorded X check answer L"
  shows "\<exists>P. broker_laws (sy_broker s) c P \<and> (\<forall>route q. P route q \<longrightarrow> process_request X s c route q)"
proof (cases "bk_store (sy_broker s)")
  case None
  then have "(sy_broker s)\<lparr>bk_store := None, bk_obo := None\<rparr> = sy_broker s"
    using w by (simp add: wired_parts_def process_obo_def)
  then have "plain_broker (mx_golib X) check answer (sy_broker s)" using process_plain [OF w r] by simp
  from plain_broker_laws [OF this] process_credential [OF w] show ?thesis by blast
next
  case (Some st)
  have "process_request X s c route q" if "broker_request (sy_broker s) st (process_refresh X s) c route q" for route q
    using that process_credential [OF w] Some unfolding broker_request_def process_request_def by blast
  with wired_broker_laws [OF process_wired [OF w r Some, folded process_refresh_def]] show ?thesis by blast
qed

lemma process_handle_sends:
  assumes w: "wired_parts X (ld_current (sy_loader s)) m mn (sy_broker s)" and r: "recorded X check answer L"
    and q: "q \<in> set (new_sent (handle G (sy_broker s) c data) v)"
  shows "\<exists>call idn route. parse_tool_call G data = Inr call \<and> result (bk_identity (sy_broker s) c) v = Inr idn
    \<and> route \<in> set (bk_routes (sy_broker s)) \<and> process_request X s c route q
    \<and> (tc_method call = ''tools/list''
       \<or> tc_method call = ''tools/call''
         \<and> find_route (tool_prefix (tool_name_from_call call)) (bk_routes (sy_broker s)) = Some route
         \<and> says_yes (result (pe_evaluate (bk_policy (sy_broker s)) c idn call) (after (bk_identity (sy_broker s) c) v)))"
proof -
  obtain P where P: "broker_laws (sy_broker s) c P" "\<And>route q. P route q \<Longrightarrow> process_request X s c route q"
    using process_laws [OF w r] by blast
  from broker_laws.handle_sends [OF P(1) q] P(2) show ?thesis by blast
qed

lemma handle_mcp_sends:
  assumes "q \<in> set (new_sent (handle_mcp G b c r) v)"
  shows "iq_method r = ''POST'' \<and> (\<exists>body. read_limited body_limit (iq_body r) = Inr body
    \<and> q \<in> set (new_sent (handle G b (inject_credentials_from_http c r) body) v))"
  using assms
  by (auto simp: handle_mcp_def new_sent_def after_bind split: if_splits sum.splits)

end
