(* ===== verification/Shutdown.thy ===== *)
theory Shutdown
  imports Prelude
begin

section \<open>Graceful shutdown (\<^verbatim>\<open>internal/infra/shutdown.go\<close>)\<close>

text \<open>
  \<open>RunWithGracefulShutdown\<close> beside the goroutine it starts, the connections of the server, the
  signal and the clock, as a step relation: every interleaving is a run. The goroutine hands its
  error over a channel; \<open>ListenAndServe\<close> ends with \<open>ErrServerClosed\<close> only once \<open>Shutdown\<close> has
  begun. \<open>http.Server.Shutdown\<close> polls, first at once: without an active connection it returns the
  error of closing the listeners (usually none); otherwise it waits for a later poll or for the
  deadline. Time passes only while \<open>main\<close> has nothing to do but to poll: the other statements
  and an expired timer take no time. Connections become active and finish at any moment.
\<close>

datatype serve_state = Running | Ended "string option"

datatype main_state = Waiting | Draining int bool | Returned "string option"

record shutdown_state =
  sd_main :: main_state
  sd_serve :: serve_state
  sd_asked :: "int option"
  sd_clock :: int
  sd_active :: nat
  sd_log :: "string list"

definition serving :: "nat \<Rightarrow> shutdown_state" where
  "serving n = \<lparr>sd_main = Waiting, sd_serve = Running, sd_asked = None, sd_clock = 0, sd_active = n, sd_log = []\<rparr>"

datatype shutdown_event =
  Began | Finished | ServeFailed string | ServeClosed | Asked | Tick
| Report | Notice | PollIdle | PollBusy | Deadline

text \<open>Whether \<open>main\<close> is waiting for something that has not happened yet.\<close>

definition may_wait :: "shutdown_state \<Rightarrow> bool" where
  "may_wait s =
     (case sd_main s of
        Waiting \<Rightarrow> sd_serve s = Running \<and> sd_asked s = None
      | Draining d polled \<Rightarrow> polled \<and> sd_clock s < d
      | Returned r \<Rightarrow> True)"

definition deadline_exceeded :: string where
  "deadline_exceeded = ''context deadline exceeded''"

definition shutdown_record :: "string option \<Rightarrow> string" where
  "shutdown_record r = (if r = None then ''shutdown complete'' else ''drain timeout exceeded, forcing shutdown'')"

text \<open>
  \<open>timeout\<close> is the drain timeout, \<open>close_error\<close> the error of closing the listeners. With both the
  channel closed and the signal there, \<open>select\<close> picks either.
\<close>

inductive shutdown_step :: "int \<Rightarrow> string option \<Rightarrow> shutdown_state \<Rightarrow> shutdown_event \<Rightarrow> shutdown_state \<Rightarrow> bool"
  for timeout close_error where
  began: "shutdown_step timeout close_error s Began (s\<lparr>sd_active := sd_active s + 1\<rparr>)"
| finished: "sd_active s > 0 \<Longrightarrow> shutdown_step timeout close_error s Finished (s\<lparr>sd_active := sd_active s - 1\<rparr>)"
| serve_failed: "sd_serve s = Running \<Longrightarrow>
     shutdown_step timeout close_error s (ServeFailed t) (s\<lparr>sd_serve := Ended (Some t)\<rparr>)"
| serve_closed: "sd_serve s = Running \<Longrightarrow> sd_main s \<noteq> Waiting \<Longrightarrow>
     shutdown_step timeout close_error s ServeClosed (s\<lparr>sd_serve := Ended None\<rparr>)"
| asked: "sd_asked s = None \<Longrightarrow> shutdown_step timeout close_error s Asked (s\<lparr>sd_asked := Some (sd_clock s)\<rparr>)"
| tick: "may_wait s \<Longrightarrow> shutdown_step timeout close_error s Tick (s\<lparr>sd_clock := sd_clock s + 1\<rparr>)"
| report: "sd_main s = Waiting \<Longrightarrow> sd_serve s = Ended r \<Longrightarrow>
     shutdown_step timeout close_error s Report (s\<lparr>sd_main := Returned r\<rparr>)"
| notice: "sd_main s = Waiting \<Longrightarrow> sd_asked s \<noteq> None \<Longrightarrow>
     shutdown_step timeout close_error s Notice (s\<lparr>sd_main := Draining (sd_clock s + timeout) False,
       sd_log := sd_log s @ [''received shutdown signal, draining in-flight requests'']\<rparr>)"
| poll_idle: "sd_main s = Draining d polled \<Longrightarrow> sd_active s = 0 \<Longrightarrow>
     shutdown_step timeout close_error s PollIdle (s\<lparr>sd_main := Returned close_error,
       sd_log := sd_log s @ [shutdown_record close_error]\<rparr>)"
| poll_busy: "sd_main s = Draining d polled \<Longrightarrow> sd_active s > 0 \<Longrightarrow>
     shutdown_step timeout close_error s PollBusy (s\<lparr>sd_main := Draining d True\<rparr>)"
| deadline: "sd_main s = Draining d True \<Longrightarrow> d \<le> sd_clock s \<Longrightarrow>
     shutdown_step timeout close_error s Deadline (s\<lparr>sd_main := Returned (Some deadline_exceeded),
       sd_log := sd_log s @ [shutdown_record (Some deadline_exceeded)]\<rparr>)"

inductive_cases shutdown_stepE: "shutdown_step timeout close_error s e s'"

inductive shutdown_run :: "int \<Rightarrow> string option \<Rightarrow> shutdown_state \<Rightarrow> shutdown_event list \<Rightarrow> shutdown_state \<Rightarrow> bool"
  for timeout close_error where
  sd_start: "shutdown_run timeout close_error s [] s"
| sd_more: "shutdown_run timeout close_error s es s' \<Longrightarrow> shutdown_step timeout close_error s' e s'' \<Longrightarrow>
     shutdown_run timeout close_error s (es @ [e]) s''"

lemma shutdown_run_trans:
  "shutdown_run T ce s' es' s'' \<Longrightarrow> shutdown_run T ce s es s' \<Longrightarrow> shutdown_run T ce s (es @ es') s''"
  by (induction rule: shutdown_run.induct) (auto intro: sd_more simp flip: append_assoc)

lemma shutdown_run_one: "shutdown_step T ce s e s' \<Longrightarrow> shutdown_run T ce s [e] s'"
  using sd_more [OF sd_start] by fastforce

subsection \<open>The invariant\<close>

text \<open>
  While \<open>main\<close> waits the channel holds no clean end; a signal is noticed, and the first poll made,
  at its own instant; and draining never outlasts the timeout. The events of the run say how the
  state came about.
\<close>

definition main_ok :: "int \<Rightarrow> shutdown_event list \<Rightarrow> shutdown_state \<Rightarrow> bool" where
  "main_ok T es s =
     (case sd_main s of
        Waiting \<Rightarrow> sd_serve s \<noteq> Ended None \<and> (sd_asked s \<noteq> None \<longrightarrow> sd_asked s = Some (sd_clock s))
      | Draining d polled \<Rightarrow> (\<exists>t. sd_asked s = Some t \<and> d = t + T \<and> t \<le> sd_clock s \<and> sd_clock s \<le> t + max 0 T)
          \<and> (polled \<longrightarrow> PollBusy \<in> set es) \<and> (\<not> polled \<longrightarrow> sd_asked s = Some (sd_clock s))
      | Returned r \<Rightarrow> True)"

definition shutdown_ok :: "int \<Rightarrow> shutdown_event list \<Rightarrow> shutdown_state \<Rightarrow> bool" where
  "shutdown_ok T es s \<longleftrightarrow> main_ok T es s \<and> (sd_asked s \<noteq> None \<longrightarrow> Asked \<in> set es)
     \<and> (\<forall>t. sd_serve s = Ended (Some t) \<longrightarrow> ServeFailed t \<in> set es)"

lemma shutdown_step_ok:
  assumes "shutdown_step T ce s e s'" and "shutdown_ok T es s"
  shows "shutdown_ok T (es @ [e]) s'"
  using assms
  by (cases rule: shutdown_step.cases)
    (auto simp: shutdown_ok_def main_ok_def may_wait_def split: main_state.splits)

lemma shutdown_run_ok: "shutdown_run T ce s es s' \<Longrightarrow> s = serving n \<Longrightarrow> shutdown_ok T es s'"
proof (induction rule: shutdown_run.induct)
  case (sd_start s)
  then show ?case by (simp add: shutdown_ok_def main_ok_def serving_def)
next
  case (sd_more s es s' e s'')
  then show ?case using shutdown_step_ok by blast
qed

subsection \<open>How it returns\<close>

lemma returned_stays:
  "shutdown_step T ce s e s' \<Longrightarrow> sd_main s = Returned r \<Longrightarrow> sd_main s' = Returned r"
  by (cases rule: shutdown_step.cases) auto

text \<open>The one step that makes \<open>main\<close> return, from a state that keeps the invariant.\<close>

definition return_cause :: "int \<Rightarrow> string option \<Rightarrow> shutdown_event list \<Rightarrow> shutdown_state \<Rightarrow> shutdown_event \<Rightarrow> string option \<Rightarrow> bool" where
  "return_cause T ce before s e r \<longleftrightarrow>
     (e = Report \<and> (\<exists>t. r = Some t \<and> ServeFailed t \<in> set before)
      \<or> e = PollIdle \<and> Asked \<in> set before \<and> sd_active s = 0 \<and> r = ce
      \<or> e = Deadline \<and> PollBusy \<in> set before \<and> (\<exists>t. sd_asked s = Some t \<and> sd_clock s = t + max 0 T)
          \<and> r = Some deadline_exceeded)"

lemma return_step:
  assumes "shutdown_step T ce s e s'" and "shutdown_ok T es s" and "sd_main s' = Returned r" and "\<nexists>r. sd_main s = Returned r"
  shows "return_cause T ce es s e r"
  using assms(1)
proof (cases rule: shutdown_step.cases)
  case (report r')
  then show ?thesis
    using assms(2,3) by (cases r') (auto simp: return_cause_def shutdown_ok_def main_ok_def)
next
  case (poll_idle d polled)
  then show ?thesis using assms(2,3) by (auto simp: return_cause_def shutdown_ok_def main_ok_def)
next
  case (deadline d)
  then show ?thesis
    using assms(2,3) by (auto simp: return_cause_def shutdown_ok_def main_ok_def)
qed (use assms(3,4) in auto)

lemma return_event:
  "shutdown_run T ce s es s' \<Longrightarrow> s = serving n \<Longrightarrow> sd_main s' = Returned r \<Longrightarrow>
     \<exists>before e later s1. es = before @ e # later \<and> shutdown_run T ce s before s1 \<and> return_cause T ce before s1 e r"
proof (induction rule: shutdown_run.induct)
  case (sd_start s)
  then show ?case by (simp add: serving_def)
next
  case (sd_more s es s' e s'')
  show ?case
  proof (cases "\<exists>r'. sd_main s' = Returned r'")
    case True
    then have "sd_main s' = Returned r" using returned_stays [OF sd_more.hyps(2)] sd_more.prems(2) by fastforce
    then show ?thesis using sd_more.IH sd_more.prems(1) by fastforce
  next
    case False
    then show ?thesis
      using return_step [OF sd_more.hyps(2) shutdown_run_ok [OF sd_more.hyps(1) sd_more.prems(1)] sd_more.prems(2)]
        sd_more.hyps(1) by blast
  qed
qed

subsection \<open>It does return\<close>

lemma drained_by_deadline:
  assumes "sd_main s = Draining d True"
  shows "\<exists>es s' r. shutdown_run T ce s es s' \<and> sd_main s' = Returned r \<and> set es \<subseteq> {Tick, Deadline}"
  using assms
proof (induction "nat (d - sd_clock s)" arbitrary: s)
  case 0
  then have "shutdown_step T ce s Deadline (s\<lparr>sd_main := Returned (Some deadline_exceeded),
       sd_log := sd_log s @ [shutdown_record (Some deadline_exceeded)]\<rparr>)" by (intro deadline) simp_all
  then show ?case using shutdown_run_one by fastforce
next
  case (Suc k)
  let ?s = "s\<lparr>sd_clock := sd_clock s + 1\<rparr>"
  have "shutdown_step T ce s Tick ?s" using Suc by (intro tick) (simp add: may_wait_def)
  moreover obtain es s' r where "shutdown_run T ce ?s es s'" "sd_main s' = Returned r" "set es \<subseteq> {Tick, Deadline}"
    using Suc.hyps(1) [of ?s] Suc.hyps(2) Suc.prems by force
  ultimately show ?case using shutdown_run_trans [OF _ shutdown_run_one] by fastforce
qed

lemma drain_returns:
  assumes "sd_main s = Draining d polled"
  shows "\<exists>es s' r. shutdown_run T ce s es s' \<and> sd_main s' = Returned r \<and> set es \<subseteq> {PollIdle, PollBusy, Tick, Deadline}"
proof (cases "sd_active s = 0")
  case True
  then show ?thesis using shutdown_run_one [OF poll_idle [OF assms True]] by fastforce
next
  case False
  let ?s = "s\<lparr>sd_main := Draining d True\<rparr>"
  have "shutdown_step T ce s PollBusy ?s" using assms False by (intro poll_busy) auto
  moreover obtain es s' r where "shutdown_run T ce ?s es s'" "sd_main s' = Returned r" "set es \<subseteq> {Tick, Deadline}"
    using drained_by_deadline [of ?s d T ce] by auto
  ultimately show ?thesis using shutdown_run_trans [OF _ shutdown_run_one] by fastforce
qed

lemma asked_returns:
  assumes "sd_asked s \<noteq> None" and "shutdown_ok T es0 s"
  shows "\<exists>es s' r. shutdown_run T ce s es s' \<and> sd_main s' = Returned r
    \<and> set es \<subseteq> {Notice, PollIdle, PollBusy, Tick, Deadline}"
proof (cases "sd_main s")
  case Waiting
  let ?s = "s\<lparr>sd_main := Draining (sd_clock s + T) False,
       sd_log := sd_log s @ [''received shutdown signal, draining in-flight requests'']\<rparr>"
  have "shutdown_step T ce s Notice ?s" using Waiting assms(1) by (intro notice)
  moreover obtain es s' r where "shutdown_run T ce ?s es s'" "sd_main s' = Returned r"
      "set es \<subseteq> {PollIdle, PollBusy, Tick, Deadline}"
    using drain_returns [of ?s "sd_clock s + T" False T ce] by auto
  ultimately show ?thesis using shutdown_run_trans [OF _ shutdown_run_one] by fastforce
next
  case (Draining d polled)
  then show ?thesis using drain_returns [of s d polled T ce] by blast
next
  case (Returned r)
  then show ?thesis using sd_start by fastforce
qed

subsection \<open>Properties of the shutdown\<close>

text \<open>
  C39: \<open>RunWithGracefulShutdown\<close> ends in time, and its result says how. In every interleaving
  of the server goroutine, the requests, the signal and the clock: once a signal has come it never
  stays past the drain timeout, and it can always return without anything from outside; when it
  returns, either the server had failed and the result is that error, or a poll found no active
  connection after the signal and the result is that of closing the listeners, or the timeout had
  passed to the full after a poll had found a connection active, and the result is
  \<open>context.DeadlineExceeded\<close>. So nil, which makes exit code 0, means signalled and drained.
\<close>

theorem shutdown_ends_in_time:
  assumes "shutdown_run T ce (serving n) es s"
  shows "(\<forall>t. sd_asked s = Some t \<and> (\<nexists>r. sd_main s = Returned r) \<longrightarrow>
        sd_clock s \<le> t + max 0 T
        \<and> (\<exists>es' s' r. shutdown_run T ce s es' s' \<and> sd_main s' = Returned r
             \<and> set es' \<subseteq> {Notice, PollIdle, PollBusy, Tick, Deadline}))
    \<and> (\<forall>r. sd_main s = Returned r \<longrightarrow> (\<exists>before e later s1.
        es = before @ e # later \<and> shutdown_run T ce (serving n) before s1
        \<and> (e = Report \<and> (\<exists>t. r = Some t \<and> ServeFailed t \<in> set before)
           \<or> e = PollIdle \<and> Asked \<in> set before \<and> sd_active s1 = 0 \<and> r = ce
           \<or> e = Deadline \<and> PollBusy \<in> set before \<and> (\<exists>t. sd_asked s1 = Some t \<and> sd_clock s1 = t + max 0 T)
               \<and> r = Some deadline_exceeded)))"
proof -
  note ok = shutdown_run_ok [OF assms refl]
  have "sd_clock s \<le> t + max 0 T" if "sd_asked s = Some t" "\<nexists>r. sd_main s = Returned r" for t
    using ok that by (auto simp: shutdown_ok_def main_ok_def split: main_state.splits)
  then show ?thesis
    using asked_returns [OF _ ok] return_event [OF assms refl] unfolding return_cause_def by auto
qed

definition demo_drained :: shutdown_state where
  "demo_drained = \<lparr>sd_main = Returned None, sd_serve = Running, sd_asked = Some 0, sd_clock = 1, sd_active = 0,
     sd_log = [''received shutdown signal, draining in-flight requests'', ''shutdown complete'']\<rparr>"

lemma demo_drain: "shutdown_run 30 None (serving 1) [Asked, Notice, PollBusy, Tick, Finished, PollIdle] demo_drained"
proof -
  note steps = asked notice poll_busy [where d = 30] tick finished poll_idle [where d = 30 and polled = True]
  let ?s1 = "(serving 1)\<lparr>sd_asked := Some 0\<rparr>"
  let ?s2 = "?s1\<lparr>sd_main := Draining 30 False, sd_log := [''received shutdown signal, draining in-flight requests'']\<rparr>"
  let ?s3 = "?s2\<lparr>sd_main := Draining 30 True\<rparr>"
  let ?s4 = "?s3\<lparr>sd_clock := 1\<rparr>"
  let ?s5 = "?s4\<lparr>sd_active := 0\<rparr>"
  have "shutdown_step 30 None (serving 1) Asked ?s1" using asked [of "serving 1"] by (simp add: serving_def)
  note run = sd_more [OF sd_start this]
  have "shutdown_step 30 None ?s1 Notice ?s2" using notice [of ?s1 30] by (simp add: serving_def)
  note run = sd_more [OF run this]
  have "shutdown_step 30 None ?s2 PollBusy ?s3" using poll_busy [of ?s2 30 False 30] by (simp add: serving_def)
  note run = sd_more [OF run this]
  have "shutdown_step 30 None ?s3 Tick ?s4" using tick [of ?s3 30] by (simp add: serving_def may_wait_def)
  note run = sd_more [OF run this]
  have "shutdown_step 30 None ?s4 Finished ?s5" using finished [of ?s4 30] by (simp add: serving_def)
  note run = sd_more [OF run this]
  have "shutdown_step 30 None ?s5 PollIdle demo_drained"
    using poll_idle [of ?s5 30 True 30 None] by (simp add: serving_def demo_drained_def shutdown_record_def)
  from sd_more [OF run this] show ?thesis by simp
qed

theorem shutdown_ends_in_time_witness:
  "\<exists>before e later s1. [Asked, Notice, PollBusy, Tick, Finished, PollIdle] = before @ e # later
     \<and> shutdown_run 30 None (serving 1) before s1
     \<and> (e = PollIdle \<and> Asked \<in> set before \<and> sd_active s1 = 0)"
proof -
  obtain before e later s1 where es: "[Asked, Notice, PollBusy, Tick, Finished, PollIdle] = before @ e # later"
      and run: "shutdown_run 30 None (serving 1) before s1"
      and why: "(\<exists>t. None = Some t \<and> ServeFailed t \<in> set before) \<and> e = Report
           \<or> e = PollIdle \<and> Asked \<in> set before \<and> sd_active s1 = 0 \<or> e = Deadline \<and> None = Some deadline_exceeded"
    using shutdown_ends_in_time [OF demo_drain] by (fastforce simp: demo_drained_def)
  have "e = PollIdle \<and> Asked \<in> set before \<and> sd_active s1 = 0" using why by auto
  then show ?thesis using es run by blast
qed

end
