(* ===== verification/ProcessRun.thy ===== *)
theory ProcessRun
  imports HttpSurface Shutdown
begin

section \<open>Runs of the process\<close>

text \<open>
  A process that has come up, as a state machine over its watched loader and its world: it serves
  HTTP requests, reads lines from standard input, reloads the policy bundle every thirty seconds
  and sees the policy files change; in between, anything may change that is neither the record of
  what was sent nor the policy engine's state. Whatever configuration the watched loader hands to
  a callback goes to the engine's \<open>UpdatePolicies\<close> (\<open>onChange\<close> of \<^verbatim>\<open>main.go\<close>; its other statement,
  \<open>UpdateRoutes\<close>, changes nothing, since a reload keeps the routes).
\<close>

datatype 'y process_event =
    Request "string list" in_request
  | Input bytes
  | Poll bundle_outcome
  | Watched "'y watch_event" bundle_outcome
  | Outside

type_synonym ('y, 'z) process = "'y loader \<times> 'z net"

text \<open>What matters of the engine: its query is that of its policies, and which these are.\<close>

definition engine_view :: "('w, 'y, 'm, 'k, 'x) main_lib \<Rightarrow> 'w \<Rightarrow> bool \<times> policy_entry list" where
  "engine_view X w = (opa_wf (mx_get_opa X w), oa_policies (mx_get_opa X w))"

definition on_change :: "('w, 'y, 'm, 'k, 'x) main_lib \<Rightarrow> bundle_outcome \<Rightarrow> 'w \<Rightarrow> config \<Rightarrow> 'w" where
  "on_change X bo v cfg = mx_put_opa X (snd (update_policies (mx_golib X) bo (cf_policies cfg) (mx_get_opa X v))) v"

inductive process_step :: "('z net, 'y, 'm, 'k, 'x) main_lib \<Rightarrow> 'z net connect_lib \<Rightarrow> ('z net, 'y) system
    \<Rightarrow> ('y, 'z) process \<Rightarrow> 'y process_event \<Rightarrow> ('y, 'z) process \<Rightarrow> bool" for X L s where
  step_request: "process_step X L s (l, v) (Request path r)
    (l, after (serve_http (mx_golib X) L s background path r) v)"
| step_input: "process_step X L s (l, v) (Input line)
    (l, after (stdio_run (mx_golib X) (sy_broker s) (mx_env X) background [Line line]) v)"
| step_poll: "process_step X L s (l, v) (Poll bo)
    (l, mx_put_opa X (hot_reload_tick (mx_golib X) bo (mx_get_opa X v)) v)"
| step_watched: "process_step X L s (l, v) (Watched e bo)
    (snd (watch (mx_golib X) [e] l), foldl (on_change X bo) v (fst (watch (mx_golib X) [e] l)))"
| step_outside: "nt_sent u = nt_sent v \<Longrightarrow> engine_view X u = engine_view X v \<Longrightarrow> process_step X L s (l, v) Outside (l, u)"

inductive process_run :: "('z net, 'y, 'm, 'k, 'x) main_lib \<Rightarrow> 'z net connect_lib \<Rightarrow> ('z net, 'y) system
    \<Rightarrow> ('y, 'z) process \<Rightarrow> 'y process_event list \<Rightarrow> ('y, 'z) process \<Rightarrow> bool" for X L s where
  prun_start: "process_run X L s p [] p"
| prun_next: "process_run X L s p es p' \<Longrightarrow> process_step X L s p' e p'' \<Longrightarrow> process_run X L s p (es @ [e]) p''"

text \<open>
  Where a call and its credentials come from: the body and the headers of a \<open>POST\<close> to \<open>/mcp\<close>, or
  a line of standard input and the environment.
\<close>

fun brings :: "environ \<Rightarrow> 'y process_event \<Rightarrow> 'w ctx \<Rightarrow> bytes \<Rightarrow> bool" where
  "brings env (Request path r) c data \<longleftrightarrow>
     path = [''mcp''] \<and> iq_method r = ''POST'' \<and> read_limited body_limit (iq_body r) = Inr data
       \<and> c = inject_credentials_from_http background r"
| "brings env (Input l) c data \<longleftrightarrow> data = l \<and> c = inject_credentials_from_env env background"
| "brings env _ c data \<longleftrightarrow> False"

text \<open>What the file watcher sees in the course of a run.\<close>

fun watched :: "'y process_event list \<Rightarrow> 'y watch_event list" where
  "watched [] = []"
| "watched (Watched e bo # es) = e # watched es"
| "watched (_ # es) = watched es"

subsection \<open>What is sent is only ever added to\<close>

context broker_laws
begin

lemma handle_extends: "sends (\<lambda>_. True) (handle G b c data)"
proof -
  have routed: "sends (\<lambda>_. True) (if rt_obo r \<noteq> [] then handle_obo b c call r else handle_standard b c call idn r)"
    for r call idn by (rule sends_weaken [OF call_sends]) simp
  have obo: "rt_obo r \<noteq> [] \<Longrightarrow> sends (\<lambda>_. True) (handle_obo b c call r)"
    and std: "rt_obo r = [] \<Longrightarrow> sends (\<lambda>_. True) (handle_standard b c call idn r)" for r call idn
    using routed [of r call idn] by simp_all
  show ?thesis
    unfolding handle_def handle_discovery_def handle_execution_def Let_def
    by (auto intro!: sends_intros sends_weaken [OF aggregate_sends] obo std
        quiet_sends [OF identity_quiet] quiet_sends [OF filter_quiet] quiet_sends [OF evaluate_quiet])
qed

end

lemma sends_new: "sends P m \<Longrightarrow> nt_sent (after m v) = nt_sent v @ new_sent m v"
  unfolding sends_def new_sent_def by (metis append_eq_conv_conj)

subsection \<open>One step\<close>

definition step_sent :: "('y, 'z) process \<Rightarrow> ('y, 'z) process \<Rightarrow> sent list" where
  "step_sent p p' = drop (length (nt_sent (snd p))) (nt_sent (snd p'))"

lemma stdio_one:
  "after (stdio_run G b env c [Line l]) v =
     (if trim_space l = [] then v else after (handle G b (inject_credentials_from_env env c) l) v)"
  by (simp add: stdio_run_def world_simps split: option.splits)

lemma on_change_keeps:
  "(\<And>a x. obs (mx_put_opa X a x) = obs x) \<Longrightarrow> obs (foldl (on_change X bo) v cs) = obs v"
  by (induction cs arbitrary: v) (simp_all add: on_change_def)

lemma step_extends:
  assumes step: "process_step X L s p e p'" and up: "result (start X) w = Up s" and rec: "recorded X check answer L"
    and put: "\<And>a x. nt_sent (mx_put_opa X a x) = nt_sent x"
  shows "nt_sent (snd p') = nt_sent (snd p) @ step_sent p p'"
    and "q \<in> set (step_sent p p') \<Longrightarrow> \<exists>c data. brings (mx_env X) e c data
      \<and> q \<in> set (new_sent (handle (mx_golib X) (sy_broker s) c data) (snd p))"
proof -
  let ?b = "sy_broker s" and ?G = "mx_golib X"
  obtain m where parts: "wired_parts X (ld_current (sy_loader s)) m (sy_minter s) ?b"
    using start_broker(1) [OF up] by blast
  have all: "sends (\<lambda>_. True) (handle G ?b c data)" for G c data
    using process_laws [OF parts rec] broker_laws.handle_extends by blast
  have "nt_sent (snd p') = nt_sent (snd p) @ step_sent p p' \<and> (q \<in> set (step_sent p p') \<longrightarrow> (\<exists>c data.
      brings (mx_env X) e c data \<and> q \<in> set (new_sent (handle ?G ?b c data) (snd p))))" for q
    using step
  proof cases
    case (step_request l v path r)
    show ?thesis
    proof (cases "path = [''mcp'']")
      case True
      let ?h = "handle_mcp ?G ?b background r"
      have "sends (\<lambda>_. True) ?h"
        using all by (auto simp: handle_mcp_def split: sum.splits intro!: sends_intros)
      note new = sends_new [OF this, of v]
      have u: "snd p = v" "snd p' = after ?h v" "step_sent p p' = new_sent ?h v"
        using step_request True by (simp_all add: serve_http_mcp step_sent_def new_sent_def)
      have "\<exists>c data. brings (mx_env X) e c data \<and> q \<in> set (new_sent (handle ?G ?b c data) v)"
        if "q \<in> set (new_sent ?h v)"
        using handle_mcp_sends [OF that] step_request True by simp
      then show ?thesis using new unfolding u(3) by (simp add: u(1,2))
    next
      case False
      have "keeps nt_sent (serve_http ?G L s background path r)"
        using rec wired_parts_keep [OF parts, of nt_sent L] wired_store_keeps [OF parts, of nt_sent] start_broker(2) [OF up]
        by (intro serve_http_other_keeps [OF False]) (simp_all add: recorded_def services_keep_def)
      then show ?thesis using step_request by (simp add: keeps_def step_sent_def)
    qed
  next
    case (step_input l v line)
    let ?h = "handle ?G ?b (inject_credentials_from_env (mx_env X) background) line"
    have "snd p' = snd p \<or> snd p' = after ?h (snd p) \<and> step_sent p p' = new_sent ?h (snd p)"
      using step_input by (simp add: stdio_one step_sent_def new_sent_def)
    then show ?thesis
    proof
      assume u: "snd p' = after ?h (snd p) \<and> step_sent p p' = new_sent ?h (snd p)"
      then have "nt_sent (snd p') = nt_sent (snd p) @ step_sent p p'" using sends_new [OF all] by metis
      then show ?thesis using u step_input by auto
    qed (simp add: step_sent_def)
  qed (simp_all add: put step_sent_def on_change_keeps [where obs = nt_sent])
  then show "nt_sent (snd p') = nt_sent (snd p) @ step_sent p p'"
    and "q \<in> set (step_sent p p') \<Longrightarrow> \<exists>c data. brings (mx_env X) e c data
      \<and> q \<in> set (new_sent (handle ?G ?b c data) (snd p))" by blast+
qed

subsection \<open>The policies in force\<close>

text \<open>
  What is relied on of the world: the engine's state is a part of it that is written only by the
  engine and is no part of the record of requests.
\<close>

definition engine_apart :: "('z net, 'y, 'm, 'k, 'x) main_lib \<Rightarrow> 'z net connect_lib \<Rightarrow> bool" where
  "engine_apart X L \<longleftrightarrow>
     (\<forall>a w. mx_get_opa X (mx_put_opa X a w) = a) \<and> (\<forall>a w. nt_sent (mx_put_opa X a w) = nt_sent w)
     \<and> services_keep (engine_view X) X L \<and> databases_keep (engine_view X) X \<and> client_keeps (engine_view X) (mx_client X)
     \<and> (\<forall>r. keeps (engine_view X) (mx_round_trip X r))"

definition engine_holds :: "('w, 'y, 'm, 'k, 'x) main_lib \<Rightarrow> policy_entry list \<Rightarrow> 'w \<Rightarrow> bool" where
  "engine_holds X ps v \<longleftrightarrow> engine_view X v = (True, ps)"

lemma wire_obo_keeps: "(\<And>arn. keeps obs (mx_secrets X arn)) \<Longrightarrow> keeps obs (wire_obo X cfg idsvc engine minter store)"
  unfolding wire_obo_def must_get_secret_def
  by (auto split: list.splits option.splits sum.splits intro!: keeps_intros)

lemma start_engine:
  assumes up: "result (start X) w = Up s" and apart: "engine_apart X L"
  shows "engine_holds X (cf_policies (ld_current (sy_loader s))) (after (start X) w)"
proof -
  obtain l w' where l: "result (wire_services X l) w' = Up s" "after (start X) w = after (wire_services X l) w'"
    using up by (auto simp: start_def Let_def world_simps split: prod.splits sum.splits option.splits if_splits)
  let ?path = "env_or_default (mx_env X) ''ABARIS_BUNDLE_PATH'' ''/app/policies''"
  obtain a u idsvc minter store where a: "opa_new (mx_golib X) (mx_bundle X) ?path (cf_policies (current l)) = Inr a"
      and after: "after (wire_services X l) w' = after (wire_obo X (current l) idsvc
        (opa_engine (mx_opa_lib X) (mx_golib X) (mx_get_opa X)) minter store) (mx_put_opa X a u)"
    using l(1) by (auto simp: wire_services_def world_simps Let_def split: sum.splits startup.splits prod.splits)
  have "keeps (engine_view X) (wire_obo X (current l) idsvc
      (opa_engine (mx_opa_lib X) (mx_golib X) (mx_get_opa X)) minter store)"
    using apart by (intro wire_obo_keeps) (simp add: engine_apart_def services_keep_def)
  then have "engine_view X (after (start X) w) = (opa_wf a, oa_policies a)"
    using apart unfolding l(2) after by (simp add: keeps_def engine_apart_def engine_view_def)
  then show ?thesis
    using opa_new_wf [OF a] wire_services_up(1) [OF l(1)] by (simp add: engine_holds_def current_def)
qed

text \<open>The watched loader has no callback, and never gets one.\<close>

lemma step_loader:
  assumes "process_step X L s p e p'" and "\<not> ld_has_callback (fst p)"
  shows "\<not> ld_has_callback (fst p')" and "fst p' = foldl (\<lambda>l e. snd (watch (mx_golib X) [e] l)) (fst p) (watched [e])"
    and "same_but_policies (ld_current (fst p')) (ld_current (fst p))"
proof -
  have "\<not> ld_has_callback (fst p') \<and> fst p' = foldl (\<lambda>l e. snd (watch (mx_golib X) [e] l)) (fst p) (watched [e])
      \<and> same_but_policies (ld_current (fst p')) (ld_current (fst p))"
    using assms(1)
  proof cases
    case (step_watched l v ev bo)
    then show ?thesis
      using assms(2) watch_no_callback [of l "mx_golib X" "[ev]"] watch_same [of "mx_golib X" "[ev]" l] by simp
  qed (use assms(2) in \<open>simp_all add: same_but_policies_def\<close>)
  then show "\<not> ld_has_callback (fst p')" "fst p' = foldl (\<lambda>l e. snd (watch (mx_golib X) [e] l)) (fst p) (watched [e])"
      "same_but_policies (ld_current (fst p')) (ld_current (fst p))" by blast+
qed

lemma step_engine:
  assumes step: "process_step X L s p e p'" and up: "result (start X) w = Up s" and apart: "engine_apart X L"
    and holds: "engine_holds X ps (snd p)" and quiet: "\<not> ld_has_callback (fst p)"
  shows "engine_holds X ps (snd p')"
proof -
  let ?get = "engine_view X"
  obtain m where parts: "wired_parts X (ld_current (sy_loader s)) m (sy_minter s) (sy_broker s)"
    using start_broker(1) [OF up] by blast
  have b: "keeps ?get (handle (mx_golib X) (sy_broker s) c data)" for c data
    using apart by (intro wired_handle_keeps [OF parts, of _ L]) (simp_all add: engine_apart_def)
  have L: "connect_lib_keeps ?get L" using apart by (simp add: engine_apart_def services_keep_def)
  show ?thesis using step
  proof cases
    case step_request
    have "keeps ?get (serve_http (mx_golib X) L s background path r)" for path r
      using apart wired_parts_keep(1) [OF parts, of ?get L] wired_store_keeps [OF parts, of ?get]
      by (intro serve_http_keeps b L start_broker(2) [OF up]) (simp_all add: engine_apart_def)
    then show ?thesis using step_request holds by (simp add: engine_holds_def keeps_def)
  next
    case step_input
    then show ?thesis using b holds by (simp add: stdio_one engine_holds_def keeps_def)
  next
    case step_poll
    then show ?thesis using apart holds
      by (auto simp: engine_apart_def engine_holds_def engine_view_def hot_reload_tick_def opa_load_snd opa_wf_def)
  qed (use holds quiet in \<open>simp_all add: engine_holds_def watch_silent\<close>)
qed

lemma same_policies_trans: "same_but_policies b c \<Longrightarrow> same_but_policies a b \<Longrightarrow> same_but_policies a c"
  by (simp add: same_but_policies_def)

lemma watched_append [simp]: "watched (es @ es') = watched es @ watched es'"
  by (induction es rule: watched.induct) simp_all

lemma run_loader:
  assumes "process_run X L s p es p'" and "\<not> ld_has_callback (fst p)"
  shows "\<not> ld_has_callback (fst p') \<and> fst p' = foldl (\<lambda>l e. snd (watch (mx_golib X) [e] l)) (fst p) (watched es)
    \<and> same_but_policies (ld_current (fst p')) (ld_current (fst p))"
  using assms
proof (induction rule: process_run.induct)
  case (prun_start p)
  then show ?case by (simp add: same_but_policies_def)
next
  case (prun_next p es p' e p'')
  then have IH: "\<not> ld_has_callback (fst p')" "fst p' = foldl (\<lambda>l e. snd (watch (mx_golib X) [e] l)) (fst p) (watched es)"
      "same_but_policies (ld_current (fst p')) (ld_current (fst p))" by blast+
  show ?case using step_loader [OF prun_next(2) IH(1)] IH(2) same_policies_trans [OF IH(3)] by simp
qed

lemma run_engine:
  assumes "process_run X L s p es p'" and "result (start X) w = Up s" and "engine_apart X L" and "engine_holds X ps (snd p)"
    and "\<not> ld_has_callback (fst p)"
  shows "engine_holds X ps (snd p')"
  using assms
proof (induction rule: process_run.induct)
  case (prun_next p es p' e p'')
  then have "\<not> ld_has_callback (fst p')" using run_loader by blast
  then show ?case using prun_next step_engine by blast
qed simp

subsection \<open>Every request of a run\<close>

definition sent_during :: "('z net, 'y, 'm, 'k, 'x) main_lib \<Rightarrow> 'z net connect_lib \<Rightarrow> ('z net, 'y) system
    \<Rightarrow> ('y, 'z) process \<Rightarrow> 'y process_event list \<Rightarrow> sent \<Rightarrow> bool" where
  "sent_during X L s p es q \<longleftrightarrow>
     (\<exists>before e later p1 p2. es = before @ e # later \<and> process_run X L s p before p1
        \<and> process_step X L s p1 e p2 \<and> q \<in> set (step_sent p1 p2))"

lemma sent_during_more: "sent_during X L s p es q \<Longrightarrow> sent_during X L s p (es @ [e]) q"
  unfolding sent_during_def by (metis append_Cons append_assoc)

lemma sent_during_last:
  "process_run X L s p es p' \<Longrightarrow> process_step X L s p' e p'' \<Longrightarrow> q \<in> set (step_sent p' p'') \<Longrightarrow>
     sent_during X L s p (es @ [e]) q"
  unfolding sent_during_def by blast

lemma run_sends:
  assumes "process_run X L s p es p'" and up: "result (start X) w = Up s" and rec: "recorded X check answer L"
    and apart: "engine_apart X L"
  shows "\<exists>qs. nt_sent (snd p') = nt_sent (snd p) @ qs \<and> list_all (sent_during X L s p es) qs"
  using assms(1)
proof (induction rule: process_run.induct)
  case (prun_next p es p' e p'')
  then obtain qs where qs: "nt_sent (snd p') = nt_sent (snd p) @ qs" "list_all (sent_during X L s p es) qs" by blast
  have "nt_sent (snd p'') = nt_sent (snd p) @ qs @ step_sent p' p''"
    using step_extends(1) [OF prun_next(2) up rec] apart qs(1) by (simp add: engine_apart_def)
  moreover have "list_all (sent_during X L s p (es @ [e])) (qs @ step_sent p' p'')"
    using qs(2) sent_during_last [OF prun_next(1,2)] by (auto simp: list_all_iff intro: sent_during_more)
  ultimately show ?case by blast
qed simp

lemma run_sent_during:
  assumes "process_run X L s p es p'" and "result (start X) w = Up s" and "recorded X check answer L"
    and "engine_apart X L" and "q \<in> set (step_sent p p')"
  shows "sent_during X L s p es q"
  using run_sends [OF assms(1-4)] assms(5) by (auto simp: step_sent_def list_all_iff)

text \<open>A process begins with the loader and the world that \<open>start\<close> leaves.\<close>

definition started :: "('z net, 'y, 'm, 'k, 'x) main_lib \<Rightarrow> ('z net, 'y) system \<Rightarrow> 'z net \<Rightarrow> ('y, 'z) process" where
  "started X s w = (sy_loader s, after (start X) w)"

subsection \<open>How the process ends\<close>

definition drain_timeout :: "(string \<Rightarrow> int option) \<Rightarrow> environ \<Rightarrow> int" where
  "drain_timeout parse env = env_duration parse env ''ABARIS_DRAIN_TIMEOUT'' (30 * 1000000000)"

text \<open>The error of \<open>run\<close> for the outcome of the shutdown, and the exit code that \<open>main\<close> makes of it.\<close>

definition run_error :: "'a startup \<Rightarrow> string option \<Rightarrow> goerr option" where
  "run_error r shutdown =
     (case r of
        Failed e \<Rightarrow> Some e
      | Up s \<Rightarrow> map_option (\<lambda>t. prefix_err ''shutdown: '' (plain_err t)) shutdown
      | Exited \<Rightarrow> None)"

definition exit_code :: "'a startup \<Rightarrow> string option \<Rightarrow> int" where
  "exit_code r shutdown =
     (case r of Exited \<Rightarrow> 1 | _ \<Rightarrow> if run_error r shutdown = None then 0 else 1)"

lemma exit_code_cases: "exit_code r shutdown = (if (\<exists>s. r = Up s) \<and> shutdown = None then 0 else 1)"
  by (cases r) (auto simp: exit_code_def run_error_def)

text \<open>The exit code is 0 only after a clean end: a process that came up, was asked to stop and was drained in time.\<close>

lemma exit_code_clean:
  assumes "shutdown_run T ce (serving n) es sd" and "sd_main sd = Returned e" and "exit_code r e = 0"
  shows "(\<exists>s. r = Up s) \<and> Asked \<in> set es \<and> PollIdle \<in> set es \<and> ce = None"
proof -
  have up: "(\<exists>s. r = Up s) \<and> e = None" using assms(3) by (simp add: exit_code_cases split: if_splits)
  then show ?thesis
    using return_event [OF assms(1) refl assms(2)] by (auto simp: return_cause_def)
qed

subsection \<open>Every request is authorised\<close>

lemma request_origin:
  assumes "result (start X) w = Up s" and "recorded X check answer L" and "engine_apart X L"
    and "process_run X L s (started X s w) es p" and "q \<in> set (step_sent (started X s w) p)"
  shows "\<exists>before e later l v c data call idn route. es = before @ e # later
    \<and> process_run X L s (started X s w) before (l, v) \<and> brings (mx_env X) e c data
    \<and> parse_tool_call (mx_golib X) data = Inr call \<and> result (bk_identity (sy_broker s) c) v = Inr idn
    \<and> route \<in> set (cf_routes (ld_current (sy_loader s))) \<and> process_request X s c route q
    \<and> (tc_method call = ''tools/list''
       \<or> tc_method call = ''tools/call'' \<and> tool_prefix (tool_name_from_call call) = rt_prefix route
         \<and> permits (mx_opa_lib X) (cf_policies (ld_current (sy_loader s))) (id_groups idn) (tool_name_from_call call))"
proof -
  let ?p = "started X s w" and ?cfg = "ld_current (sy_loader s)"
  obtain before e later p1 p2 where run: "es = before @ e # later" "process_run X L s ?p before p1"
      "process_step X L s p1 e p2" "q \<in> set (step_sent p1 p2)"
    using run_sent_during [OF assms(4,1-3,5)] unfolding sent_during_def by blast
  obtain l v where p1: "p1 = (l, v)" by (cases p1)
  obtain c data where c: "brings (mx_env X) e c data"
      and q: "q \<in> set (new_sent (handle (mx_golib X) (sy_broker s) c data) v)"
    using step_extends(2) [OF run(3) assms(1,2) _ run(4)] assms(3) by (auto simp: engine_apart_def p1)
  obtain m where parts: "wired_parts X ?cfg m (sy_minter s) (sy_broker s)"
    using start_broker(1) [OF assms(1)] by blast
  have b: "bk_routes (sy_broker s) = cf_routes ?cfg"
      "bk_policy (sy_broker s) = opa_engine (mx_opa_lib X) (mx_golib X) (mx_get_opa X)"
    using parts by (simp_all add: wired_parts_def)
  have "keeps (engine_view X) (bk_identity (sy_broker s) c)"
    using wired_parts_keep(1) [OF parts, of "engine_view X" L] assms(3) by (simp add: engine_apart_def)
  then have "engine_holds X (cf_policies ?cfg) (after (bk_identity (sy_broker s) c) v)"
    using run_engine [OF run(2) assms(1,3)] start_engine [OF assms(1,3)] start_up(2) [OF assms(1)]
    by (simp add: engine_holds_def keeps_def started_def p1)
  then have yes: "permits (mx_opa_lib X) (cf_policies ?cfg) (id_groups idn) (tool_name_from_call call)"
    if "says_yes (result (pe_evaluate (bk_policy (sy_broker s)) c idn call) (after (bk_identity (sy_broker s) c) v))" for idn call
    using that opa_says_yes by (fastforce simp: engine_holds_def engine_view_def b(2) opa_engine_def tool_name_dry)
  from process_handle_sends [OF parts assms(2) q] obtain call idn route where
      call: "parse_tool_call (mx_golib X) data = Inr call" "result (bk_identity (sy_broker s) c) v = Inr idn"
        "route \<in> set (cf_routes ?cfg)" "process_request X s c route q"
      and "tc_method call = ''tools/list'' \<or> tc_method call = ''tools/call''
         \<and> find_route (tool_prefix (tool_name_from_call call)) (bk_routes (sy_broker s)) = Some route
         \<and> says_yes (result (pe_evaluate (bk_policy (sy_broker s)) c idn call) (after (bk_identity (sy_broker s) c) v))"
    unfolding b(1) by blast
  then have "tc_method call = ''tools/list''
      \<or> tc_method call = ''tools/call'' \<and> tool_prefix (tool_name_from_call call) = rt_prefix route
        \<and> permits (mx_opa_lib X) (cf_policies ?cfg) (id_groups idn) (tool_name_from_call call)"
    using yes find_route_mem by fastforce
  then show ?thesis using run(1) run(2) [unfolded p1] c call by blast
qed

text \<open>
  C1: Every request that a running Abaris makes is authorised. Let a process come up and serve any
  sequence of HTTP requests and input lines, while the policy bundle is reloaded, policy files
  change and the outside world does as it likes. Then each request that it makes to a backend is
  made while it serves one of these events, which carries a JSON-RPC call and credentials that at
  that moment resolve to a caller. It is a \<open>POST\<close> to the backend of a route of the configuration
  loaded at the start, with the service credential that the environment holds for that route or, on
  a route with a provider, a token of that caller for that provider; and for a call, the route is
  that of the tool's prefix and some policy of that configuration for one of the caller's groups
  allows the tool while none denies it. Otherwise it is part of a discovery.
\<close>

theorem every_request_is_authorised:
  assumes "result (start X) w = Up s" and "recorded X check answer L" and "engine_apart X L"
    and "process_run X L s (started X s w) es p" and "q \<in> set (step_sent (started X s w) p)"
  shows "\<exists>before e later l v c data call idn route. es = before @ e # later
    \<and> process_run X L s (started X s w) before (l, v) \<and> brings (mx_env X) e c data
    \<and> parse_tool_call (mx_golib X) data = Inr call \<and> result (bk_identity (sy_broker s) c) v = Inr idn
    \<and> route \<in> set (cf_routes (ld_current (sy_loader s))) \<and> process_request X s c route q
    \<and> (tc_method call = ''tools/list''
       \<or> tc_method call = ''tools/call'' \<and> tool_prefix (tool_name_from_call call) = rt_prefix route
         \<and> permits (mx_opa_lib X) (cf_policies (ld_current (sy_loader s))) (id_groups idn) (tool_name_from_call call))"
  using request_origin [OF assms] .

text \<open>
  C30: Policies that change on disk never reach the policy engine. In every run of a process that
  has come up, over any interleaving of file events with requests, input lines and bundle reloads:
  the loader follows the policy files, but the engine still decides by the policies that were
  loaded at the start (the Rego modules are re-read from disk every thirty seconds; the policies
  they work on are not).
\<close>

theorem reloads_reach_nobody:
  assumes "result (start X) w = Up s" and "engine_apart X L"
    and "process_run X L s (started X s w) es (l, v)"
  shows "l = foldl (\<lambda>l e. snd (watch (mx_golib X) [e] l)) (sy_loader s) (watched es)
    \<and> oa_policies (mx_get_opa X v) = cf_policies (ld_current (sy_loader s)) \<and> opa_wf (mx_get_opa X v)"
proof -
  have quiet: "\<not> ld_has_callback (fst (started X s w))" using start_up(2) [OF assms(1)] by (simp add: started_def)
  have "engine_holds X (cf_policies (ld_current (sy_loader s))) (snd (started X s w))"
    using start_engine [OF assms(1,2)] by (simp add: started_def)
  then have "engine_holds X (cf_policies (ld_current (sy_loader s))) v"
    using run_engine [OF assms(3,1,2) _ quiet] by simp
  then show ?thesis using run_loader [OF assms(3) quiet] by (simp add: started_def engine_holds_def engine_view_def)
qed

end
