(* ===== verification/Interference.thy ===== *)
theory Interference
  imports ProcessRun
begin

section \<open>A process among its other goroutines\<close>

text \<open>
  The server runs each request in a goroutine of its own. Here is one of them among the others:
  before each call it makes to a service, a database, a cache, a backend or the clock, the
  others have done whatever \<open>f\<close> does to the part of the world that is not the record of this
  goroutine's requests. What \<open>f\<close> does may depend on that part, which can hold a schedule, so every
  interleaving at these calls is one \<open>f\<close>.
\<close>

subsection \<open>Interference\<close>

definition meddle :: "('z \<Rightarrow> 'z) \<Rightarrow> ('z net, unit) act" where
  "meddle f = State (\<lambda>w. ((), w\<lparr>nt_rest := f (nt_rest w)\<rparr>))"

definition beset :: "('z \<Rightarrow> 'z) \<Rightarrow> ('z net, 'a) act \<Rightarrow> ('z net, 'a) act" where
  "beset f m = State_Monad.bind (meddle f) (\<lambda>_. m)"

definition beset_cache :: "('z \<Rightarrow> 'z) \<Rightarrow> 'z net id_cache \<Rightarrow> 'z net id_cache" where
  "beset_cache f c = \<lparr>ch_get = (\<lambda>k. beset f (ch_get c k)), ch_set = (\<lambda>k i. beset f (ch_set c k i))\<rparr>"

definition beset_saml :: "('z \<Rightarrow> 'z) \<Rightarrow> ('z net, 'm, 'k, 'x) saml_lib \<Rightarrow> ('z net, 'm, 'k, 'x) saml_lib" where
  "beset_saml f S = S\<lparr>sl_http_get := (\<lambda>u. beset f (sl_http_get S u)), sl_provider := (\<lambda>sp x. beset f (sl_provider S sp x)),
     sl_cache := (\<lambda>ttl. beset_cache f (sl_cache S ttl))\<rparr>"

definition beset_minter :: "('z \<Rightarrow> 'z) \<Rightarrow> 'z net minter_lib \<Rightarrow> 'z net minter_lib" where
  "beset_minter f M = M\<lparr>ml_now := beset f (ml_now M), ml_uuid := beset f (ml_uuid M)\<rparr>"

definition beset_kms :: "('z \<Rightarrow> 'z) \<Rightarrow> 'z net kms_client \<Rightarrow> 'z net kms_client" where
  "beset_kms f K = K\<lparr>km_sign := (\<lambda>arn i. beset f (km_sign K arn i)), km_public_key := (\<lambda>arn. beset f (km_public_key K arn))\<rparr>"

definition beset_dynamo :: "('z \<Rightarrow> 'z) \<Rightarrow> 'z net dynamo \<Rightarrow> 'z net dynamo" where
  "beset_dynamo f D =
     \<lparr>dy_get = (\<lambda>t k. beset f (dy_get D t k)), dy_put = (\<lambda>t i. beset f (dy_put D t i)),
      dy_delete = (\<lambda>t k. beset f (dy_delete D t k))\<rparr>"

definition beset_badger :: "('z \<Rightarrow> 'z) \<Rightarrow> 'z net badger \<Rightarrow> 'z net badger" where
  "beset_badger f B =
     \<lparr>bg_get = (\<lambda>k. beset f (bg_get B k)), bg_set = (\<lambda>k x. beset f (bg_set B k x)), bg_delete = (\<lambda>k. beset f (bg_delete B k)),
      bg_close = beset f (bg_close B)\<rparr>"

definition beset_crypto :: "('z \<Rightarrow> 'z) \<Rightarrow> 'z net crypto \<Rightarrow> 'z net crypto" where
  "beset_crypto f C =
     C\<lparr>cr_kms := \<lparr>km_generate = (\<lambda>arn. beset f (km_generate (cr_kms C) arn)),
                 km_decrypt = (\<lambda>arn k. beset f (km_decrypt (cr_kms C) arn k))\<rparr>,
       cr_nonce := beset f (cr_nonce C)\<rparr>"

definition beset_connect :: "('z \<Rightarrow> 'z) \<Rightarrow> 'z net connect_lib \<Rightarrow> 'z net connect_lib" where
  "beset_connect f L = L\<lparr>cl_now := beset f (cl_now L), cl_exchange := (\<lambda>cfg u r c. beset f (cl_exchange L cfg u r c))\<rparr>"

definition beset_main :: "('z \<Rightarrow> 'z) \<Rightarrow> ('z net, 'y, 'm, 'k, 'x) main_lib \<Rightarrow> ('z net, 'y, 'm, 'k, 'x) main_lib" where
  "beset_main f X = X
     \<lparr>mx_secrets := (\<lambda>arn. beset f (mx_secrets X arn)), mx_verifier := (\<lambda>i u k t. beset f (mx_verifier X i u k t)),
      mx_cache := (\<lambda>ttl. beset_cache f (mx_cache X ttl)), mx_saml := beset_saml f (mx_saml X),
      mx_minter := beset_minter f (mx_minter X), mx_kms := beset_kms f (mx_kms X),
      mx_dynamo := (\<lambda>r. map_sum id (beset_dynamo f) (mx_dynamo X r)),
      mx_badger := (\<lambda>d. map_sum id (beset_badger f) (mx_badger X d)), mx_crypto := beset_crypto f (mx_crypto X),
      mx_client := (mx_client X)\<lparr>hc_do := (\<lambda>r. beset f (hc_do (mx_client X) r))\<rparr>,
      mx_round_trip := (\<lambda>r. beset f (mx_round_trip X r)), mx_token_source := (\<lambda>cfg t. beset f (mx_token_source X cfg t))\<rparr>"

lemmas beset_defs = beset_cache_def beset_saml_def beset_minter_def beset_kms_def beset_dynamo_def beset_badger_def
  beset_crypto_def beset_connect_def beset_main_def

lemma beset_main_simps [simp]:
  "mx_golib (beset_main f X) = mx_golib X" "mx_env (beset_main f X) = mx_env X" "mx_opa_lib (beset_main f X) = mx_opa_lib X"
  "mx_get_opa (beset_main f X) = mx_get_opa X" "mx_put_opa (beset_main f X) = mx_put_opa X"
  by (simp_all add: beset_main_def)

subsection \<open>What others leave alone\<close>

definition calm :: "('z net \<Rightarrow> 'v) \<Rightarrow> ('z \<Rightarrow> 'z) \<Rightarrow> bool" where
  "calm obs f \<longleftrightarrow> (\<forall>v. obs (v\<lparr>nt_rest := f (nt_rest v)\<rparr>) = obs v)"

lemma calm_sent: "calm nt_sent f"
  by (simp add: calm_def)

lemma beset_keeps: "calm obs f \<Longrightarrow> keeps obs m \<Longrightarrow> keeps obs (beset f m)"
  by (simp add: calm_def keeps_def beset_def meddle_def after_bind)

lemma beset_services_keep:
  assumes "calm obs f" and "services_keep obs X L"
  shows "services_keep obs (beset_main f X) (beset_connect f L)"
  using assms(2)
  by (simp add: beset_keeps [OF assms(1)] services_keep_def cache_keeps_def connect_lib_keeps_def beset_defs)

lemma map_sum_Inr: "map_sum id g x = Inr z \<longleftrightarrow> (\<exists>y. x = Inr y \<and> z = g y)"
  by (cases x) auto

lemma beset_databases_keep:
  assumes "calm obs f" and "databases_keep obs X"
  shows "databases_keep obs (beset_main f X)"
proof -
  have "dynamo_keeps obs (beset_dynamo f D)" if "dynamo_keeps obs D" for D
    using that by (simp add: beset_keeps [OF assms(1)] dynamo_keeps_def beset_dynamo_def)
  moreover have "badger_keeps obs (beset_badger f B)" if "badger_keeps obs B" for B
    using that by (simp add: beset_keeps [OF assms(1)] badger_keeps_def beset_badger_def)
  moreover have "crypto_keeps obs (beset_crypto f C)" if "crypto_keeps obs C" for C
    using that by (simp add: beset_keeps [OF assms(1)] crypto_keeps_def beset_crypto_def)
  ultimately show ?thesis
    using assms(2) by (auto simp: databases_keep_def beset_main_def map_sum_Inr)
qed

text \<open>The network as the goroutine meets it.\<close>

definition later_answer :: "('z \<Rightarrow> 'z) \<Rightarrow> 'z network \<Rightarrow> 'z network" where
  "later_answer f answer sent s z = answer sent s (f z)"

lemma beset_client:
  "(trace_client check answer)\<lparr>hc_do := (\<lambda>r. beset f (hc_do (trace_client check answer) r))\<rparr>
     = trace_client check (later_answer f answer)"
  by (simp add: trace_client_def beset_def meddle_def later_answer_def State_Monad.bind_def fun_eq_iff)

lemma beset_round_trip: "(\<lambda>r. beset f (trace_round_trip answer r)) = trace_round_trip (later_answer f answer)"
  by (simp add: trace_round_trip_def beset_def meddle_def later_answer_def State_Monad.bind_def fun_eq_iff)

lemma beset_recorded:
  assumes "recorded X check answer L"
  shows "recorded (beset_main f X) check (later_answer f answer) (beset_connect f L)"
proof -
  have "mx_client (beset_main f X) = trace_client check (later_answer f answer)"
      "mx_round_trip (beset_main f X) = trace_round_trip (later_answer f answer)"
    using assms beset_client [where check = check and answer = answer and f = f] beset_round_trip [of f answer] by (simp_all add: recorded_def beset_main_def)
  then show ?thesis
    using assms beset_services_keep [OF calm_sent, of X L f] beset_databases_keep [OF calm_sent, of X f] by (simp add: recorded_def)
qed

lemma beset_apart:
  assumes "engine_apart X L" and calm: "calm (engine_view X) f"
  shows "engine_apart (beset_main f X) (beset_connect f L)"
proof -
  have view: "engine_view (beset_main f X) = engine_view X" by (simp add: engine_view_def fun_eq_iff)
  have "client_keeps (engine_view X) (mx_client (beset_main f X))" "keeps (engine_view X) (mx_round_trip (beset_main f X) r)" for r
    using assms by (simp_all add: engine_apart_def client_keeps_def beset_main_def beset_keeps)
  then show ?thesis
    using assms(1) beset_services_keep [OF calm, of X L] beset_databases_keep [OF calm, of X] unfolding engine_apart_def view by simp
qed

text \<open>A goroutine by itself is one among idle others.\<close>

lemma beset_id: "beset id m = m"
  by (cases m) (simp add: beset_def meddle_def State_Monad.bind_def)

lemma beset_main_id: "beset_main id X = X"
proof -
  have cache: "beset_cache id c = c" for c :: "'z net id_cache" by (simp add: beset_cache_def beset_id)
  have saml: "beset_saml id S = S" for S :: "('z net, 'm, 'k, 'x) saml_lib" by (simp add: beset_saml_def beset_id cache)
  have minter: "beset_minter id M = M" for M :: "'z net minter_lib" by (simp add: beset_minter_def beset_id)
  have kms: "beset_kms id K = K" for K :: "'z net kms_client" by (simp add: beset_kms_def beset_id)
  have crypto: "beset_crypto id C = C" for C :: "'z net crypto" by (simp add: beset_crypto_def beset_id)
  have dynamo: "beset_dynamo id = (id :: 'z net dynamo \<Rightarrow> _)" by (rule ext) (simp add: beset_dynamo_def beset_id)
  have badger: "beset_badger id = (id :: 'z net badger \<Rightarrow> _)" by (rule ext) (simp add: beset_badger_def beset_id)
  show ?thesis
    by (simp add: beset_main_def beset_id cache saml minter kms crypto dynamo badger sum.map_id)
qed

lemma beset_connect_id: "beset_connect id L = L"
  by (simp add: beset_connect_def beset_id)

subsection \<open>Every request is authorised all the same\<close>

text \<open>
  No concurrency makes a request unauthorised: the process among its other goroutines is a process
  whose services behave accordingly, so what is true of every process is true of it. Let the process be up and serve events, while
  between any two calls that it makes the other goroutines do what they like, except that they leave the
  policies in force: requests of other callers may fill and empty the identity cache, change the
  stored tokens and send what they send, and the bundle may be reloaded. Still each request that is
  made while an event is served is for a call that the event brings with credentials that resolve
  to a caller; it goes to a configured route's backend, with the route's service credential or a
  token of that caller, and for a call the policies of the configuration permit the tool to that caller.
\<close>

lemma requests_are_authorised_among_goroutines:
  assumes "result (start (beset_main f X)) w = Up s" and "recorded X check answer L" and "engine_apart X L"
    and "calm (engine_view X) f"
    and "process_run (beset_main f X) (beset_connect f L) s (started (beset_main f X) s w) es p"
    and "q \<in> set (step_sent (started (beset_main f X) s w) p)"
  shows "\<exists>before e later l v c data call idn route. es = before @ e # later
    \<and> process_run (beset_main f X) (beset_connect f L) s (started (beset_main f X) s w) before (l, v)
    \<and> brings (mx_env X) e c data \<and> parse_tool_call (mx_golib X) data = Inr call
    \<and> result (bk_identity (sy_broker s) c) v = Inr idn
    \<and> route \<in> set (cf_routes (ld_current (sy_loader s))) \<and> process_request (beset_main f X) s c route q
    \<and> (tc_method call = ''tools/list''
       \<or> tc_method call = ''tools/call'' \<and> tool_prefix (tool_name_from_call call) = rt_prefix route
         \<and> permits (mx_opa_lib X) (cf_policies (ld_current (sy_loader s))) (id_groups idn) (tool_name_from_call call))"
  using request_origin [OF assms(1) beset_recorded [OF assms(2)] beset_apart [OF assms(3,4)] assms(5,6)] by simp

end
