(* ===== verification/CallLog.thy ===== *)
theory CallLog
  imports HttpSurface
begin

section \<open>The log of a message (\<^verbatim>\<open>internal/proxy/broker.go\<close>, \<^verbatim>\<open>infra/logger.go\<close>)\<close>

text \<open>
  The handlers of \<open>Broker\<close> once more, with every record they log, in order, and with the records
  of the identity service and the policy engine that they call, which write to the same logger.
  Logging changes nothing else: without their records they are the handlers of \<open>Broker\<close>. A record
  is its level, its message and its fields; an error is logged by its text. The records of what is
  called after the decision (transports, token stores, the on-behalf-of pipeline) are left out.
\<close>

subsection \<open>Records and levels\<close>

primrec slog_level :: "log_level \<Rightarrow> int" where
  "slog_level LevelDebug = -4"
| "slog_level LevelInfo = 0"
| "slog_level LevelWarn = 4"
| "slog_level LevelError = 8"

instantiation log_level :: linorder
begin

definition less_eq_log_level :: "log_level \<Rightarrow> log_level \<Rightarrow> bool" where
  "less_eq_log_level a b \<longleftrightarrow> slog_level a \<le> slog_level b"

definition less_log_level :: "log_level \<Rightarrow> log_level \<Rightarrow> bool" where
  "less_log_level a b \<longleftrightarrow> slog_level a < slog_level b"

instance
proof
  show "a = b" if "a \<le> b" "b \<le> a" for a b :: log_level
    using that by (cases a; cases b) (simp_all add: less_eq_log_level_def)
qed (auto simp: less_eq_log_level_def less_log_level_def)

end

datatype log_value = LogText string | LogTexts "string list" | LogInt int | LogBool bool

record log_entry =
  le_level :: log_level
  le_message :: string
  le_fields :: "(string \<times> log_value) list"

definition log_record :: "log_level \<Rightarrow> string \<Rightarrow> (string \<times> log_value) list \<Rightarrow> log_entry" where
  "log_record level msg fs = \<lparr>le_level = level, le_message = msg, le_fields = fs\<rparr>"

text \<open>The logger of the process writes the records that reach the level of its environment.\<close>

definition emitted :: "environ \<Rightarrow> log_entry list \<Rightarrow> log_entry list" where
  "emitted env es = filter (\<lambda>e. level_from_env env \<le> le_level e) es"

text \<open>
  What logging a call draws from outside: how \<open>fmt\<close> prints an id, the UUID for a call without one,
  the formatted time at which the call is received, and the text of the error when no issuer can be
  read from an assertion or a token.
\<close>

record log_source =
  ls_show :: "goval \<Rightarrow> string"
  ls_uuid :: string
  ls_time :: string
  ls_issuer_error :: "string \<Rightarrow> string"

definition request_id_from_call :: "log_source \<Rightarrow> tool_call \<Rightarrow> string" where
  "request_id_from_call A call = (if tc_id call \<noteq> GNil then ls_show A (tc_id call) else ls_uuid A)"

definition log_tool_call :: "log_source \<Rightarrow> string \<Rightarrow> string \<Rightarrow> string \<Rightarrow> string \<Rightarrow> log_entry" where
  "log_tool_call A rid user tool transport =
     log_record LevelInfo ''tool_call_received''
       [(''request_id'', LogText rid), (''caller_user_id'', LogText user), (''tool_name'', LogText tool),
        (''transport_type'', LogText transport), (''timestamp'', LogText (ls_time A))]"

definition log_policy_decision :: "string \<Rightarrow> string \<Rightarrow> string \<Rightarrow> decision \<Rightarrow> log_entry" where
  "log_policy_decision rid user tool d =
     log_record LevelInfo ''policy_decision''
       [(''request_id'', LogText rid), (''caller_user_id'', LogText user), (''tool_name'', LogText tool),
        (''decision_outcome'', LogText (if d_permitted d then ''permit'' else ''deny'')),
        (''matched_rule_id'', LogText (d_rule d))]"

definition identity_error_log :: "string \<Rightarrow> goerr \<Rightarrow> log_entry" where
  "identity_error_log rid e =
     (if err_is e = ErrUnauthenticated then
        log_record LevelInfo ''broker: unauthenticated request''
          [(''request_id'', LogText rid), (''error_type'', LogText ''unauthenticated'')]
      else if err_is e = ErrServiceUnavailable then
        log_record LevelError ''broker: identity provider unavailable''
          [(''request_id'', LogText rid), (''error_type'', LogText ''service_unavailable'')]
      else
        log_record LevelError ''broker: identity resolution failed''
          [(''request_id'', LogText rid), (''error_type'', LogText ''unauthorized'')])"

subsection \<open>Actions that log\<close>

type_synonym ('w, 'a) logged = "('w, log_entry list \<times> 'a) act"

definition say :: "log_entry list \<Rightarrow> 'a \<Rightarrow> ('w, 'a) logged" where
  "say es x = ret (es, x)"

definition silent :: "('w, 'a) act \<Rightarrow> ('w, 'a) logged" where
  "silent m = State_Monad.bind m (\<lambda>x. ret ([], x))"

definition also_logged :: "('w, 'a) logged \<Rightarrow> ('a \<Rightarrow> ('w, 'b) logged) \<Rightarrow> ('w, 'b) logged" where
  "also_logged m f = State_Monad.bind m (\<lambda>(es, x). State_Monad.bind (f x) (\<lambda>(fs, y). ret (es @ fs, y)))"

definition unlogged :: "('w, 'a) logged \<Rightarrow> ('w, 'a) act" where
  "unlogged m = State_Monad.bind m (\<lambda>(es, x). ret x)"

lemma act_eqI: "(\<And>w. result m w = result n w) \<Longrightarrow> (\<And>w. after m w = after n w) \<Longrightarrow> m = n"
  by (rule state.expand) (simp add: result_def after_def prod_eq_iff fun_eq_iff)

lemma unlogged_say [simp]: "unlogged (say es x) = ret x"
  by (simp add: unlogged_def say_def)

lemma unlogged_silent [simp]: "unlogged (silent m) = m"
  by (rule act_eqI) (simp_all add: unlogged_def silent_def world_simps)

lemma unlogged_also [simp]: "unlogged (also_logged m f) = State_Monad.bind (unlogged m) (\<lambda>x. unlogged (f x))"
  by (rule act_eqI) (simp_all add: unlogged_def also_logged_def world_simps case_prod_beta)

lemma unlogged_bind [simp]: "unlogged (State_Monad.bind m f) = State_Monad.bind m (\<lambda>x. unlogged (f x))"
  by (rule act_eqI) (simp_all add: unlogged_def world_simps)

lemma unlogged_sum [simp]: "unlogged (case x of Inl e \<Rightarrow> f e | Inr y \<Rightarrow> g y) = (case x of Inl e \<Rightarrow> unlogged (f e) | Inr y \<Rightarrow> unlogged (g y))"
  by (simp split: sum.split)

lemma unlogged_option [simp]: "unlogged (case x of None \<Rightarrow> f | Some y \<Rightarrow> g y) = (case x of None \<Rightarrow> unlogged f | Some y \<Rightarrow> unlogged (g y))"
  by (simp split: option.split)

lemma unlogged_if [simp]: "unlogged (if p then m else n) = (if p then unlogged m else unlogged n)"
  by simp

text \<open>Records, then the rest.\<close>

definition logging :: "log_entry list \<Rightarrow> ('w, 'a) logged \<Rightarrow> ('w, 'a) logged" where
  "logging es m = also_logged (say es ()) (\<lambda>_. m)"

lemma unlogged_logging [simp]: "unlogged (logging es m) = unlogged m"
  by (rule act_eqI) (simp_all add: logging_def world_simps)

lemma result_logging: "fst (result (logging es m) w) = es @ fst (result m w)" "after (logging es m) w = after m w"
  by (simp_all add: logging_def also_logged_def say_def world_simps case_prod_beta)

lemma result_say: "fst (result (say es x) w) = es"
  by (simp add: say_def)

lemma after_unlogged: "after (unlogged m) w = after m w"
  by (simp add: unlogged_def world_simps case_prod_beta)

lemma result_unlogged: "result (unlogged m) w = snd (result m w)"
  by (simp add: unlogged_def world_simps case_prod_beta)

lemma result_also: "fst (result (also_logged m f) w) =
    fst (result m w) @ fst (result (f (snd (result m w))) (after m w))"
  by (simp add: also_logged_def world_simps case_prod_beta)

subsection \<open>The identity service and its adapters\<close>

definition resolved_log :: "string \<Rightarrow> string \<Rightarrow> identity \<Rightarrow> log_entry" where
  "resolved_log message name i =
     log_record LevelDebug message
       [(''provider'', LogText name), (''user_id'', LogText (id_user i)), (''groups'', LogTexts (id_groups i))]"

definition logged_cached :: "'w id_cache \<Rightarrow> ('w, goerr + identity) act \<Rightarrow> (identity \<Rightarrow> log_entry) \<Rightarrow> string
    \<Rightarrow> ('w, goerr + identity) logged" where
  "logged_cached cache check entry k =
     State_Monad.bind (ch_get cache k) (\<lambda>hit. case hit of
        Some i \<Rightarrow> say [] (Inr i)
      | None \<Rightarrow> State_Monad.bind check (\<lambda>r. case r of
          Inl e \<Rightarrow> say [] (Inl e)
        | Inr i \<Rightarrow> State_Monad.bind (ch_set cache k i) (\<lambda>_. say [entry i] (Inr i))))"

definition logged_oidc :: "'w oidc \<Rightarrow> 'w ctx \<Rightarrow> ('w, goerr + identity) logged" where
  "logged_oidc a c =
     (case bearer_token_from_context c of
        None \<Rightarrow> say [] (Inl (bare_err ErrUnauthenticated))
      | Some token \<Rightarrow>
          if trim_space token = [] then say [] (Inl (bare_err ErrUnauthenticated))
          else logged_cached (od_cache a) (oidc_check a token) (resolved_log ''oidc: resolved identity'' (od_name a)) token)"

definition logged_saml :: "'w saml \<Rightarrow> 'w ctx \<Rightarrow> ('w, goerr + identity) logged" where
  "logged_saml a c =
     (case saml_assertion_from_context c of
        None \<Rightarrow> say [] (Inl (bare_err ErrUnauthenticated))
      | Some xml \<Rightarrow>
          if trim_space xml = [] then say [] (Inl (bare_err ErrUnauthenticated))
          else logged_cached (sm_cache a) (saml_check a xml) (resolved_log ''saml: resolved identity'' (sm_name a)) xml)"

text \<open>The adapters themselves, where \<open>multi\<close> has their \<open>Resolve\<close>.\<close>

record 'w adapters =
  la_oidc :: "(string \<times> 'w oidc) list"
  la_saml :: "(string \<times> 'w saml) list"

definition multi_of :: "'w adapters \<Rightarrow> 'w multi" where
  "multi_of M = \<lparr>mu_oidc = map (map_prod id oidc_resolve) (la_oidc M), mu_saml = map (map_prod id saml_resolve) (la_saml M)\<rparr>"

definition logged_multi_assertion :: "log_source \<Rightarrow> golib \<Rightarrow> 'w adapters \<Rightarrow> 'w ctx \<Rightarrow> string \<Rightarrow> ('w, goerr + identity) logged" where
  "logged_multi_assertion A G M c xml =
     (case saml_issuer_from_xml xml of
        None \<Rightarrow> say [log_record LevelDebug ''auth: could not extract SAML issuer'' [(''error'', LogText (ls_issuer_error A xml))]]
                    (Inl (wrap_err ErrUnauthorized ''could not extract SAML issuer''))
      | Some issuer \<Rightarrow> (case map_of (la_saml M) issuer of
          None \<Rightarrow> say [log_record LevelWarn ''auth: no SAML adapter registered for issuer'' [(''issuer'', LogText issuer)]]
                      (Inl (wrap_err ErrUnauthorized
                        (''no SAML provider registered for issuer '' @ go_quote (gl_printable G) issuer)))
        | Some a \<Rightarrow> logged_saml a c))"

definition logged_multi_token :: "log_source \<Rightarrow> golib \<Rightarrow> 'w adapters \<Rightarrow> 'w ctx \<Rightarrow> string \<Rightarrow> ('w, goerr + identity) logged" where
  "logged_multi_token A G M c token =
     (case jwt_issuer_from_token token of
        Some issuer \<Rightarrow> (case map_of (la_oidc M) issuer of
          None \<Rightarrow> say [log_record LevelWarn ''auth: no OIDC adapter registered for issuer'' [(''issuer'', LogText issuer)]]
                      (Inl (wrap_err ErrUnauthorized
                        (''no OIDC provider registered for issuer '' @ go_quote (gl_printable G) issuer)))
        | Some a \<Rightarrow> logged_oidc a c)
      | None \<Rightarrow>
          logging [log_record LevelDebug ''auth: could not extract JWT issuer, trying single-provider shortcut''
                     [(''error'', LogText (ls_issuer_error A token))]]
            (case la_oidc M of
               [(k, a)] \<Rightarrow> logged_oidc a c
             | _ \<Rightarrow> say [] (Inl (wrap_err ErrUnauthorized ''could not determine OIDC provider from token''))))"

definition logged_multi :: "log_source \<Rightarrow> golib \<Rightarrow> 'w adapters \<Rightarrow> 'w ctx \<Rightarrow> ('w, goerr + identity) logged" where
  "logged_multi A G M c =
     (let xml = (case saml_assertion_from_context c of Some x \<Rightarrow> x | None \<Rightarrow> []);
          token = (case bearer_token_from_context c of Some t \<Rightarrow> t | None \<Rightarrow> []) in
      if trim_space xml \<noteq> [] then logged_multi_assertion A G M c xml
      else if trim_space token \<noteq> [] then logged_multi_token A G M c token
      else say [] (Inl (bare_err ErrUnauthenticated)))"

subsection \<open>The policy engine\<close>

text \<open>The two lists of patterns come out of Go maps, so their order in the record is one of several.\<close>

definition logged_evaluate :: "opa_lib \<Rightarrow> opa \<Rightarrow> identity \<Rightarrow> tool_call \<Rightarrow> log_entry list \<times> (goerr + decision)" where
  "logged_evaluate L a idn call =
     (let i = evaluation_input (oa_policies a) idn call; tool = (''tool'', LogText (oi_tool i)); r = opa_evaluate L a idn call in
      (log_record LevelDebug ''policy: evaluating''
         [tool, (''operation'', LogText (oi_operation i)), (''groups'', LogTexts (id_groups idn)),
          (''allowed_patterns'', LogTexts (oi_allowed i)), (''denied_patterns'', LogTexts (oi_denied i))]
       # (case r of
            Inl e \<Rightarrow> []
          | Inr d \<Rightarrow> [log_record LevelDebug ''policy: decision''
              [tool, (''permitted'', LogBool (d_permitted d)), (''matched_rule'', LogText (d_rule d)),
               (''denial_reason'', LogText (d_reason d))]]),
       r))"

fun logged_filter_loop :: "(tool_call \<Rightarrow> log_entry list \<times> (goerr + decision)) \<Rightarrow> golib \<Rightarrow> string list
    \<Rightarrow> log_entry list \<times> (goerr + string list)" where
  "logged_filter_loop ev G [] = ([], Inr [])"
| "logged_filter_loop ev G (n # ns) =
     (case ev (filter_call G n) of
        (es, Inl e) \<Rightarrow> (es, Inl e)
      | (es, Inr d) \<Rightarrow>
          (let (fs, r) = logged_filter_loop ev G ns in
           (es @ (if d_permitted d then []
                  else [log_record LevelDebug ''policy: tool denied'' [(''tool'', LogText n), (''reason'', LogText (d_reason d))]]) @ fs,
            case r of Inl e \<Rightarrow> Inl e | Inr ts \<Rightarrow> Inr (if d_permitted d then n # ts else ts))))"

definition logged_filter :: "opa_lib \<Rightarrow> golib \<Rightarrow> opa \<Rightarrow> identity \<Rightarrow> string list \<Rightarrow> log_entry list \<times> (goerr + string list)" where
  "logged_filter L G a idn names =
     (let user = (''user_id'', LogText (id_user idn)); (es, r) = logged_filter_loop (logged_evaluate L a idn) G names in
      (log_record LevelDebug ''policy: FilterTools called''
         [user, (''groups'', LogTexts (id_groups idn)), (''tool_count'', LogInt (int (length names)))]
       # es
       @ (case r of
            Inl e \<Rightarrow> []
          | Inr ts \<Rightarrow> [log_record LevelDebug ''policy: FilterTools complete''
              [user, (''permitted_count'', LogInt (int (length ts)))]]),
       r))"

text \<open>What the broker calls, with its records; it fits the broker when without them it is what the broker calls.\<close>

record 'w voices =
  vo_identity :: "'w ctx \<Rightarrow> ('w, goerr + identity) logged"
  vo_evaluate :: "'w ctx \<Rightarrow> identity \<Rightarrow> tool_call \<Rightarrow> ('w, goerr + decision) logged"
  vo_filter :: "'w ctx \<Rightarrow> identity \<Rightarrow> string list \<Rightarrow> ('w, goerr + string list) logged"

definition fits :: "'w voices \<Rightarrow> 'w broker \<Rightarrow> bool" where
  "fits V b \<longleftrightarrow>
     (\<forall>c. unlogged (vo_identity V c) = bk_identity b c)
     \<and> (\<forall>c idn call. unlogged (vo_evaluate V c idn call) = pe_evaluate (bk_policy b) c idn call)
     \<and> (\<forall>c idn ns. unlogged (vo_filter V c idn ns) = pe_filter (bk_policy b) c idn ns)"

definition engine_voice :: "opa_lib \<Rightarrow> golib \<Rightarrow> ('w \<Rightarrow> opa) \<Rightarrow> ('w ctx \<Rightarrow> ('w, goerr + identity) logged) \<Rightarrow> 'w voices" where
  "engine_voice L G get ident =
     \<lparr>vo_identity = ident,
      vo_evaluate = (\<lambda>c idn call. State (\<lambda>w. (logged_evaluate L (get w) idn call, w))),
      vo_filter = (\<lambda>c idn names. State (\<lambda>w. (logged_filter L G (get w) idn names, w)))\<rparr>"

subsection \<open>Discovery\<close>

definition logged_credential :: "'w broker \<Rightarrow> 'w ctx \<Rightarrow> identity option \<Rightarrow> route_entry \<Rightarrow> ('w, string option) logged" where
  "logged_credential b c idn r =
     (let standard = State_Monad.bind (bk_creds b c (rt_prefix r)) (\<lambda>x. case x of
            Inl e \<Rightarrow> say [log_record LevelWarn ''aggregateTools: skipping backend, no service credential''
                       [(''prefix'', LogText (rt_prefix r)), (''error'', LogText (err_text e))]] None
          | Inr cred \<Rightarrow> say [log_record LevelDebug ''broker: aggregateTools: using service credential''
                       [(''prefix'', LogText (rt_prefix r))]] (Some cred));
          route = [(''prefix'', LogText (rt_prefix r)), (''provider'', LogText (rt_obo r))] in
      if rt_obo r = [] then standard
      else (case (bk_store b, idn) of
              (Some st, Some i) \<Rightarrow> State_Monad.bind (ts_get st (id_user i) (rt_obo r)) (\<lambda>x. case x of
                  Inl e \<Rightarrow> say [log_record LevelWarn ''aggregateTools: skipping OBO backend, no UAT'' route] None
                | Inr pair \<Rightarrow> say [log_record LevelDebug ''broker: aggregateTools: using OBO UAT'' route] (Some (tp_access pair)))
            | _ \<Rightarrow> standard))"

definition logged_backend :: "golib \<Rightarrow> 'w broker \<Rightarrow> 'w ctx \<Rightarrow> identity option \<Rightarrow> route_entry \<Rightarrow> ('w, string list) logged" where
  "logged_backend G b c idn r =
     also_logged (logged_credential b c idn r) (\<lambda>cred. case cred of
          None \<Rightarrow> say [] []
        | Some t \<Rightarrow>
            State_Monad.bind
              (transport_for b r (with_service_credential c t) (rt_backend r) list_call [])
              (\<lambda>x. let backend = (''backend'', LogText (rt_backend r)) in case x of
                   Inl e \<Rightarrow> say [log_record LevelWarn ''aggregateTools: skipping backend, forward failed''
                              [backend, (''error'', LogText (err_text e))]] []
                 | Inr body \<Rightarrow>
                     (case parse_tool_list_response G body of
                        Inl e \<Rightarrow> say [log_record LevelWarn ''aggregateTools: skipping backend, parse failed''
                                   [backend, (''error'', LogText (err_text e))]] []
                      | Inr ts \<Rightarrow> say
                          ((if ts = [] then [log_record LevelWarn ''aggregateTools: backend returned zero tools''
                              [backend, (''response_preview'', LogText (preview_bytes body 512))]] else [])
                           @ [log_record LevelDebug ''broker: aggregateTools: backend returned tools''
                              [backend, (''count'', LogInt (int (length ts)))]]) ts)))"

fun logged_loop :: "golib \<Rightarrow> 'w broker \<Rightarrow> 'w ctx \<Rightarrow> identity option \<Rightarrow> route_entry list
    \<Rightarrow> string set \<times> string list \<Rightarrow> ('w, string list) logged" where
  "logged_loop G b c idn [] acc = say [] (snd acc)"
| "logged_loop G b c idn (r # rs) acc =
     also_logged (logged_backend G b c idn r) (\<lambda>ts. logged_loop G b c idn rs (add_tools (rt_prefix r) ts acc))"

definition logged_aggregate :: "'w voices \<Rightarrow> golib \<Rightarrow> 'w broker \<Rightarrow> 'w ctx \<Rightarrow> ('w, goerr + string list) logged" where
  "logged_aggregate V G b c =
     also_logged
       (case bk_store b of
          None \<Rightarrow> say [] None
        | Some st \<Rightarrow> also_logged (vo_identity V c)
            (\<lambda>x. say [] (case x of Inl e \<Rightarrow> None | Inr i \<Rightarrow> Some i)))
       (\<lambda>idn. logging [log_record LevelDebug ''broker: aggregateTools: starting''
                [(''route_count'', LogInt (int (length (bk_routes b))))]]
          (also_logged (logged_loop G b c idn (bk_routes b) ({}, [])) (\<lambda>ts. say [] (Inr ts))))"

definition logged_discovery :: "'w voices \<Rightarrow> log_source \<Rightarrow> string \<Rightarrow> golib \<Rightarrow> 'w broker \<Rightarrow> 'w ctx \<Rightarrow> tool_call \<Rightarrow> ('w, bytes) logged" where
  "logged_discovery V A transport G b c call =
     (let rid = request_id_from_call A call; req = (''request_id'', LogText rid) in
      also_logged (vo_identity V c) (\<lambda>r. case r of
        Inl e \<Rightarrow> say [identity_error_log rid e] (identity_error_response (tc_id call) e)
      | Inr idn \<Rightarrow> (let user = (''user_id'', LogText (id_user idn)) in
      logging [log_tool_call A rid (id_user idn) ''tools/list'' transport,
               log_record LevelDebug ''broker: discovery: identity resolved'' [req, user, (''groups'', LogTexts (id_groups idn))]]
     (also_logged (logged_aggregate V G b c) (\<lambda>r. case r of
        Inl e \<Rightarrow> say [log_record LevelError ''broker: discovery: aggregate tools failed'' [req, (''error'', LogText (err_text e))]]
                   (error_response (tc_id call) code_service_unavailable
                     ''service unavailable: could not aggregate tool lists from backends'')
      | Inr all \<Rightarrow> also_logged (vo_filter V c idn all) (\<lambda>r. case r of
        Inl e \<Rightarrow> say [log_record LevelError ''broker: discovery: filter tools failed'' [req, user, (''error'', LogText (err_text e))]]
                   (error_response (tc_id call) code_service_unavailable ''service unavailable: policy engine error'')
      | Inr permitted \<Rightarrow>
          say [log_record LevelDebug ''broker: discovery: filter complete''
                [req, user, (''total_tools'', LogInt (int (length all))), (''permitted_tools'', LogInt (int (length permitted)))]]
              (success_response (tc_id call) (GMap [(''tools'', GArr (map GStr permitted))]))))))))"

subsection \<open>Execution\<close>

definition logged_standard :: "string \<Rightarrow> 'w broker \<Rightarrow> 'w ctx \<Rightarrow> tool_call \<Rightarrow> identity \<Rightarrow> route_entry \<Rightarrow> ('w, bytes) logged" where
  "logged_standard rid b c call idn route =
     (let req = (''request_id'', LogText rid) in
      State_Monad.bind (bk_creds b c (rt_prefix route)) (\<lambda>r. case r of
        Inl e \<Rightarrow> say [log_record LevelError ''broker: get service credential failed''
                     [req, (''prefix'', LogText (rt_prefix route)), (''error'', LogText (err_text e))]]
                   (error_response (tc_id call) code_service_unavailable
                     ''service unavailable: could not retrieve service credentials'')
      | Inr cred \<Rightarrow>
          (let bearer = (case bearer_token_from_context c of None \<Rightarrow> [] | Some t \<Rightarrow> t) in
           State_Monad.bind (bk_minter b c idn (origin_jti_from_token bearer)) (\<lambda>r. case r of
             Inl e \<Rightarrow> say [log_record LevelError ''broker: mint identity assertion token failed''
                          [req, (''user_id'', LogText (id_user idn)), (''error'', LogText (err_text e))]]
                        (error_response (tc_id call) code_service_unavailable
                          ''service unavailable: could not mint identity assertion token'')
           | Inr token \<Rightarrow>
               State_Monad.bind
                 (transport_for b route (with_service_credential c cred) (rt_backend route) call token)
                 (\<lambda>r. case r of
                    Inl e \<Rightarrow> say [log_record LevelError ''broker: backend forward failed''
                                 [req, (''backend_uri'', LogText (rt_backend route)), (''error'', LogText (err_text e))]]
                               (error_response (tc_id call) code_service_unavailable ''service unavailable: backend unreachable'')
                  | Inr body \<Rightarrow> say [] body)))))"

definition logged_execution :: "'w voices \<Rightarrow> log_source \<Rightarrow> string \<Rightarrow> golib \<Rightarrow> 'w broker \<Rightarrow> 'w ctx \<Rightarrow> tool_call \<Rightarrow> ('w, bytes) logged" where
  "logged_execution V A transport G b c call =
     (let rid = request_id_from_call A call; tool = tool_name_from_call call in
      also_logged (vo_identity V c) (\<lambda>r. case r of
        Inl e \<Rightarrow> say [identity_error_log rid e] (identity_error_response (tc_id call) e)
      | Inr idn \<Rightarrow>
      logging [log_tool_call A rid (id_user idn) tool transport]
     (also_logged (vo_evaluate V c idn call) (\<lambda>r. case r of
        Inl e \<Rightarrow> say [log_record LevelError ''broker: policy evaluation error''
                     [(''request_id'', LogText rid), (''user_id'', LogText (id_user idn)), (''tool_name'', LogText tool),
                      (''error'', LogText (err_text e))]]
                   (error_response (tc_id call) code_service_unavailable ''service unavailable: policy engine error'')
      | Inr d \<Rightarrow>
      logging [log_policy_decision rid (id_user idn) tool d]
         (if \<not> d_permitted d then
            say [] (error_response (tc_id call) code_policy_denied ''unauthorized: insufficient entitlements'')
          else (case resolve_route G b tool of
              Inl e \<Rightarrow> say [] (error_response (tc_id call) code_invalid_params
                   (''invalid params: no route configured for tool prefix ''
                    @ go_quote (gl_printable G) (tool_prefix tool)))
            | Inr route \<Rightarrow>
                (let fwd = strip_prefix_from_call call (rt_prefix route) in
                 if rt_obo route \<noteq> [] then silent (handle_obo b c fwd route)
                 else logged_standard rid b c fwd idn route)))))))"

definition logged_handle :: "'w voices \<Rightarrow> log_source \<Rightarrow> string \<Rightarrow> golib \<Rightarrow> 'w broker \<Rightarrow> 'w ctx \<Rightarrow> bytes \<Rightarrow> ('w, bytes) logged" where
  "logged_handle V A transport G b c data =
     (case parse_tool_call G data of
        Inl e \<Rightarrow> say [] (error_response (id_holder G data) code_invalid_request
                  ''invalid request: does not conform to JSON-RPC 2.0'')
      | Inr call \<Rightarrow>
          if tc_method call = ''tools/list'' then logged_discovery V A transport G b c call
          else if tc_method call = ''tools/call'' then logged_execution V A transport G b c call
          else say [] (error_response (tc_id call) code_invalid_request
                 (''unknown method '' @ go_quote (gl_printable G) (tc_method call))))"

subsection \<open>Logging changes nothing\<close>

lemma case_ret: "case_sum (\<lambda>e. ret (f e)) (\<lambda>y. ret (g y)) = (\<lambda>x. ret (case x of Inl e \<Rightarrow> f e | Inr y \<Rightarrow> g y))"
  by (simp add: fun_eq_iff split: sum.split)

lemma unlogged_credential [simp]: "unlogged (logged_credential b c idn r) = list_credential b c idn r"
  by (simp add: logged_credential_def list_credential_def Let_def case_ret split: option.split cong: sum.case_cong if_cong)

lemma unlogged_backend [simp]: "unlogged (logged_backend G b c idn r) = list_backend G b c idn r"
  unfolding logged_backend_def list_backend_def Let_def
  by (rule act_eqI) (simp_all add: world_simps split: option.split sum.split)

lemma unlogged_loop [simp]: "unlogged (logged_loop G b c idn rs acc) = aggregate_loop G b c idn rs acc"
  by (induction rs arbitrary: acc) (simp_all del: aggregate_loop.simps(2) add: aggregate_loop.simps)

lemma unlogged_cached [simp]: "unlogged (logged_cached cache check entry k) = cached_resolve cache check k"
  by (simp add: logged_cached_def cached_resolve_def cong: sum.case_cong option.case_cong)

lemma unlogged_oidc [simp]: "unlogged (logged_oidc a c) = oidc_resolve a c"
  by (simp add: logged_oidc_def oidc_resolve_def split: option.split)

lemma unlogged_saml [simp]: "unlogged (logged_saml a c) = saml_resolve a c"
  by (simp add: logged_saml_def saml_resolve_def split: option.split)

lemma map_of_resolve: "map_of (map (map_prod id f) xs) k = map_option f (map_of xs k)"
  by (induction xs) auto

lemma unlogged_multi [simp]: "unlogged (logged_multi A G M c) = multi_resolve G (multi_of M) c"
  by (auto simp: logged_multi_def multi_resolve_def multi_of_def logged_multi_assertion_def resolve_assertion_def
      logged_multi_token_def resolve_token_def map_of_resolve Let_def split: option.split list.split)

lemma logged_evaluate_snd [simp]: "snd (logged_evaluate L a idn call) = opa_evaluate L a idn call"
  by (simp add: logged_evaluate_def Let_def)

lemma logged_filter_loop_snd:
  "(\<And>call. snd (lev call) = ev call) \<Longrightarrow> snd (logged_filter_loop lev G ns) = filter_loop ev G ns"
proof (induction ns)
  case (Cons n ns)
  then have IH: "snd (logged_filter_loop lev G ns) = filter_loop ev G ns" by simp
  obtain es r where "lev (filter_call G n) = (es, r)" by fastforce
  moreover have "ev (filter_call G n) = r" using Cons.prems [of "filter_call G n"] calculation by simp
  ultimately show ?case using IH by (cases r) (auto simp: case_prod_beta Let_def)
qed simp

lemma logged_filter_snd [simp]: "snd (logged_filter L G a idn names) = opa_filter_tools L G a idn names"
  using logged_filter_loop_snd [of "logged_evaluate L a idn" "opa_evaluate L a idn" G names]
  by (simp add: logged_filter_def opa_filter_tools_def case_prod_beta Let_def)

lemma unlogged_state [simp]: "unlogged (State (\<lambda>w. (f w, w))) = State (\<lambda>w. (snd (f w), w))"
  by (rule act_eqI) (simp_all add: unlogged_def world_simps case_prod_beta)

lemma engine_voice_fits:
  assumes "\<And>c. unlogged (ident c) = bk_identity b c" and "bk_policy b = opa_engine L G get"
  shows "fits (engine_voice L G get ident) b"
  using assms by (simp add: fits_def engine_voice_def opa_engine_def)

lemma unlogged_aggregate [simp]: "fits V b \<Longrightarrow> unlogged (logged_aggregate V G b c) = aggregate_tools G b c"
  by (simp add: logged_aggregate_def aggregate_tools_def fits_def split: option.split)

lemma unlogged_discovery: "fits V b \<Longrightarrow> unlogged (logged_discovery V A transport G b c call) = handle_discovery G b c call"
  by (simp add: logged_discovery_def handle_discovery_def Let_def fits_def [of V b] cong: sum.case_cong if_cong)

lemma unlogged_standard [simp]: "unlogged (logged_standard rid b c call idn route) = handle_standard b c call idn route"
  by (simp add: logged_standard_def handle_standard_def Let_def cong: sum.case_cong if_cong)

lemma unlogged_execution: "fits V b \<Longrightarrow> unlogged (logged_execution V A transport G b c call) = handle_execution G b c call"
  by (simp add: logged_execution_def handle_execution_def Let_def fits_def cong: sum.case_cong if_cong)

lemma unlogged_handle: "fits V b \<Longrightarrow> unlogged (logged_handle V A transport G b c data) = handle G b c data"
  by (simp add: logged_handle_def handle_def unlogged_discovery unlogged_execution cong: sum.case_cong if_cong)

lemma logged_sends: "fits V b \<Longrightarrow> new_sent (logged_handle V A transport G b c data) w = new_sent (handle G b c data) w"
  by (simp add: new_sent_def flip: unlogged_handle [of V b A transport] after_unlogged)

subsection \<open>What is on record\<close>

definition loud :: "log_entry list \<Rightarrow> log_entry list" where
  "loud es = filter (\<lambda>e. LevelInfo \<le> le_level e) es"

lemma loud_simps [simp]:
  "loud [] = []" "loud (es @ fs) = loud es @ loud fs"
  "loud (e # es) = (if LevelInfo \<le> le_level e then e # loud es else loud es)"
  by (simp_all add: loud_def)

lemma loud_emitted: "level_from_env env \<le> LevelInfo \<Longrightarrow> loud (emitted env es) = loud es"
  by (auto simp: loud_def emitted_def intro!: filter_cong dest: order_trans)

lemma log_level_simps [simp]:
  "le_level (log_record l m fs) = l" "\<not> LevelInfo \<le> LevelDebug"
  "le_level (log_tool_call A rid user tool transport) = LevelInfo" "le_level (log_policy_decision rid user tool d) = LevelInfo"
  by (simp_all add: log_tool_call_def log_policy_decision_def log_record_def less_eq_log_level_def)

text \<open>An identity that is resolved, and an evaluation of any outcome, leave only records of level DEBUG.\<close>

lemma logged_cached_hushed:
  "snd (result (logged_cached cache check entry k) w) = Inr i \<Longrightarrow> (\<And>i. le_level (entry i) = LevelDebug) \<Longrightarrow>
     loud (fst (result (logged_cached cache check entry k) w)) = []"
  by (auto simp: logged_cached_def say_def world_simps split: option.splits sum.splits)

lemma resolved_log_level [simp]: "le_level (resolved_log m n i) = LevelDebug"
  by (simp add: resolved_log_def)

lemma logged_oidc_hushed: "snd (result (logged_oidc a c) w) = Inr i \<Longrightarrow> loud (fst (result (logged_oidc a c) w)) = []"
  by (auto simp: logged_oidc_def say_def intro: logged_cached_hushed split: option.splits if_splits)

lemma logged_saml_hushed: "snd (result (logged_saml a c) w) = Inr i \<Longrightarrow> loud (fst (result (logged_saml a c) w)) = []"
  by (auto simp: logged_saml_def say_def intro: logged_cached_hushed split: option.splits if_splits)

lemma snd_logging: "snd (result (logging es m) w) = snd (result m w)"
  by (simp add: logging_def also_logged_def say_def world_simps case_prod_beta)

lemma logged_multi_hushed: "snd (result (logged_multi A G M c) w) = Inr i \<Longrightarrow> loud (fst (result (logged_multi A G M c) w)) = []"
  by (auto simp: logged_multi_def logged_multi_assertion_def logged_multi_token_def say_def snd_logging result_logging Let_def
      intro: logged_oidc_hushed logged_saml_hushed split: if_splits option.splits list.splits)

lemma logged_evaluate_hushed: "loud (fst (logged_evaluate L a idn call)) = []"
  by (simp add: logged_evaluate_def Let_def split: sum.split)

lemma fits_results:
  assumes "fits V b"
  shows "snd (result (vo_identity V c) w) = result (bk_identity b c) w" "after (vo_identity V c) w = after (bk_identity b c) w"
    "snd (result (vo_evaluate V c idn call) w) = result (pe_evaluate (bk_policy b) c idn call) w"
  using assms by (simp_all add: fits_def flip: result_unlogged after_unlogged)

lemma discovery_record:
  assumes "fits V b" and "result (bk_identity b c) w = Inr idn" and "loud (fst (result (vo_identity V c) w)) = []"
  shows "\<exists>rest. loud (fst (result (logged_discovery V A transport G b c call) w)) =
    log_tool_call A (request_id_from_call A call) (id_user idn) ''tools/list'' transport # rest"
  using assms(2,3) by (simp add: logged_discovery_def Let_def result_also result_logging fits_results [OF assms(1)])

lemma execution_record:
  assumes "fits V b" and "result (bk_identity b c) w = Inr idn" and "loud (fst (result (vo_identity V c) w)) = []"
    and "result (pe_evaluate (bk_policy b) c idn call) (after (bk_identity b c) w) = Inr d"
    and "loud (fst (result (vo_evaluate V c idn call) (after (bk_identity b c) w))) = []"
  shows "\<exists>rest. loud (fst (result (logged_execution V A transport G b c call) w)) =
    log_tool_call A (request_id_from_call A call) (id_user idn) (tool_name_from_call call) transport
    # log_policy_decision (request_id_from_call A call) (id_user idn) (tool_name_from_call call) d # rest"
  using assms(2-5) by (simp add: logged_execution_def Let_def result_also result_logging fits_results [OF assms(1)])

subsection \<open>The process\<close>

text \<open>
  The adapters of a process are those it has built from its configured providers, and its identity
  service is over them. Every process that has come up has some.
\<close>

definition process_adapters :: "('z net, 'y, 'm, 'k, 'x) main_lib \<Rightarrow> ('z net, 'y) system \<Rightarrow> 'z net adapters \<Rightarrow> bool" where
  "process_adapters X s M \<longleftrightarrow> wired_adapters X (ld_current (sy_loader s)) (multi_of M)
     \<and> bk_identity (sy_broker s) = multi_resolve (mx_golib X) (multi_of M)"

definition process_voices :: "('z net, 'y, 'm, 'k, 'x) main_lib \<Rightarrow> log_source \<Rightarrow> 'z net adapters \<Rightarrow> 'z net voices" where
  "process_voices X A M = engine_voice (mx_opa_lib X) (mx_golib X) (mx_get_opa X) (logged_multi A (mx_golib X) M)"

lemma map_resolve_conv: "list_all P xs \<Longrightarrow> (\<And>x. P x \<Longrightarrow> \<exists>a. snd x = f a) \<Longrightarrow> \<exists>ys. xs = map (map_prod id f) ys"
proof (induction xs)
  case (Cons x xs)
  have px: "P x" and pxs: "list_all P xs" using Cons.prems(1) by simp_all
  obtain ys a where "xs = map (map_prod id f) ys" "snd x = f a"
    using Cons.IH [OF pxs Cons.prems(2)] Cons.prems(2) [OF px] by blast
  then have "x # xs = map (map_prod id f) ((fst x, a) # ys)" by (cases x) simp
  then show ?case by (rule exI)
qed simp

lemma started_adapters:
  assumes "result (start X) w = Up s"
  shows "\<exists>M. process_adapters X s M"
proof -
  obtain m where m: "wired_adapters X (ld_current (sy_loader s)) m" "bk_identity (sy_broker s) = multi_resolve (mx_golib X) m"
    using start_broker(1) [OF assms] by (auto simp: wired_parts_def)
  have "\<exists>os. mu_oidc m = map (map_prod id oidc_resolve) os"
    by (rule map_resolve_conv [of "oidc_adapter X (cf_idps (ld_current (sy_loader s)))"])
      (use m(1) in \<open>auto simp: wired_adapters_def oidc_adapter_def\<close>)
  moreover have "\<exists>ss. mu_saml m = map (map_prod id saml_resolve) ss"
    by (rule map_resolve_conv [of "saml_adapter X (cf_idps (ld_current (sy_loader s)))"])
      (use m(1) in \<open>auto simp: wired_adapters_def saml_adapter_def\<close>)
  ultimately obtain os ss where os: "mu_oidc m = map (map_prod id oidc_resolve) os"
      and ss: "mu_saml m = map (map_prod id saml_resolve) ss" by blast
  have "multi_of \<lparr>la_oidc = os, la_saml = ss\<rparr> = m" by (simp add: multi_of_def os [symmetric] ss [symmetric])
  then show ?thesis using m by (metis process_adapters_def)
qed

lemma process_voices_fit:
  assumes "wired_parts X cfg m mn (sy_broker s)" and "process_adapters X s M"
  shows "fits (process_voices X A M) (sy_broker s)"
  unfolding process_voices_def using assms by (intro engine_voice_fits) (simp_all add: wired_parts_def process_adapters_def)

text \<open>
  C7: Whatever a running Abaris sends to a backend is on record. When a request is made while a
  message is handled, and the logger writes records of level INFO, then among the records of that
  level or above that the broker, the identity service and the policy engine write while it is
  handled, the first is the receipt of the call: its request id, the id of the caller that its
  credentials resolve to, the tool and the transport; and for a call, the next is a policy decision
  on the same request, caller and tool, whose outcome is \<open>permit\<close>. (Their records of level DEBUG
  come before and between; the transports and stores that are called later write their own.)
\<close>

theorem requests_are_on_record:
  assumes "result (start X) w = Up s" and "recorded X check answer L" and "level_from_env (mx_env X) \<le> LevelInfo"
    and "process_adapters X s M"
    and "q \<in> set (new_sent (logged_handle (process_voices X A M) A transport (mx_golib X) (sy_broker s) c data) v)"
  shows "\<exists>call idn rest. parse_tool_call (mx_golib X) data = Inr call \<and> result (bk_identity (sy_broker s) c) v = Inr idn
    \<and> (let rid = request_id_from_call A call; tool = tool_name_from_call call; user = id_user idn;
           records = loud (emitted (mx_env X)
             (fst (result (logged_handle (process_voices X A M) A transport (mx_golib X) (sy_broker s) c data) v))) in
       tc_method call = ''tools/list'' \<and> records = log_tool_call A rid user ''tools/list'' transport # rest
       \<or> tc_method call = ''tools/call'' \<and> (\<exists>d. d_permitted d
           \<and> records = log_tool_call A rid user tool transport # log_policy_decision rid user tool d # rest))"
proof -
  let ?V = "process_voices X A M" and ?b = "sy_broker s"
  obtain m where parts: "wired_parts X (ld_current (sy_loader s)) m (sy_minter s) ?b"
    using start_broker(1) [OF assms(1)] by blast
  note fits = process_voices_fit [OF parts assms(4), of A]
  have q: "q \<in> set (new_sent (handle (mx_golib X) ?b c data) v)" using assms(5) by (simp only: logged_sends [OF fits])
  from process_handle_sends [OF parts assms(2) q] obtain call idn where
      call: "parse_tool_call (mx_golib X) data = Inr call" "result (bk_identity ?b c) v = Inr idn"
      and kind: "tc_method call = ''tools/list'' \<or> tc_method call = ''tools/call''
         \<and> says_yes (result (pe_evaluate (bk_policy ?b) c idn call) (after (bk_identity ?b c) v))"
    by blast
  have id: "loud (fst (result (vo_identity ?V c) v)) = []"
    using fits_results(1) [OF fits, of c v] call(2) logged_multi_hushed
    by (fastforce simp: process_voices_def engine_voice_def)
  have ev: "loud (fst (result (vo_evaluate ?V c idn call) x)) = []" for x
    by (simp add: process_voices_def engine_voice_def logged_evaluate_hushed result_def)
  from kind show ?thesis
  proof
    assume "tc_method call = ''tools/list''"
    then show ?thesis
      using call discovery_record [OF fits call(2) id, of A transport "mx_golib X" call]
      by (fastforce simp: logged_handle_def loud_emitted [OF assms(3)] Let_def)
  next
    assume call': "tc_method call = ''tools/call''
         \<and> says_yes (result (pe_evaluate (bk_policy ?b) c idn call) (after (bk_identity ?b c) v))"
    then obtain d where "result (pe_evaluate (bk_policy ?b) c idn call) (after (bk_identity ?b c) v) = Inr d"
        "d_permitted d" by (auto simp: says_yes_def split: sum.splits)
    then show ?thesis
      using call call' execution_record [OF fits call(2) id _ ev, of d A transport "mx_golib X"]
      by (fastforce simp: logged_handle_def loud_emitted [OF assms(3)] Let_def)
  qed
qed

end
