(* ===== verification/Demo.thy ===== *)
theory Demo
  imports Interference CallLog
begin

section \<open>A concrete broker\<close>

text \<open>
  One small configuration on which the system-level properties are evaluated: one route
  (\<open>github\<close> over HTTP), one policy (group \<open>dev\<close> may call \<open>github/*\<close>), the OPA engine with Go's
  \<open>path.Match\<close> as its glob function, a caller \<open>ann\<close> of group \<open>dev\<close>, and a network that answers
  every request with an empty object. The request calls the tool \<open>github/get-x\<close>.
\<close>

definition demo_params :: json where
  "demo_params = JObj [(''name'', JStr ''github/get-x'')]"

definition demo_request :: json where
  "demo_request = JObj [(''jsonrpc'', JStr ''2.0''), (''id'', JNum ''1''), (''method'', JStr ''tools/call''), (''params'', demo_params)]"

lemma demo_folds: "fold_name ''jsonrpc'' = ''JSONRPC''" "fold_name ''id'' = ''ID''" "fold_name ''method'' = ''METHOD''"
  "fold_name ''params'' = ''PARAMS''" "fold_name ''name'' = ''NAME''"
  by code_simp+

lemma demo_plain_texts: "plain_text ''jsonrpc''" "plain_text ''id''" "plain_text ''method''" "plain_text ''params''" "plain_text ''name''"
  "plain_text ''2.0''" "plain_text ''tools/call''" "plain_text ''github/get-x''"
  by (simp_all add: plain_text_def html_char_def)

lemma demo_params_parse: "json_parse (json_print demo_params) = Some demo_params"
  by (rule json_parse_print) (simp_all add: demo_params_def demo_plain_texts plain_text_ok max_nesting_def)

lemma demo_num: "num_ok ''1''" by code_simp

lemma demo_request_parse: "json_parse (json_print demo_request) = Some demo_request"
  by (rule json_parse_print) (simp_all add: demo_request_def demo_params_def demo_plain_texts plain_text_ok max_nesting_def demo_num)

definition demo_call :: tool_call where
  "demo_call = \<lparr>tc_jsonrpc = ''2.0'', tc_id = GNum ''1'', tc_method = ''tools/call'', tc_params = Some (json_print demo_params)\<rparr>"

lemma demo_parse: "parse_tool_call golib0 (json_print demo_request) = Inr demo_call"
  unfolding parse_tool_call_def unmarshal_call_def demo_request_parse
  by (simp add: demo_request_def decode_call_def field_vals_Cons demo_folds plain_text_unquote demo_plain_texts golib0_def demo_num raw_field_def demo_call_def
     del: json_print.simps)

lemma demo_tool: "tool_name_from_call demo_call = ''github/get-x''" "dry_tool_name demo_call = ''github/get-x''"
proof -
  have "unmarshal_string ''name'' (json_print demo_params) = Some ''github/get-x''"
    unfolding unmarshal_string_def demo_params_parse by (simp add: demo_params_def get_string_def field_vals_Cons plain_text_unquote demo_plain_texts)
  then show "tool_name_from_call demo_call = ''github/get-x''" "dry_tool_name demo_call = ''github/get-x''"
    by (simp_all add: tool_name_from_call_def dry_tool_name_def demo_call_def) (simp add: demo_params_def)
qed

definition demo_route :: route_entry where
  "demo_route = \<lparr>rt_prefix = ''github'', rt_backend = ''http://github'', rt_obo = [], rt_transport = []\<rparr>"

definition demo_network :: "'z network" where
  "demo_network sent s z =
     (Inr \<lparr>hr_status = 200, hr_header = (\<lambda>_. []), hr_body = \<lparr>hb_bytes = ''{}'', hb_error = None, hb_no_body = False\<rparr>\<rparr>, z)"

abbreviation demo_client :: "'z net http_client" where
  "demo_client \<equiv> trace_client (\<lambda>_. None) demo_network"

definition demo_broker :: "opa net broker" where
  "demo_broker =
     \<lparr>bk_identity = (\<lambda>c. ret (Inr demo_caller)), bk_policy = opa_engine demo_opa_lib golib0 nt_rest,
      bk_transport = http_forward golib0 demo_client, bk_sse = sse_forward golib0 demo_client,
      bk_minter = (\<lambda>c i j. ret (Inr ''assertion'')), bk_creds = (\<lambda>c p. ret (Inr ''service'')),
      bk_routes = [demo_route], bk_store = None, bk_obo = None\<rparr>"

definition demo_world :: "opa net" where
  "demo_world = \<lparr>nt_sent = [], nt_rest = demo_opa\<rparr>"

lemma trace_client_simps [simp]:
  "hc_new_request (trace_client check answer) url = check url"
  "nt_sent (after (hc_do (trace_client check answer) r) w) = nt_sent w @ [sent_of r]"
  by (simp_all add: trace_client_def)

lemma demo_simps [simp]:
  "oa_policies demo_opa = demo_policies" "bk_routes demo_broker = [demo_route]"
  "nt_rest demo_world = demo_opa" "nt_sent demo_world = []" "bk_identity demo_broker c = ret (Inr demo_caller)"
  "bk_policy demo_broker = opa_engine demo_opa_lib golib0 nt_rest" "rt_prefix demo_route = ''github''" "rt_obo demo_route = []"
  "rt_backend demo_route = ''http://github''" "rt_transport demo_route = []"
  "bk_transport demo_broker = http_forward golib0 demo_client" "bk_creds demo_broker c p = ret (Inr ''service'')"
  "bk_minter demo_broker c i j = ret (Inr ''assertion'')"
  by (simp_all add: demo_opa_def demo_caller_def demo_broker_def demo_world_def demo_route_def)

lemma demo_yes: "says_yes (opa_evaluate demo_opa_lib demo_opa demo_caller demo_call)"
  using opa_evaluate_spec [OF demo_opa_wf, of demo_opa_lib demo_caller demo_call] demo_permits demo_one
  by (simp add: demo_tool)

lemma demo_plain: "plain_broker golib0 (\<lambda>_. None) demo_network demo_broker"
  by (simp add: plain_broker_def demo_broker_def opa_engine_def quiet_def)

lemma demo_map: "params_map (json_print demo_params) = Some [(''name'', JStr ''github/get-x'')]"
  unfolding params_map_def demo_params_parse by (simp add: demo_params_def plain_text_unquote demo_plain_texts)

lemma demo_strip:
  "strip_prefix_from_call demo_call ''github'' = demo_call\<lparr>tc_params := Some (json_print (JObj [(''name'', JStr ''get-x'')]))\<rparr>"
proof -
  have x: "plain_text ''get-x''" by (simp add: plain_text_def html_char_def)
  then have "html_raw ''get-x'' = ''get-x''" using html_raw_quote [of "''get-x''"] by (simp add: plain_text_quote)
  then show ?thesis using x
  by (simp add: strip_prefix_from_call_def demo_call_def demo_map raw_string_def plain_text_unquote demo_plain_texts trim_prefix_def plain_text_quote
    del: json_print.simps)
qed

lemma demo_body: "\<exists>body. marshal_call G (demo_call\<lparr>tc_params := Some (json_print (JObj [(''name'', JStr ''get-x'')]))\<rparr>) = Inr body"
proof -
  have "json_parse (json_print (JObj [(''name'', JStr ''get-x'')])) = Some (JObj [(''name'', JStr ''get-x'')])"
    by (rule json_parse_print) (simp_all add: demo_plain_texts plain_text_ok max_nesting_def, simp add: plain_text_def html_char_def plain_text_ok)
  then show ?thesis by (intro marshal_call_ok) (simp add: params_ok_def del: json_print.simps)
qed

lemma demo_sent:
  assumes "\<And>x. run (bk_identity b c) x = (Inr demo_caller, x)" and policy: "bk_policy b = opa_engine demo_opa_lib golib0 nt_rest"
    and b: "bk_routes b = [demo_route]" "bk_transport b = http_forward golib0 demo_client" "bk_creds b c ''github'' = ret (Inr cred)"
    and minter: "\<And>i j x. \<exists>t. run (bk_minter b c i j) x = (Inr t, x)"
    and v: "opa_wf (nt_rest v)" "oa_policies (nt_rest v) = demo_policies"
  shows "\<exists>s. new_sent (handle golib0 b c (json_print demo_request)) v = [s]"
proof -
  let ?f = "demo_call\<lparr>tc_params := Some (json_print (JObj [(''name'', JStr ''get-x'')]))\<rparr>"
  obtain body where body: "marshal_call golib0 ?f = Inr body" using demo_body by blast
  have id: "result (bk_identity b c) x = Inr demo_caller" "after (bk_identity b c) x = x" for x
    using assms(1) by (simp_all add: run_result_after)
  have yes: "says_yes (result (pe_evaluate (bk_policy b) c demo_caller demo_call) v)"
    using opa_evaluate_spec [OF v(1), of demo_opa_lib demo_caller demo_call] demo_permits demo_one v(2)
    by (simp add: policy opa_engine_def demo_tool)
  have route: "find_route (tool_prefix (tool_name_from_call demo_call)) (bk_routes b) = Some demo_route"
    by (simp add: demo_tool b) (simp add: tool_prefix_takeWhile)
  have ex: "after (handle_execution golib0 b c demo_call) v = after (handle_standard b c ?f demo_caller demo_route) v"
    using execution_routed [OF id(1) _ yes route, where G = golib0] demo_strip id(2)
    by (simp add: run_result_after policy opa_engine_def)
  have handle: "handle golib0 b c (json_print demo_request) = handle_execution golib0 b c demo_call"
    by (simp add: handle_def demo_parse) (simp add: demo_call_def)
  obtain t where "run (bk_minter b c demo_caller (origin_jti_from_token
      (case bearer_token_from_context c of None \<Rightarrow> [] | Some t \<Rightarrow> t))) v = (Inr t, v)" using minter by blast
  then show ?thesis
    unfolding handle using ex body
    by (auto simp: new_sent_def handle_standard_def world_simps transport_for_def run_result_after b
      http_forward_def Let_def split: sum.splits)
qed

lemma demo_broker_sent: "\<exists>s. new_sent (handle golib0 demo_broker background (json_print demo_request)) demo_world = [s]"
  by (rule demo_sent [where cred = "''service''"]) (simp_all add: run_result_after demo_opa_wf)

lemma demo_one_name: "one_name (json_print demo_params)"
  unfolding one_name_def demo_params_parse
  by (simp add: demo_params_def field_vals_Cons demo_plain_texts plain_text_unquote)

lemma demo_unmarshal: "unmarshal_string ''name'' (json_print demo_params) = Some (''github'' @ ''/'' @ ''get-x'')"
  unfolding unmarshal_string_def demo_params_parse
  by (simp add: demo_params_def get_string_def field_vals_Cons plain_text_unquote demo_plain_texts)


subsection \<open>The same broker with a token store and a pipeline\<close>

definition demo_obo_route :: route_entry where
  "demo_obo_route = demo_route\<lparr>rt_obo := ''github-app''\<rparr>"

definition demo_user_store :: "opa net token_store" where
  "demo_user_store =
     \<lparr>ts_get = (\<lambda>u p. ret (if u = ''ann'' then Inr \<lparr>tp_access = ''user-token'', tp_refresh = ''r''\<rparr>
        else Inl (bare_err ErrNotConnected))), ts_save = (\<lambda>u p t. ret None), ts_delete = (\<lambda>u p. ret None)\<rparr>"

definition demo_refresh :: "opa net token_refresher" where
  "demo_refresh u p r = ret (Inl (plain_err ''invalid_grant''))"

definition demo_pipeline :: "opa net obo" where
  "demo_pipeline =
     \<lparr>ob_identity = bk_identity demo_broker, ob_policy = bk_policy demo_broker, ob_store = demo_user_store,
      ob_minter = bk_minter demo_broker, ob_refresher = None,
      ob_transport = refresh_round_trip (trace_round_trip demo_network) (Some demo_refresh),
      ob_sse = Some (sse_forward golib0 demo_client), ob_new_request = (\<lambda>_. None)\<rparr>"

definition demo_wired :: "opa net broker" where
  "demo_wired = demo_broker\<lparr>bk_store := Some demo_user_store, bk_obo := Some (obo_execute golib0 demo_pipeline),
     bk_routes := [demo_obo_route]\<rparr>"

lemma demo_wired_ok: "wired_broker golib0 (\<lambda>_. None) demo_network demo_refresh demo_user_store demo_pipeline demo_wired"
proof -
  have "demo_wired\<lparr>bk_store := None, bk_obo := None\<rparr> = demo_broker\<lparr>bk_routes := [demo_obo_route]\<rparr>"
    by (simp add: demo_wired_def demo_broker_def)
  moreover have "plain_broker golib0 (\<lambda>_. None) demo_network (demo_broker\<lparr>bk_routes := [demo_obo_route]\<rparr>)"
    using demo_plain by (simp add: plain_broker_def)
  ultimately show ?thesis
    using demo_plain
    by (simp add: wired_broker_def wired_obo_def demo_pipeline_def demo_wired_def quiet_store_def demo_user_store_def
        demo_refresh_def plain_broker_def)
qed

definition demo_list_request :: json where
  "demo_list_request = JObj [(''jsonrpc'', JStr ''2.0''), (''id'', JNum ''1''), (''method'', JStr ''tools/list'')]"

lemma demo_list_parse: "parse_tool_call golib0 (json_print demo_list_request) = Inr list_call"
proof -
  have p: "plain_text ''tools/list''" by (simp add: plain_text_def html_char_def)
  have j: "json_parse (json_print demo_list_request) = Some demo_list_request"
    by (rule json_parse_print) (simp_all add: demo_list_request_def demo_plain_texts p plain_text_ok max_nesting_def demo_num)
  show ?thesis
    unfolding parse_tool_call_def unmarshal_call_def j
    by (simp add: demo_list_request_def decode_call_def field_vals_Cons demo_folds plain_text_unquote demo_plain_texts p
        golib0_def demo_num raw_field_def list_call_def)
qed

lemma demo_wired_sends: "new_sent (handle golib0 demo_wired background (json_print demo_list_request)) demo_world \<noteq> []"
proof -
  obtain body where body: "marshal_call golib0 list_call = Inr body"
    using marshal_call_ok [of list_call golib0] by (auto simp: params_ok_def list_call_def)
  have w [simp]: "bk_identity demo_wired c = ret (Inr demo_caller)" "bk_store demo_wired = Some demo_user_store"
      "bk_routes demo_wired = [demo_obo_route]" "bk_policy demo_wired = opa_engine demo_opa_lib golib0 nt_rest"
      "bk_transport demo_wired = http_forward golib0 demo_client" "rt_obo demo_obo_route = ''github-app''"
      "rt_transport demo_obo_route = []" for c
    by (simp_all add: demo_wired_def demo_obo_route_def)
  have user: "id_user demo_caller = ''ann''" by (simp add: demo_caller_def)
  obtain all where all: "result (aggregate_tools golib0 demo_wired background) demo_world = Inr all"
    using aggregate_tools_result [of golib0 demo_wired background demo_world] by blast
  have "after (handle_discovery golib0 demo_wired background list_call) demo_world =
      after (aggregate_tools golib0 demo_wired background) demo_world"
    by (simp add: handle_discovery_def world_simps all opa_engine_def split: sum.splits)
  moreover have "nt_sent (after (aggregate_tools golib0 demo_wired background) demo_world) \<noteq> []"
    using body
    by (simp add: aggregate_tools_def list_backend_def list_credential_def Let_def world_simps demo_user_store_def user
        transport_for_def http_forward_def ctx_defs split: sum.splits)
  ultimately show ?thesis
    unfolding handle_def demo_list_parse by (simp add: new_sent_def) (simp add: list_call_def)
qed

interpretation demo_laws: broker_laws demo_wired background
    "broker_request demo_wired demo_user_store demo_refresh background"
  by (rule wired_broker_laws [OF demo_wired_ok])

subsection \<open>A process that comes up\<close>

definition demo_cache :: "'w id_cache" where
  "demo_cache = \<lparr>ch_get = (\<lambda>_. ret None), ch_set = (\<lambda>_ _. ret ())\<rparr>"

definition demo_saml_lib :: "('w, unit, unit, unit) saml_lib" where
  "demo_saml_lib =
     \<lparr>sl_key_pair = (\<lambda>c k. Inl ''no such file''), sl_parse_cert = (\<lambda>_. Inr ()), sl_http_get = (\<lambda>_. ret (Inl ''dial tcp'')),
      sl_parse_metadata = (\<lambda>_. Inr ()), sl_parse_url = (\<lambda>_. None), sl_provider = (\<lambda>_ _. ret (Inl ''invalid'')),
      sl_cache = (\<lambda>_. demo_cache)\<rparr>"

definition demo_verifier :: "string \<Rightarrow> ('w, string + id_claims) act" where
  "demo_verifier token =
     ret (if token = ''t'' then Inr \<lparr>ic_subject = ''ann'', ic_email = [], ic_claims = [(''groups'', GArr [GStr ''dev''])]\<rparr>
          else Inl ''invalid'')"

text \<open>The world holds the policy engine's state and, here or there, more.\<close>

definition demo_main_on :: "('z \<Rightarrow> opa) \<Rightarrow> (opa \<Rightarrow> 'z \<Rightarrow> 'z) \<Rightarrow> ('z net, unit, unit, unit, unit) main_lib" where
  "demo_main_on get put =
     \<lparr>mx_golib = golib0, mx_env = (\<lambda>k. if k = ''AWS_REGION'' then ''eu-west-1'' else []),
      mx_config = demo_config_env [''dev''], mx_aws_error = None, mx_secrets_error = None,
      mx_secrets = (\<lambda>_. ret SecretNotFound), mx_verifier = (\<lambda>_ _ _. demo_verifier),
      mx_cache = (\<lambda>_. demo_cache), mx_saml = demo_saml_lib,
      mx_minter = demo_minter_lib, mx_kms = mn_kms demo_minter, mx_dynamo = (\<lambda>_. Inl ''none''), mx_badger = (\<lambda>_. Inl ''none''),
      mx_crypto = \<lparr>cr_kms = \<lparr>km_generate = (\<lambda>_. ret (Inl ''none'')), km_decrypt = (\<lambda>_ _. ret (Inl ''none''))\<rparr>,
        cr_aead = mem_aead, cr_nonce = ret (Inr [])\<rparr>,
      mx_opa_lib = demo_opa_lib, mx_bundle = bundle_loads, mx_get_opa = (\<lambda>w. get (nt_rest w)),
      mx_put_opa = (\<lambda>a w. w\<lparr>nt_rest := put a (nt_rest w)\<rparr>),
      mx_client = demo_client, mx_round_trip = trace_round_trip demo_network, mx_token_source = (\<lambda>_ _. ret (Inl ''none''))\<rparr>"

definition demo_main :: "(opa net, unit, unit, unit, unit) main_lib" where
  "demo_main = demo_main_on id (\<lambda>a z. a)"

lemma demo_main_simps [simp]:
  "mx_golib demo_main = golib0" "mx_config demo_main = demo_config_env [''dev'']" "mx_env demo_main ''AWS_REGION'' = ''eu-west-1''"
  "mx_aws_error demo_main = None" "mx_secrets_error demo_main = None" "mx_minter demo_main = demo_minter_lib"
  "mx_kms demo_main = mn_kms demo_minter" "mx_bundle demo_main = bundle_loads" "mx_verifier demo_main i u k = demo_verifier"
  "mx_cache demo_main ttl = demo_cache" "mx_opa_lib demo_main = demo_opa_lib" "mx_get_opa demo_main = nt_rest"
  "mx_put_opa demo_main = (\<lambda>a w. w\<lparr>nt_rest := a\<rparr>)" "mx_client demo_main = demo_client"
  "mx_round_trip demo_main = trace_round_trip demo_network"
  by (simp_all add: demo_main_def demo_main_on_def)

definition demo_oidc_adapter :: "'w oidc" where
  "demo_oidc_adapter = \<lparr>od_name = ''idp'', od_verify = demo_verifier, od_groups_claim = ''groups'', od_cache = demo_cache\<rparr>"

lemma demo_start_parts: "\<exists>s. result (start demo_main) w = Up s \<and> cf_idps (ld_current (sy_loader s)) = [demo_idp]
  \<and> cf_routes (ld_current (sy_loader s)) = [demo_route] \<and> cf_policies (ld_current (sy_loader s)) = demo_policies
  \<and> bk_identity (sy_broker s) = multi_resolve golib0 \<lparr>mu_oidc = [(''https://idp'', oidc_resolve demo_oidc_adapter)], mu_saml = []\<rparr>"
proof -
  obtain m where m: "result (new_minter demo_minter_lib \<lparr>ac_issuer = ''https://abaris'', ac_audience = ''backend'',
    ac_ttl = 60, ac_kms_arn = ''arn'', ac_key_id = []\<rparr> (mn_kms demo_minter)) w' = Inr m" for w' :: "opa net"
    by (simp add: new_minter_def cache_public_key_def parse_rsa_public_key_def rsa_of_def demo_minter_lib_def demo_minter_def world_simps)
  show ?thesis
    by (simp add: start_def load_def load_file_def demo_config_env_def valid_identity_def valid_idp_def demo_idp_def
      valid_routing_def valid_route_def valid_assertion_def load_policy_files_def valid_policy_file_def valid_policy_def
      deep_merge_policies_def merge_policy_def tool_prefix_takeWhile validate_secondary_providers_def Let_def
      new_loader_def must_env_def new_secrets_manager_adapter_def resolve_secondary_provider_secrets_def world_simps wire_services_def current_def
      oidc_config_of_def new_oidc_def issuer_from_discovery_url_def discovery_suffix_def new_multi_def m wire_store_def
      wire_obo_def wire_broker_def new_broker_def demo_route_def demo_policies_def demo_oidc_adapter_def)
qed

lemma demo_start: "\<exists>s. result (start demo_main) w = Up s"
  using demo_start_parts by blast

text \<open>A request with the bearer token \<open>t\<close>, posted to \<open>/mcp\<close>.\<close>

definition demo_post :: in_request where
  "demo_post =
     \<lparr>iq_method = ''POST'', iq_header = (\<lambda>k. if k = ''Authorization'' then ''Bearer t'' else []), iq_path_value = (\<lambda>_. []),
      iq_query = (\<lambda>_. []), iq_body = \<lparr>hb_bytes = json_print demo_request, hb_error = None, hb_no_body = False\<rparr>\<rparr>"

lemma demo_post_identity:
  "run (multi_resolve golib0 \<lparr>mu_oidc = [(''https://idp'', oidc_resolve demo_oidc_adapter)], mu_saml = []\<rparr>
     (inject_credentials_from_http background demo_post)) x = (Inr demo_caller, x)"
proof -
  have "has_prefix ''Bearer t'' ''Bearer ''" "jwt_issuer_from_token ''t'' = None" "trim_space ''t'' \<noteq> []" "trim_prefix ''Bearer t'' ''Bearer '' = ''t''" by code_simp+
  then show ?thesis
    by (simp add: multi_resolve_def resolve_token_def oidc_resolve_def cached_resolve_def oidc_check_def demo_oidc_adapter_def
        demo_cache_def demo_verifier_def normalize_claims_def to_string_slice_def demo_caller_def ctx_defs Let_def
        inject_credentials_from_http_def demo_post_def run_result_after world_simps)
qed

lemma demo_services: "services_keep obs demo_main demo_connect_lib"
  by (auto simp: services_keep_def cache_keeps_def demo_cache_def demo_main_def demo_main_on_def demo_saml_lib_def demo_minter_lib_def
      demo_minter_def connect_lib_keeps_def demo_connect_lib_def demo_verifier_def)

lemma demo_databases: "databases_keep obs demo_main"
  by (simp add: databases_keep_def demo_main_def demo_main_on_def crypto_keeps_def)

lemma demo_recorded: "recorded demo_main (\<lambda>_. None) demo_network demo_connect_lib"
  by (simp add: recorded_def demo_services demo_databases)

lemma demo_apart: "engine_apart demo_main demo_connect_lib"
  by (auto simp: engine_apart_def engine_view_def demo_services demo_databases client_keeps_def keeps_def trace_client_def trace_round_trip_def demo_network_def)

lemma demo_request_short: "length (json_print demo_request) < 200"
  by code_simp

lemma demo_post_body: "read_limited body_limit (iq_body demo_post) = Inr (json_print demo_request)"
  using demo_request_short by (simp add: read_limited_def read_all_def demo_post_def body_limit_def)

lemma demo_post_method: "iq_method demo_post = ''POST''"
  by (simp add: demo_post_def)

lemma demo_process_sends:
  "\<exists>s q. result (start demo_main) demo_world = Up s
     \<and> new_sent (handle golib0 (sy_broker s) (inject_credentials_from_http background demo_post) (json_print demo_request))
         (after (start demo_main) demo_world) = [q]"
proof -
  let ?w = "after (start demo_main) demo_world" and ?c = "inject_credentials_from_http background demo_post"
  obtain s where s: "result (start demo_main) demo_world = Up s" "cf_routes (ld_current (sy_loader s)) = [demo_route]"
      "cf_policies (ld_current (sy_loader s)) = demo_policies"
      "bk_identity (sy_broker s) = multi_resolve golib0 \<lparr>mu_oidc = [(''https://idp'', oidc_resolve demo_oidc_adapter)], mu_saml = []\<rparr>"
    using demo_start_parts by blast
  obtain m where parts: "wired_parts demo_main (ld_current (sy_loader s)) m (sy_minter s) (sy_broker s)"
    using start_broker(1) [OF s(1)] by blast
  have mint: "\<exists>t. run (mint demo_minter_lib (sy_minter s) c i j) x = (Inr t, x)" for c i j x
    using parts by (simp add: wired_parts_def mint_def demo_minter_lib_def demo_minter_def world_simps Let_def run_result_after)
  have cred: "bk_creds (sy_broker s) ?c ''github'' = ret (Inr (mx_env demo_main (cred_env_key ''github'')))"
    using parts s(2) by (simp add: wired_parts_def get_service_credential_def new_env_credential_store_def)
  have engine: "opa_wf (nt_rest ?w)" "oa_policies (nt_rest ?w) = demo_policies"
    using start_engine [OF s(1) demo_apart] s(3) by (simp_all add: engine_holds_def engine_view_def)
  have id: "run (bk_identity (sy_broker s) ?c) x = (Inr demo_caller, x)" for x
    using s(4) by (simp add: demo_post_identity)
  have "\<exists>q. new_sent (handle golib0 (sy_broker s) ?c (json_print demo_request)) ?w = [q]"
    using demo_sent [OF id _ _ _ cred _ engine] parts s(2) mint by (simp add: wired_parts_def)
  then show ?thesis using s(1) by blast
qed

lemma demo_run_sends:
  "\<exists>s p q. result (start demo_main) demo_world = Up s
     \<and> process_run demo_main demo_connect_lib s (started demo_main s demo_world) [Request [''mcp''] demo_post] p
     \<and> q \<in> set (step_sent (started demo_main s demo_world) p)"
proof -
  let ?w = "after (start demo_main) demo_world" and ?c = "inject_credentials_from_http background demo_post"
  obtain s q where s: "result (start demo_main) demo_world = Up s"
      and q: "new_sent (handle golib0 (sy_broker s) ?c (json_print demo_request)) ?w = [q]"
    using demo_process_sends by blast
  have "q \<in> set (step_sent (started demo_main s demo_world) (sy_loader s, after (serve_http golib0 demo_connect_lib s background [''mcp''] demo_post) ?w))"
    using q demo_post_body by (simp add: serve_http_mcp handle_mcp_def demo_post_method step_sent_def started_def new_sent_def after_bind)
  then show ?thesis
    using s prun_next [OF prun_start step_request, of demo_main demo_connect_lib s "sy_loader s" ?w "[''mcp'']" demo_post]
    by (fastforce simp: started_def)
qed

theorem every_request_is_authorised_witness:
  "\<exists>s p q (idn :: identity). result (start demo_main) demo_world = Up s
     \<and> process_run demo_main demo_connect_lib s (started demo_main s demo_world) [Request [''mcp''] demo_post] p
     \<and> q \<in> set (step_sent (started demo_main s demo_world) p)
     \<and> permits demo_opa_lib (cf_policies (ld_current (sy_loader s))) (id_groups idn) ''github/get-x''"
proof -
  obtain s p q where run: "result (start demo_main) demo_world = Up s"
      "process_run demo_main demo_connect_lib s (started demo_main s demo_world) [Request [''mcp''] demo_post] p"
      "q \<in> set (step_sent (started demo_main s demo_world) p)"
    using demo_run_sends by blast
  have is_call: "tc_method demo_call = ''tools/call''" by (simp add: demo_call_def)
  have "\<exists>idn :: identity. permits demo_opa_lib (cf_policies (ld_current (sy_loader s))) (id_groups idn) ''github/get-x''"
    using every_request_is_authorised [OF run(1) demo_recorded demo_apart run(2,3)] is_call
    by (auto simp: Cons_eq_append_conv demo_post_body demo_parse demo_tool)
  then show ?thesis using run by blast
qed

definition demo_log :: log_source where
  "demo_log = \<lparr>ls_show = (\<lambda>v. ''1''), ls_uuid = ''uuid'', ls_time = ''now'', ls_issuer_error = (\<lambda>t. ''not a valid JWT'')\<rparr>"

lemma demo_level: "level_from_env (mx_env demo_main) \<le> LevelInfo"
  by (simp add: demo_main_def demo_main_on_def level_from_env_def upper_name.simps Let_def)

theorem requests_are_on_record_witness:
  "\<exists>s M c q (idn :: identity) d rest. result (start demo_main) demo_world = Up s \<and> process_adapters demo_main s M
     \<and> q \<in> set (new_sent (logged_handle (process_voices demo_main demo_log M) demo_log ''sse'' golib0 (sy_broker s) c (json_print demo_request))
         (after (start demo_main) demo_world))
     \<and> loud (emitted (mx_env demo_main) (fst (result (logged_handle (process_voices demo_main demo_log M) demo_log ''sse'' golib0
           (sy_broker s) c (json_print demo_request)) (after (start demo_main) demo_world)))) =
         log_tool_call demo_log ''1'' (id_user idn) ''github/get-x'' ''sse''
         # log_policy_decision ''1'' (id_user idn) ''github/get-x'' d # rest
     \<and> d_permitted d"
proof -
  let ?w = "after (start demo_main) demo_world" and ?c = "inject_credentials_from_http background demo_post"
  let ?h = "\<lambda>s M. logged_handle (process_voices demo_main demo_log M) demo_log ''sse'' golib0 (sy_broker s) ?c (json_print demo_request)"
  obtain s q where s: "result (start demo_main) demo_world = Up s"
      and sent: "q \<in> set (new_sent (handle golib0 (sy_broker s) ?c (json_print demo_request)) ?w)"
    using demo_process_sends by fastforce
  obtain M where M: "process_adapters demo_main s M" using started_adapters [OF s] by blast
  obtain m where parts: "wired_parts demo_main (ld_current (sy_loader s)) m (sy_minter s) (sy_broker s)"
    using start_broker(1) [OF s] by blast
  have q: "q \<in> set (new_sent (logged_handle (process_voices demo_main demo_log M) demo_log ''sse'' (mx_golib demo_main) (sy_broker s) ?c
      (json_print demo_request)) ?w)"
    using sent by (simp add: logged_sends [OF process_voices_fit [OF parts M]])
  have call: "request_id_from_call demo_log demo_call = ''1''" "tc_method demo_call = ''tools/call''"
    by (simp_all add: request_id_from_call_def demo_log_def demo_call_def)
  from requests_are_on_record [OF s demo_recorded demo_level M q] call
  obtain idn :: identity and d rest where "loud (emitted (mx_env demo_main) (fst (result (?h s M) ?w))) =
      log_tool_call demo_log ''1'' (id_user idn) ''github/get-x'' ''sse''
      # log_policy_decision ''1'' (id_user idn) ''github/get-x'' d # rest" "d_permitted d"
    by (auto simp: demo_parse demo_tool Let_def)
  then show ?thesis using s M q [unfolded demo_main_simps] by blast
qed

theorem running_process_is_configured_witness:
  "\<exists>s m. result (start demo_main) demo_world = Up s \<and> config_ok golib0 (ld_current (sy_loader s))
     \<and> wired_parts demo_main (ld_current (sy_loader s)) m (sy_minter s) (sy_broker s)"
  using demo_start [of demo_world] running_process_is_configured [of demo_main demo_world] by auto

theorem saml_issuer_must_be_sp_entity_witness:
  "\<exists>s e. result (start demo_main) demo_world = Up s \<and> err_is e = ErrUnauthorized
     \<and> result (bk_identity (sy_broker s) (with_saml_assertion background ''<Issuer>https://idp</Issuer>'')) demo_world = Inl e"
proof -
  obtain s where s: "result (start demo_main) demo_world = Up s" "cf_idps (ld_current (sy_loader s)) = [demo_idp]"
    using demo_start_parts by blast
  have "saml_issuer_from_xml ''<Issuer>https://idp</Issuer>'' = Some ''https://idp''"
    "trim_space ''<Issuer>https://idp</Issuer>'' \<noteq> []" by code_simp+
  then show ?thesis
    using saml_issuer_must_be_sp_entity [OF s(1), of "with_saml_assertion background ''<Issuer>https://idp</Issuer>''" _ _ demo_world] s
    by (simp add: ctx_defs saml_entities_def demo_idp_def run_result_after) blast
qed

text \<open>The policies of another group appear on disk while the process runs.\<close>

definition demo_new_file :: "unit watch_event" where
  "demo_new_file = FileEvent ''a.yaml'' \<lparr>fo_create = False, fo_write = True, fo_remove = False, fo_rename = False\<rparr>
     (demo_config_env [''qa''])"

lemma demo_reloaded:
  assumes "cf_routes (ld_current l) = [demo_route]"
  shows "cf_policies (ld_current (snd (watch golib0 [demo_new_file] l))) =
    [\<lparr>pe_group = ''qa'', pe_scope = \<lparr>rs_allowed = [''github/*''], rs_denied = []\<rparr>\<rparr>]"
proof -
  have "is_yaml ''a.yaml''" by code_simp
  then show ?thesis
    using assms by (simp add: demo_new_file_def reload_policies_def load_policy_files_def load_file_def demo_config_env_def
      valid_policy_file_def valid_policy_def deep_merge_policies_def merge_policy_def tool_prefix_takeWhile Let_def demo_route_def)
qed

theorem reloads_reach_nobody_witness:
  "\<exists>s l v. result (start demo_main) demo_world = Up s
     \<and> process_run demo_main demo_connect_lib s (started demo_main s demo_world) [Watched demo_new_file bundle_loads] (l, v)
     \<and> map pe_group (cf_policies (ld_current l)) = [''qa''] \<and> map pe_group (oa_policies (nt_rest v)) = [''dev'']"
proof -
  obtain s where s: "result (start demo_main) demo_world = Up s" "cf_routes (ld_current (sy_loader s)) = [demo_route]"
      "cf_policies (ld_current (sy_loader s)) = demo_policies"
    using demo_start_parts by blast
  obtain l v where run: "process_run demo_main demo_connect_lib s (started demo_main s demo_world)
      [Watched demo_new_file bundle_loads] (l, v)"
    using prun_next [OF prun_start step_watched, of demo_main demo_connect_lib s "sy_loader s" "after (start demo_main) demo_world"]
    unfolding started_def by fastforce
  show ?thesis
    using reloads_reach_nobody [OF s(1) demo_apart run] run s demo_reloaded [OF s(2)]
    by (intro exI [of _ s] exI [of _ l] exI [of _ v]) (simp add: demo_policies_def)
qed

theorem only_own_tokens_are_sent_witness:
  "\<exists>s. s \<in> set (new_sent (handle golib0 demo_wired background (json_print demo_list_request)) demo_world)
     \<and> (\<exists>route \<in> set (bk_routes demo_wired). broker_request demo_wired demo_user_store demo_refresh background route s)"
proof -
  obtain s where s: "s \<in> set (new_sent (handle golib0 demo_wired background (json_print demo_list_request)) demo_world)"
    using demo_wired_sends by (meson list.set_sel(1))
  show ?thesis using only_own_tokens_are_sent [OF demo_wired_ok s] s by blast
qed

end
