(* ===== verification/TokenIsolation.thy ===== *)
theory TokenIsolation
  imports ProcessRun
begin

section \<open>Who can change a user's tokens\<close>

text \<open>
  The stored tokens as a view of the world: what a running process does to the entry of a user
  and a provider, over a token store that keeps its contract for every user (DynamoDB, with or
  without encryption; BadgerDB's keys confuse a user and a provider whose names hold a colon).
\<close>

subsection \<open>Other entries\<close>

lemma store_laws_get_keeps: "store_laws st view key_ok ok \<Longrightarrow> keeps (\<lambda>w. view w k) (ts_get st u p)"
  using store_laws.get_view by (fastforce simp: keeps_def)

lemma store_laws_entry_keeps:
  assumes "store_laws st view any_key ok" and "(user, prov) \<noteq> (u, p)"
  shows "entry_keeps (\<lambda>w. view w (user, prov)) st u p"
  using store_laws_get_keeps [OF assms(1)] store_laws.save_other [OF assms(1) _ _ assms(2)]
    store_laws.delete_other [OF assms(1) _ _ assms(2)]
  by (simp add: entry_keeps_def keeps_def any_key_def)

subsection \<open>One event\<close>

text \<open>
  What is relied on of the world: the tokens are changed by the token store only, neither by
  another service nor by a backend, and are no part of the engine's state.
\<close>

definition tokens_apart :: "('w \<Rightarrow> string \<times> string \<Rightarrow> token_pair option) \<Rightarrow> ('w, 'y, 'm, 'k, 'x) main_lib \<Rightarrow> 'w connect_lib \<Rightarrow> bool" where
  "tokens_apart view X L \<longleftrightarrow>
     (\<forall>k. (\<forall>a w. view (mx_put_opa X a w) k = view w k) \<and> services_keep (\<lambda>w. view w k) X L
       \<and> client_keeps (\<lambda>w. view w k) (mx_client X) \<and> (\<forall>r. keeps (\<lambda>w. view w k) (mx_round_trip X r)))"

lemma tokens_apartD:
  assumes "tokens_apart view X L"
  shows "view (mx_put_opa X a w) = view w" and "services_keep (\<lambda>w. view w k) X L"
    and "client_keeps (\<lambda>w. view w k) (mx_client X)" and "keeps (\<lambda>w. view w k) (mx_round_trip X r)"
  using assms unfolding tokens_apart_def by blast+

text \<open>
  A callback for the provider with a state that is signed for the user and has not expired.
\<close>

definition signed_callback :: "('w, 'y, 'm, 'k, 'x) main_lib \<Rightarrow> 'w connect_lib \<Rightarrow> ('w, 'y) system \<Rightarrow> 'w
    \<Rightarrow> 'y process_event \<Rightarrow> string \<Rightarrow> string \<Rightarrow> bool" where
  "signed_callback X L s v e user prov \<longleftrightarrow>
     (\<exists>r h expires. e = Request [''connect'', prov, ''callback''] r \<and> sy_connect s = Some h
        \<and> verify_state (mx_golib X) L (cn_key h) (iq_query r ''state'') (result (cl_now L) v) =
            Inr \<lparr>st_user = user, st_provider = prov, st_expires = expires\<rparr>)"

text \<open>
  A permitted tool call on a configured route with the provider, by the user: the identity is
  that of the second resolution, in the pipeline.
\<close>

definition own_call :: "('w, 'y, 'm, 'k, 'x) main_lib \<Rightarrow> ('w, 'y) system \<Rightarrow> 'w \<Rightarrow> 'y process_event \<Rightarrow> string \<Rightarrow> string
    \<Rightarrow> bool" where
  "own_call X s v e user prov \<longleftrightarrow>
     (\<exists>c data call route w idn. brings (mx_env X) e c data \<and> parse_tool_call (mx_golib X) data = Inr call
        \<and> piped_call (mx_golib X) (sy_broker s) c call route v w \<and> result (bk_identity (sy_broker s) c) w = Inr idn
        \<and> id_user idn = user \<and> rt_obo route = prov)"

lemma handle_touches:
  assumes parts: "wired_parts X cfg m mn b" and apart: "tokens_apart view X L"
    and st: "bk_store b = Some st" "store_laws st view any_key ok"
    and change: "view (after (handle (mx_golib X) b c data) v) (user, prov) \<noteq> view v (user, prov)"
  shows "\<exists>call route w idn. parse_tool_call (mx_golib X) data = Inr call \<and> piped_call (mx_golib X) b c call route v w
    \<and> result (bk_identity b c) w = Inr idn \<and> id_user idn = user \<and> rt_obo route = prov"
proof -
  let ?obs = "\<lambda>w. view w (user, prov)"
  note keep = tokens_apartD(2-4) [OF apart, where k = "(user, prov)"]
  have b: "broker_keeps ?obs b"
    using st store_laws_get_keeps [OF st(2)] by (intro wired_broker_keeps [OF parts keep(1,2)]) simp
  from handle_changes [OF b change] obtain call route w obo where call: "parse_tool_call (mx_golib X) data = Inr call"
      "piped_call (mx_golib X) b c call route v w" "bk_obo b = Some obo"
      "?obs (after (obo c (strip_prefix_from_call call (rt_prefix route)) route) w) \<noteq> ?obs w"
    by blast
  from wired_obo_touches [OF parts keep call(3,4)] st(1) obtain idn where "result (bk_identity b c) w = Inr idn"
      "\<not> entry_keeps ?obs st (id_user idn) (rt_obo route)"
    by auto
  then show ?thesis using call store_laws_entry_keeps [OF st(2)] by (metis prod.inject)
qed

lemma callback_endpoint:
  "endpoint_of connect path = Callback p \<Longrightarrow> path = [''connect'', p, ''callback'']"
  by (auto simp: endpoint_of_def split: if_splits list.splits)

lemma serve_http_touches:
  assumes apart: "tokens_apart view X L" and con: "wired_connect (sy_broker s) (sy_connect s)"
    and parts: "wired_parts X cfg m mn (sy_broker s)"
    and st: "bk_store (sy_broker s) = Some st" "store_laws st view any_key ok" and other: "path \<noteq> [''mcp'']"
    and change: "view (after (serve_http (mx_golib X) L s c path r) v) (user, prov) \<noteq> view v (user, prov)"
  shows "signed_callback X L s v (Request path r) user prov"
proof -
  let ?obs = "\<lambda>w. view w (user, prov)"
  have L: "connect_lib_keeps (\<lambda>w. view w k) L" and id: "keeps (\<lambda>w. view w k) (bk_identity (sy_broker s) c)" for k c
    using tokens_apartD(2) [OF apart, of k] wired_parts_keep(1) [OF parts, of "\<lambda>w. view w k" L]
    by (simp_all add: services_keep_def)
  have view: "view (after (cl_now L) w) = view w" "view (after (cl_exchange L cfg' url redirect code) w) = view w"
    for w cfg' url redirect code
    using L by (simp_all add: fun_eq_iff connect_lib_keeps_def keeps_def)
  show ?thesis
  proof (cases "endpoint_of (sy_connect s \<noteq> None) path")
    case (Connect p)
    then obtain h where "sy_connect s = Some h" using endpoint_connect by fastforce
    then show ?thesis using change Connect serve_connect_keeps [OF L [of "(user, prov)"], of h] con id
      by (simp add: serve_http_def wired_connect_def keeps_def)
  next
    case (Callback p)
    then obtain h where h: "sy_connect s = Some h" using endpoint_connect by fastforce
    have store: "store_laws (cn_store h) view any_key ok" using h con st by (simp add: wired_connect_def)
    have "view (after (serve_callback (mx_golib X) L h (with_provider r p)) v) (user, prov) \<noteq> view v (user, prov)"
      using change Callback h by (simp add: serve_http_def)
    from callback_touches [OF store view this] have "prov = p \<and> (\<exists>expires.
        verify_state (mx_golib X) L (cn_key h) (iq_query r ''state'') (result (cl_now L) v) =
          Inr \<lparr>st_user = user, st_provider = prov, st_expires = expires\<rparr>)"
      by (auto simp: any_key_def with_provider_def)
    then show ?thesis unfolding signed_callback_def using callback_endpoint [OF Callback] h by blast
  qed (use change other endpoint_mcp health_keeps [of ?obs] in \<open>auto simp: serve_http_def keeps_def\<close>)
qed

lemma step_touches:
  assumes step: "process_step X L s (l, v) e p" and up: "result (start X) w = Up s" and apart: "tokens_apart view X L"
    and st: "bk_store (sy_broker s) = Some st" "store_laws st view any_key ok"
    and change: "view (snd p) (user, prov) \<noteq> view v (user, prov)" and "e \<noteq> Outside"
  shows "signed_callback X L s v e user prov \<or> own_call X s v e user prov"
proof -
  obtain m where parts: "wired_parts X (ld_current (sy_loader s)) m (sy_minter s) (sy_broker s)"
    using start_broker(1) [OF up] by blast
  note handle = handle_touches [OF parts apart st]
  show ?thesis using step
  proof cases
    case (step_request path r)
    show ?thesis
    proof (cases "path = [''mcp'']")
      case True
      have "iq_method r = ''POST'' \<and> (\<exists>body. read_limited body_limit (iq_body r) = Inr body
          \<and> view (after (handle (mx_golib X) (sy_broker s) (inject_credentials_from_http background r) body) v) (user, prov)
            \<noteq> view v (user, prov))"
        using change step_request True
        by (auto simp: serve_http_mcp handle_mcp_def after_bind split: if_splits sum.splits)
      then show ?thesis using step_request True handle by (fastforce simp: own_call_def)
    next
      case False
      then show ?thesis
        using serve_http_touches [OF apart start_broker(2) [OF up] parts st False] change step_request by simp
    qed
  next
    case (step_input line)
    then show ?thesis
      using change handle [of "inject_credentials_from_env (mx_env X) background" line]
      by (fastforce simp: stdio_one own_call_def split: if_splits)
  next
    case (step_poll bo)
    then show ?thesis using change tokens_apartD(1) [OF apart] by simp
  next
    case (step_watched ev bo)
    then show ?thesis
      using change on_change_keeps [where obs = view and X = X] tokens_apartD(1) [OF apart] by simp
  qed (use change \<open>e \<noteq> Outside\<close> in simp_all)
qed

subsection \<open>A whole run\<close>

text \<open>What is not as it was at the beginning was changed by some event.\<close>

lemma run_changes:
  assumes "process_run X L s p es p'" and "obs (snd p') \<noteq> obs (snd p)"
  shows "\<exists>before e later l v p2. es = before @ e # later \<and> process_run X L s p before (l, v)
    \<and> process_step X L s (l, v) e p2 \<and> obs (snd p2) \<noteq> obs v"
  using assms
proof (induction rule: process_run.induct)
  case (prun_next p es p' e p'')
  show ?case
  proof (cases "obs (snd p') = obs (snd p)")
    case True
    obtain l v where p': "p' = (l, v)" by (cases p')
    have "obs (snd p'') \<noteq> obs v" using True prun_next.prems p' by simp
    then show ?thesis using prun_next.hyps unfolding p' by blast
  next
    case False
    then show ?thesis using prun_next.IH by (metis append_Cons append_assoc)
  qed
qed simp

text \<open>
  C2: Only a user's own doing changes the user's stored tokens. Whenever a running Abaris, over any
  sequence of requests, input lines, reloads and outside happenings, ends with another token pair
  stored for a user and a provider than it started with, there was an event that changed it, and
  unless that was the outside world it was a callback for this very provider with an unexpired
  state signed for this very user, or a permitted tool call on a configured route with this
  provider by a caller whom the identity provider resolves to this very user.
\<close>

theorem tokens_change_for_their_user:
  assumes "result (start X) w = Up s" and "tokens_apart view X L"
    and "bk_store (sy_broker s) = Some st" and "store_laws st view any_key ok"
    and "process_run X L s (started X s w) es p"
    and "view (snd p) (user, prov) \<noteq> view (after (start X) w) (user, prov)"
  shows "\<exists>before e later l v p'. es = before @ e # later \<and> process_run X L s (started X s w) before (l, v)
    \<and> process_step X L s (l, v) e p' \<and> view (snd p') (user, prov) \<noteq> view v (user, prov)
    \<and> (e = Outside \<or> signed_callback X L s v e user prov \<or> own_call X s v e user prov)"
proof -
  from run_changes [OF assms(5), of "\<lambda>v. view v (user, prov)"] assms(6)
  obtain before e later l v p' where "es = before @ e # later" "process_run X L s (started X s w) before (l, v)"
      "process_step X L s (l, v) e p'" "view (snd p') (user, prov) \<noteq> view v (user, prov)"
    by (fastforce simp: started_def)
  then show ?thesis using step_touches [OF _ assms(1-4)] by blast
qed

end
