(* ===== verification/DemoVault.thy ===== *)
theory DemoVault
  imports Demo TokenIsolation
begin

section \<open>A process with stored tokens\<close>

text \<open>
  The process of \<open>Demo\<close> with the secondary provider \<open>github\<close> and a token store: encrypted, over a DynamoDB table that is a part of the world.
\<close>

type_synonym vault = "(opa \<times> disk) net"

definition on_disk :: "(disk, 'a) act \<Rightarrow> (vault, 'a) act" where
  "on_disk m = State (\<lambda>w. let d = snd (nt_rest w) in (result m d, w\<lparr>nt_rest := (fst (nt_rest w), after m d)\<rparr>))"

lemma on_disk_simps [simp]:
  "result (on_disk m) w = result m (snd (nt_rest w))" "snd (nt_rest (after (on_disk m) w)) = after m (snd (nt_rest w))"
  by (simp_all add: on_disk_def Let_def)

definition vault_dynamo :: "vault dynamo" where
  "vault_dynamo =
     \<lparr>dy_get = (\<lambda>t k. on_disk (dy_get mem_dynamo t k)), dy_put = (\<lambda>t i. on_disk (dy_put mem_dynamo t i)),
      dy_delete = (\<lambda>t k. on_disk (dy_delete mem_dynamo t k))\<rparr>"

interpretation vault_table: table_laws vault_dynamo table "\<lambda>w. dk_items (snd (nt_rest w))"
  using mem_table.tb_get mem_table.tb_found mem_table.tb_put mem_table.tb_delete
  by unfold_locales (simp_all add: vault_dynamo_def)

abbreviation vault_items :: "vault \<Rightarrow> string \<times> string \<Rightarrow> token_pair option" where
  "vault_items \<equiv> table_view (\<lambda>w. dk_items (snd (nt_rest w)))"

interpretation vault_sealed: envelope "dynamo_store G vault_dynamo table" vault_items any_key mem_crypto arn mem_key_of
  by unfold_locales (auto simp: mem_crypto_def mem_open_seal mem_key_of_def split: list.splits option.splits)

definition vault_view :: "vault \<Rightarrow> string \<times> string \<Rightarrow> token_pair option" where
  "vault_view = envelope_view mem_crypto mem_key_of vault_items"

definition vault_store :: "vault token_store" where
  "vault_store = encrypted_store golib0 mem_crypto ''kms-arn'' (dynamo_store golib0 vault_dynamo ''tokens'')"

lemma vault_laws: "store_laws vault_store vault_view any_key pair_ok"
  unfolding vault_store_def vault_view_def by (rule vault_sealed.sealed_laws)

subsection \<open>It comes up\<close>

definition vault_config_env :: "unit config_env" where
  "vault_config_env = (demo_config_env [''dev''])
     \<lparr>ce_identity := (\<lambda>_. Inr \<lparr>ic_providers = [demo_idp], ic_secondary = [demo_provider\<lparr>sp_scopes := [''repo'']\<rparr>],
        ic_token_store = Some \<lparr>tk_type = ''dynamodb'', tk_table = ''tokens'', tk_region = [], tk_data_dir = [],
          tk_kms_arn = ''kms-arn''\<rparr>\<rparr>)\<rparr>"

definition vault_main :: "(vault, unit, unit, unit, unit) main_lib" where
  "vault_main = (demo_main_on fst (\<lambda>a z. (a, snd z)))
     \<lparr>mx_env := (\<lambda>k. if k = ''AWS_REGION'' then ''eu-west-1'' else if k = ''ABARIS_STATE_KEY_ARN'' then ''state-arn''
        else if k = ''ABARIS_REDIRECT_URI'' then ''https://abaris'' else []),
      mx_config := vault_config_env, mx_secrets := (\<lambda>_. ret (Secret (Some ''key''))), mx_dynamo := (\<lambda>_. Inr vault_dynamo),
      mx_crypto := mem_crypto\<rparr>"

definition vault_world :: vault where
  "vault_world = \<lparr>nt_sent = [], nt_rest = (demo_opa, demo_disk)\<rparr>"

lemma vault_start: "\<exists>s h. result (start vault_main) vault_world = Up s \<and> sy_connect s = Some h \<and> cn_key h = ''key''
  \<and> cn_store h = vault_store \<and> bk_store (sy_broker s) = Some vault_store \<and> cn_providers h ''github'' \<noteq> None
  \<and> snd (nt_rest (after (start vault_main) vault_world)) = demo_disk"
proof -
  obtain m where m: "run (new_minter demo_minter_lib \<lparr>ac_issuer = ''https://abaris'', ac_audience = ''backend'',
    ac_ttl = 60, ac_kms_arn = ''arn'', ac_key_id = []\<rparr> (mn_kms demo_minter)) w' = (Inr m, w')" for w' :: vault
    by (simp add: new_minter_def cache_public_key_def parse_rsa_public_key_def rsa_of_def demo_minter_lib_def demo_minter_def world_simps
      run_result_after)
  then have m': "result (new_minter demo_minter_lib \<lparr>ac_issuer = ''https://abaris'', ac_audience = ''backend'',
    ac_ttl = 60, ac_kms_arn = ''arn'', ac_key_id = []\<rparr> (mn_kms demo_minter)) w' = Inr m"
    "after (new_minter demo_minter_lib \<lparr>ac_issuer = ''https://abaris'', ac_audience = ''backend'',
    ac_ttl = 60, ac_kms_arn = ''arn'', ac_key_id = []\<rparr> (mn_kms demo_minter)) w' = w'" for w' :: vault
    by (simp_all add: run_result_after)
  show ?thesis
    by (simp add: start_def load_def load_file_def vault_main_def demo_main_on_def vault_config_env_def demo_config_env_def
      valid_identity_def valid_idp_def demo_idp_def valid_secondary_def demo_provider_def valid_token_store_def
      valid_routing_def valid_route_def valid_assertion_def load_policy_files_def valid_policy_file_def valid_policy_def
      deep_merge_policies_def merge_policy_def tool_prefix_takeWhile validate_secondary_providers_def Let_def
      new_loader_def must_env_def new_secrets_manager_adapter_def resolve_secondary_provider_secrets_def get_idp_client_secret_def get_secret_def world_simps wire_services_def current_def
      oidc_config_of_def new_oidc_def issuer_from_discovery_url_def discovery_suffix_def new_multi_def m' wire_store_def
      build_token_store_def wire_obo_def wire_broker_def new_broker_def new_obo_pipeline_def new_connect_handler_def
      must_get_secret_def vault_store_def vault_world_def demo_route_def demo_policies_def)
qed

subsection \<open>A callback stores a pair\<close>

lemma vault_view_disk: "snd (nt_rest v) = snd (nt_rest w) \<Longrightarrow> vault_view v k = vault_view w k"
  by (simp add: vault_view_def envelope_view_def table_view_def)

lemma vault_apart: "tokens_apart vault_view vault_main demo_connect_lib"
proof -
  have "services_keep obs vault_main demo_connect_lib" for obs :: "vault \<Rightarrow> token_pair option"
    by (auto simp: services_keep_def cache_keeps_def demo_cache_def vault_main_def demo_main_on_def demo_saml_lib_def
        demo_minter_lib_def demo_minter_def connect_lib_keeps_def demo_connect_lib_def demo_verifier_def)
  moreover have "client_keeps (\<lambda>w. vault_view w k) (mx_client vault_main)"
      "keeps (\<lambda>w. vault_view w k) (mx_round_trip vault_main r)" for k r
    unfolding client_keeps_def keeps_def
    by (intro allI vault_view_disk, simp add: vault_main_def demo_main_on_def trace_client_def trace_round_trip_def demo_network_def)+
  moreover have "vault_view (mx_put_opa vault_main a w) k = vault_view w k" for a w k
    by (rule vault_view_disk) (simp add: vault_main_def demo_main_on_def)
  ultimately show ?thesis unfolding tokens_apart_def by blast
qed

abbreviation callback_path :: "string list" where
  "callback_path \<equiv> [''connect'', ''github'', ''callback'']"

lemma vault_callback:
  assumes h: "sy_connect s = Some h" "cn_key h = ''key''" "cn_store h = vault_store" "cn_providers h ''github'' \<noteq> None"
    and disk: "snd (nt_rest v) = demo_disk"
  shows "vault_view (after (serve_http golib0 demo_connect_lib s background callback_path demo_callback) v) (''ann'', ''github'')
    = Some \<lparr>tp_access = ''code'', tp_refresh = []\<rparr>"
proof -
  let ?t = "\<lparr>tp_access = ''code'', tp_refresh = []\<rparr>"
  have ep: "endpoint_of True callback_path = Callback ''github''" by (simp add: endpoint_of_def)
  have "pair_ok ?t" by (simp add: pair_ok_def utf8_valid_all_ascii)
  moreover have "result (ts_save vault_store ''ann'' ''github'' ?t) v = None"
    using disk
    by (simp add: vault_store_def encrypted_store_def encrypted_save_def seal_pair_def world_simps mem_crypto_def mem_aead_def
        dynamo_defs vault_dynamo_def mem_dynamo_def demo_disk_def)
  ultimately have "vault_view (after (ts_save vault_store ''ann'' ''github'' ?t) v) (''ann'', ''github'') = Some ?t"
    using store_laws.save_view [OF vault_laws, of "''ann''" "''ann''" ?t "''github''" v "''github''"] by (simp add: any_key_def)
  moreover have "after (serve_http golib0 demo_connect_lib s background callback_path demo_callback) v =
      after (ts_save vault_store ''ann'' ''github'' ?t) v"
    using h
    by (auto simp: serve_http_def ep serve_callback_def with_provider_def Let_def world_simps demo_verified)
  ultimately show ?thesis by simp
qed

theorem tokens_change_for_their_user_witness:
  "\<exists>s p v. result (start vault_main) vault_world = Up s
     \<and> process_run vault_main demo_connect_lib s (started vault_main s vault_world) [Request callback_path demo_callback] p
     \<and> vault_view (snd p) (''ann'', ''github'') \<noteq> vault_view (after (start vault_main) vault_world) (''ann'', ''github'')
     \<and> signed_callback vault_main demo_connect_lib s v (Request callback_path demo_callback) ''ann'' ''github''"
proof -
  let ?e = "Request callback_path demo_callback" and ?w = "after (start vault_main) vault_world"
  obtain s h where s: "result (start vault_main) vault_world = Up s" "bk_store (sy_broker s) = Some vault_store"
      and h: "sy_connect s = Some h" "cn_key h = ''key''" "cn_store h = vault_store" "cn_providers h ''github'' \<noteq> None"
      and disk: "snd (nt_rest ?w) = demo_disk"
    using vault_start by blast
  let ?v = "after (serve_http golib0 demo_connect_lib s background callback_path demo_callback) ?w"
  have G: "mx_golib vault_main = golib0" by (simp add: vault_main_def demo_main_on_def)
  have run: "process_run vault_main demo_connect_lib s (started vault_main s vault_world) [?e] (sy_loader s, ?v)"
    using prun_next [OF prun_start step_request, of vault_main demo_connect_lib s "sy_loader s" ?w callback_path demo_callback]
    by (simp add: started_def G)
  have "vault_view ?w (''ann'', ''github'') = None"
    using disk by (simp add: vault_view_def envelope_view_def table_view_def demo_disk_def)
  then have change: "vault_view (snd (sy_loader s, ?v)) (''ann'', ''github'') \<noteq> vault_view ?w (''ann'', ''github'')"
    using vault_callback [OF h disk] by simp
  from tokens_change_for_their_user [OF s(1) vault_apart s(2) vault_laws run change]
  obtain v where "signed_callback vault_main demo_connect_lib s v ?e ''ann'' ''github''
      \<or> own_call vault_main s v ?e ''ann'' ''github''"
    by (auto simp: Cons_eq_append_conv)
  then have "signed_callback vault_main demo_connect_lib s v ?e ''ann'' ''github''" by (auto simp: own_call_def)
  then show ?thesis using s(1) run change by blast
qed

end
