(* ===== verification/OpaConcurrency.thy ===== *)
theory OpaConcurrency
  imports Opa
begin

section \<open>The policy adapter under concurrency\<close>

text \<open>
  The adapter is shared by the goroutines that serve requests, the one that reloads the bundle
  and the callers of \<open>UpdatePolicies\<close>. Only single reads and the final assignment of \<open>load\<close> are
  under its lock, so everything else interleaves: a reload works on the policies it read at its
  tick, an update on those of its caller, and an evaluation reads the policies and later the query.
\<close>

subsection \<open>The loop of \<open>StartHotReload\<close>\<close>

datatype reload_signal = Ticked bundle_outcome | Cancelled

text \<open>The state the loop leaves, and whether it has returned.\<close>

fun start_hot_reload :: "golib \<Rightarrow> reload_signal list \<Rightarrow> opa \<Rightarrow> opa \<times> bool" where
  "start_hot_reload G [] a = (a, False)"
| "start_hot_reload G (Cancelled # es) a = (a, True)"
| "start_hot_reload G (Ticked bo # es) a = start_hot_reload G es (hot_reload_tick G bo a)"

lemma start_hot_reload_returns: "snd (start_hot_reload G es a) \<longleftrightarrow> Cancelled \<in> set es"
  by (induction G es a rule: start_hot_reload.induct) auto

lemma start_hot_reload_run: "\<exists>bos. opa_run G a (map Tick bos) (fst (start_hot_reload G es a))"
proof (induction G es a rule: start_hot_reload.induct)
  case (3 G bo es a)
  then obtain bos where "opa_run G (hot_reload_tick G bo a) (map Tick bos) (fst (start_hot_reload G es (hot_reload_tick G bo a)))"
    by blast
  then have "opa_run G a (map Tick (bo # bos)) (fst (start_hot_reload G (Ticked bo # es) a))"
    by (auto intro: run_cons step_tick)
  then show ?case by blast
next
  case (1 G a)
  show ?case using run_nil [of G a] by (intro exI [of _ "[]"]) simp
next
  case (2 G es a)
  show ?case using run_nil [of G a] by (intro exI [of _ "[]"]) simp
qed

subsection \<open>Goroutines\<close>

text \<open>
  The adapter, with what each goroutine holds: the policies the reload read at its tick, those of
  the updates under way, and the inputs of the evaluations that have not read the query yet.
\<close>

record shared_opa =
  sh_opa :: opa
  sh_reload :: "policy_entry list option"
  sh_updates :: "policy_entry list list"
  sh_calls :: "(identity \<times> tool_call \<times> opa_input) list"

definition quiescent :: "opa \<Rightarrow> shared_opa" where
  "quiescent a = \<lparr>sh_opa = a, sh_reload = None, sh_updates = [], sh_calls = []\<rparr>"

datatype shared_event =
    ReloadBegins
  | ReloadEnds bundle_outcome
  | UpdateBegins "policy_entry list"
  | UpdateEnds bundle_outcome "policy_entry list"
  | EvaluateBegins identity tool_call
  | EvaluateEnds identity tool_call "goerr + decision"

inductive shared_step :: "opa_lib \<Rightarrow> golib \<Rightarrow> shared_opa \<Rightarrow> shared_event \<Rightarrow> shared_opa \<Rightarrow> bool" for L G where
  reload_begins: "sh_reload s = None \<Longrightarrow>
    shared_step L G s ReloadBegins (s\<lparr>sh_reload := Some (oa_policies (sh_opa s))\<rparr>)"
| reload_ends: "sh_reload s = Some ps \<Longrightarrow>
    shared_step L G s (ReloadEnds bo)
      (s\<lparr>sh_reload := None, sh_opa := snd (opa_load G bo (oa_path (sh_opa s)) ps (sh_opa s))\<rparr>)"
| update_begins: "shared_step L G s (UpdateBegins ps) (s\<lparr>sh_updates := ps # sh_updates s\<rparr>)"
| update_ends: "ps \<in> set (sh_updates s) \<Longrightarrow>
    shared_step L G s (UpdateEnds bo ps)
      (s\<lparr>sh_updates := remove1 ps (sh_updates s), sh_opa := snd (update_policies G bo ps (sh_opa s))\<rparr>)"
| evaluate_begins: "shared_step L G s (EvaluateBegins idn call)
    (s\<lparr>sh_calls := (idn, call, evaluation_input (oa_policies (sh_opa s)) idn call) # sh_calls s\<rparr>)"
| evaluate_ends: "(idn, call, i) \<in> set (sh_calls s) \<Longrightarrow>
    shared_step L G s (EvaluateEnds idn call (decide L (oa_query (sh_opa s)) i))
      (s\<lparr>sh_calls := remove1 (idn, call, i) (sh_calls s)\<rparr>)"

inductive_cases shared_stepE: "shared_step L G s e s'"
inductive_cases evaluate_endsE: "shared_step L G s (EvaluateEnds idn call r) s'"

inductive shared_run :: "opa_lib \<Rightarrow> golib \<Rightarrow> shared_opa \<Rightarrow> shared_event list \<Rightarrow> shared_opa \<Rightarrow> bool" for L G where
  shared_nil: "shared_run L G s [] s"
| shared_cons: "shared_step L G s e s' \<Longrightarrow> shared_run L G s' es s'' \<Longrightarrow> shared_run L G s (e # es) s''"

inductive_simps shared_run_simps: "shared_run L G s [] s'" "shared_run L G s (e # es) s'"

subsection \<open>What is kept in every interleaving\<close>

text \<open>
  Which policies the input was made with does not matter: no rule reads the patterns of the input.
\<close>

lemma rego_eval_input:
  assumes "oi_groups i = oi_groups j" and "oi_tool i = oi_tool j" and "oi_operation i = oi_operation j"
  shows "rego_eval L ds i = rego_eval L ds j"
proof -
  have entries: "caller_entries ds i = caller_entries ds j" by (simp add: caller_entries_def assms)
  have denied: "tool_denied L ds i = tool_denied L ds j" by (simp add: tool_denied_def entries assms)
  have ops: "operation_known i = operation_known j" "operation_acceptable i = operation_acceptable j"
    by (simp_all add: operation_acceptable_def operation_known_def assms)
  have allow: "rego_allow L ds i = rego_allow L ds j" by (simp add: rego_allow_def entries denied ops assms)
  have same: "matched_rule_ids L ds i = matched_rule_ids L ds j" "deny_reasons L ds i = deny_reasons L ds j"
    by (simp_all add: matched_rule_ids_def deny_reasons_def entries denied ops allow assms)
  show ?thesis unfolding rego_eval_def same allow ..
qed

lemma decide_input: "decide L query (evaluation_input ps idn call) = decide L query (evaluation_input qs idn call)"
proof -
  have "rego_eval L query (evaluation_input ps idn call) = rego_eval L query (evaluation_input qs idn call)"
    by (rule rego_eval_input) (simp_all add: evaluation_input_def case_prod_beta)
  then show ?thesis by (simp add: decide_def eval_query_def)
qed

definition shared_ok :: "policy_entry list set \<Rightarrow> shared_opa \<Rightarrow> bool" where
  "shared_ok pss s \<longleftrightarrow>
     opa_wf (sh_opa s) \<and> oa_policies (sh_opa s) \<in> pss \<and> set_option (sh_reload s) \<subseteq> pss \<and> set (sh_updates s) \<subseteq> pss
     \<and> (\<forall>(idn, call, i) \<in> set (sh_calls s). \<exists>ps. i = evaluation_input ps idn call)"

fun offered :: "shared_event list \<Rightarrow> policy_entry list set" where
  "offered [] = {}"
| "offered (UpdateBegins ps # es) = insert ps (offered es)"
| "offered (_ # es) = offered es"

lemma shared_ok_mono: "shared_ok pss s \<Longrightarrow> pss \<subseteq> qss \<Longrightarrow> shared_ok qss s"
  by (auto simp: shared_ok_def)

lemma shared_step_ok: "shared_step L G s e s' \<Longrightarrow> shared_ok pss s \<Longrightarrow> shared_ok (pss \<union> offered [e]) s'"
  by (induction rule: shared_step.induct)
    (auto simp: shared_ok_def opa_load_snd update_policies_def opa_wf_def dest!: set_mp [OF set_remove1_subset] split: if_splits)

lemma offered_Cons: "offered (e # es) = offered [e] \<union> offered es"
  by (cases e) auto

lemma shared_run_ok: "shared_run L G s es s' \<Longrightarrow> shared_ok pss s \<Longrightarrow> shared_ok (pss \<union> offered es) s'"
proof (induction arbitrary: pss rule: shared_run.induct)
  case (shared_cons s e s' es s'')
  have "shared_ok (pss \<union> offered [e] \<union> offered es) s''" using shared_cons by (blast intro: shared_step_ok)
  then show ?case by (simp only: offered_Cons [of e es] Un_assoc)
qed simp

lemma quiescent_ok: "opa_wf a \<Longrightarrow> shared_ok {oa_policies a} (quiescent a)"
  by (simp add: shared_ok_def quiescent_def)

subsection \<open>Evaluations are atomic, reloads are not\<close>

text \<open>
  C5: An evaluation is atomic, although it reads the policies and the query at different times.
  However evaluations, bundle reloads and policy updates interleave, what an evaluation answers is
  the answer of the adapter as it is when the query is read; its policies then are the first ones
  or some that an update offered, never a mixture, and a permission is one that they give.
\<close>

theorem concurrent_evaluations_are_atomic:
  assumes "opa_new G bo path ps = Inr a" and "shared_run L G (quiescent a) es s"
    and "shared_step L G s (EvaluateEnds idn call r) s'"
  shows "r = opa_evaluate L (sh_opa s) idn call \<and> oa_policies (sh_opa s) \<in> insert ps (offered es)
    \<and> (says_yes r \<longrightarrow> permits L (oa_policies (sh_opa s)) (id_groups idn) (dry_tool_name call))"
proof -
  have ok: "shared_ok ({ps} \<union> offered es) s"
    using shared_run_ok [OF assms(2) quiescent_ok] opa_new_wf [OF assms(1)] by simp
  obtain i where i: "(idn, call, i) \<in> set (sh_calls s)" "r = decide L (oa_query (sh_opa s)) i"
    using assms(3) by (rule evaluate_endsE) blast
  obtain qs where "i = evaluation_input qs idn call" using ok i(1) unfolding shared_ok_def by blast
  then have r: "r = opa_evaluate L (sh_opa s) idn call"
    unfolding opa_evaluate_def i(2) using decide_input by blast
  then show ?thesis using ok opa_says_yes [of "sh_opa s" L idn call] by (auto simp: shared_ok_def)
qed

lemma shared_runI:
  "shared_run L G (quiescent a) [EvaluateBegins idn call, UpdateBegins ps, UpdateEnds bundle_loads ps]
     ((quiescent (a\<lparr>oa_query := build_data_doc ps, oa_policies := ps\<rparr>))
        \<lparr>sh_calls := [(idn, call, evaluation_input (oa_policies a) idn call)]\<rparr>)"
  by (rule shared_cons [OF evaluate_begins], rule shared_cons [OF update_begins], rule shared_cons [OF update_ends])
    (simp_all add: quiescent_def shared_run_simps update_policies_def opa_load_snd)

theorem concurrent_evaluations_are_atomic_witness:
  "\<exists>s s' r. shared_run demo_opa_lib golib0 (quiescent demo_opa)
      [EvaluateBegins demo_caller empty_call, UpdateBegins [], UpdateEnds bundle_loads []] s
    \<and> shared_step demo_opa_lib golib0 s (EvaluateEnds demo_caller empty_call r) s'
    \<and> oa_policies (sh_opa s) = [] \<and> r = opa_evaluate demo_opa_lib (sh_opa s) demo_caller empty_call"
proof -
  let ?s = "(quiescent (demo_opa\<lparr>oa_query := build_data_doc [], oa_policies := []\<rparr>))
    \<lparr>sh_calls := [(demo_caller, empty_call, evaluation_input (oa_policies demo_opa) demo_caller empty_call)]\<rparr>"
  have new: "opa_new golib0 bundle_loads (oa_path demo_opa) demo_policies = Inr demo_opa"
    by (simp add: demo_opa_def build_data_doc_def)
  have run: "shared_run demo_opa_lib golib0 (quiescent demo_opa)
      [EvaluateBegins demo_caller empty_call, UpdateBegins [], UpdateEnds bundle_loads []] ?s"
    by (rule shared_runI)
  have "(demo_caller, empty_call, evaluation_input (oa_policies demo_opa) demo_caller empty_call) \<in> set (sh_calls ?s)" by simp
  note step = evaluate_ends [OF this]
  have "oa_policies (sh_opa ?s) = []" by (simp add: quiescent_def)
  then show ?thesis using concurrent_evaluations_are_atomic [OF new run step] run step by blast
qed

text \<open>
  C36: A bundle reload undoes a policy update that it overlaps. When an update succeeds between the
  tick of a reload, which reads the policies, and the reload's end, the adapter is back at the
  policies from before the update, and stays there whatever is reloaded and evaluated, until
  the next update.
\<close>

theorem overlapping_reload_reverts_policies:
  assumes "shared_run L G (quiescent a)
      ([ReloadBegins, UpdateBegins ps, UpdateEnds bundle_loads ps, ReloadEnds bundle_loads] @ es) s"
    and "offered es = {}"
  shows "fst (update_policies G bundle_loads ps a) = None \<and> oa_policies (sh_opa s) = oa_policies a"
proof -
  let ?a = "a\<lparr>oa_query := build_data_doc (oa_policies a), oa_policies := oa_policies a\<rparr>"
  have "shared_run L G (quiescent ?a) es s"
    using assms(1)
    by (auto simp: shared_run_simps quiescent_def update_policies_def opa_load_snd elim!: shared_stepE)
  then have "shared_ok ({oa_policies a} \<union> offered es) s"
    using shared_run_ok quiescent_ok [of ?a] by (fastforce simp: opa_wf_def)
  then show ?thesis using assms(2) by (simp add: shared_ok_def update_policies_def opa_load_fst)
qed

theorem overlapping_reload_reverts_policies_witness:
  "\<exists>s. shared_run demo_opa_lib golib0 (quiescent demo_opa)
      [ReloadBegins, UpdateBegins [], UpdateEnds bundle_loads [], ReloadEnds bundle_loads, ReloadBegins] s
    \<and> demo_policies \<noteq> [] \<and> oa_policies (sh_opa s) = demo_policies"
proof -
  have "shared_run demo_opa_lib golib0 (quiescent demo_opa)
      ([ReloadBegins, UpdateBegins [], UpdateEnds bundle_loads [], ReloadEnds bundle_loads] @ [ReloadBegins])
      ((quiescent demo_opa)\<lparr>sh_reload := Some demo_policies\<rparr>)"
    by (simp, rule shared_cons [OF reload_begins], simp add: quiescent_def, rule shared_cons [OF update_begins],
        rule shared_cons [OF update_ends], simp, rule shared_cons [OF reload_ends], simp add: quiescent_def,
        rule shared_cons [OF reload_begins])
      (simp_all add: quiescent_def shared_run_simps update_policies_def opa_load_snd demo_opa_def build_data_doc_def)
  from overlapping_reload_reverts_policies [OF this] this show ?thesis
    by (auto simp: demo_policies_def demo_opa_def)
qed

end
