(* ===== verification/Spec2Isabelle.thy ===== *)
theory Spec2Isabelle
  imports DemoVault OpaConcurrency
begin

text \<open>
  \<^bold>\<open>Abaris, an identity-aware MCP broker: a verification development.\<close>

  \<^bold>\<open>The program.\<close> Abaris (\<^verbatim>\<open>src/\<close>, in Go) stands between MCP clients and MCP backends. A JSON-RPC request
  arrives over HTTP or stdio; the broker resolves the caller's identity from a bearer token or a
  SAML assertion, asks an OPA policy engine, and forwards a permitted call to the backend of the
  route that the tool's prefix names, with a service credential and a signed identity assertion,
  or, on routes with a secondary provider, on behalf of the user with the user's own stored token.

  \<^bold>\<open>Theories and what they model,\<close> in the order of their imports (paths under \<^verbatim>\<open>src/internal/\<close>
  unless said otherwise). Definitions keep the source's names in snake case.

  \<^item> \<open>Prelude\<close>: \<open>act\<close> is the state monad over a world \<open>'w\<close> of which nothing is assumed; \<open>result\<close> and
    \<open>after\<close> are the two halves of a run; \<open>goerr\<close> is an error with the sentinel it wraps
    (\<^verbatim>\<open>domain/errors.go\<close>). Errors are values of a sum type; \<open>os.Exit\<close> is \<open>None\<close> or \<open>Exited\<close>.
  \<^item> \<open>GoStrings\<close>, \<open>GoUtf8\<close>, \<open>GoJson\<close>, \<open>JsonLemmas\<close>, \<open>JsonCodec\<close>, \<open>GoAny\<close>, \<open>GoText\<close>, \<open>GoPath\<close>: what the source
    uses of Go's standard library, on byte strings: \<open>strings\<close>, UTF-8, \<open>encoding/json\<close> (scanner,
    printer, struct fields with case folding, \<open>any\<close>, HTML escapes), \<open>base64\<close>, \<open>%q\<close>, \<open>path.Match\<close>.
  \<^item> \<open>Domain\<close>: \<^verbatim>\<open>domain/types.go\<close>, \<^verbatim>\<open>interfaces.go\<close>, \<^verbatim>\<open>dryrun.go\<close>, \<^verbatim>\<open>auth/authctx\<close>, \<^verbatim>\<open>proxy/credctx.go\<close>.
  \<^item> \<open>JsonRpc\<close>: \<^verbatim>\<open>proxy/jsonrpc.go\<close>. \<open>Opa\<close>: \<^verbatim>\<open>policy/opa_adapter.go\<close> and, rule by rule, \<^verbatim>\<open>src/policies/abaris.rego\<close>;
    \<open>OpaConcurrency\<close>: the loop of \<open>StartHotReload\<close> and the adapter shared by goroutines (\<open>shared_step\<close>).
  \<^item> \<open>Backends\<close>: the backend halves of \<^verbatim>\<open>proxy/sse_transport.go\<close> and \<^verbatim>\<open>proxy/sse_backend_transport.go\<close>.
  \<^item> \<open>Broker\<close> and \<open>Forwarding\<close>: \<^verbatim>\<open>proxy/broker.go\<close>; \<open>Forwarding\<close> holds the lemmas on prefix stripping.
  \<^item> \<open>OboPipeline\<close>: \<^verbatim>\<open>proxy/obo_pipeline.go\<close>, \<^verbatim>\<open>proxy/refresh_transport.go\<close>.
  \<^item> \<open>TokenStores\<close>: \<^verbatim>\<open>auth/registry.go\<close>, \<^verbatim>\<open>registry_badger.go\<close>, \<^verbatim>\<open>registry_dynamo.go\<close>.
  \<^item> \<open>ConfigLoader\<close>: \<^verbatim>\<open>config/loader.go\<close>. \<open>Inbound\<close>: the HTTP handler and \<^verbatim>\<open>proxy/stdio_transport.go\<close>.
  \<^item> \<open>ConnectHandler\<close>: \<^verbatim>\<open>proxy/connect_handler.go\<close>. \<open>Identity\<close>: \<^verbatim>\<open>auth/multi.go\<close>, \<^verbatim>\<open>auth/oidc\<close>, \<^verbatim>\<open>auth/saml\<close>.
  \<^item> \<open>Assertion\<close>: \<^verbatim>\<open>auth/assertion\<close>. \<open>Infra\<close>: \<^verbatim>\<open>infra\<close> except \<^verbatim>\<open>infra/shutdown.go\<close>, which is \<open>Shutdown\<close> (an
    interleaving of \<open>RunWithGracefulShutdown\<close>, the server, the signal and the clock). \<open>MainWiring\<close>: \<^verbatim>\<open>src/cmd/abaris/main.go\<close>.
  \<^item> \<open>System\<close> and \<open>UserTokens\<close>: the broker against a network that records every request, without and
    with the token store and the on-behalf-of pipeline. \<open>Conversation\<close>: requests and answers one by
    one, so the session protocol of the streamable HTTP transport, the reading of event streams, and
    a permitted call from the client's bytes to the backend's.
  \<^item> \<open>Frame\<close>: what the handlers leave alone. \<open>HttpSurface\<close>: the handlers that \<open>run\<close> registers and what a
    request to them sends. \<open>ProcessRun\<close>: the background loops of \<open>run\<close> as events, with every sequence
    of requests, input lines, bundle reloads and file changes a run of the process. \<open>TokenIsolation\<close>: who
    can change a user's stored tokens in a run. \<open>Interference\<close>: the lemma that authorisation survives
    when other goroutines act between any two service calls (\<open>beset_main\<close>). \<open>CallLog\<close>: the broker's
    handlers with every log record of the broker, the identity service and the policy engine.
    \<open>Demo\<close> and \<open>DemoVault\<close>: one concrete configuration, without and with a token store, on which the
    witnesses of the properties that span components are evaluated.

  \<^bold>\<open>Interfaces\<close> are locales, each interpreted on the model: \<open>engine_laws\<close> (what the broker relies on of
  a policy engine; the OPA adapter keeps it), \<open>transport_laws\<close> and \<open>client_laws\<close> (a transport that
  sees the service credential only), \<open>store_laws\<close> (a token store), \<open>kv_laws\<close>, \<open>table_laws\<close> and
  \<open>envelope\<close> (BadgerDB, DynamoDB, KMS and AES-GCM as documented; the stores built on them keep
  \<open>store_laws\<close> by \<open>sublocale\<close>), \<open>cache_laws\<close> (the identity cache) and \<open>broker_laws\<close> (what a broker
  sends once its parts are known).

  \<^bold>\<open>What the lemmas show.\<close> Of each handler, its result and final world on every branch (\<open>execution_*\<close>,
  \<open>refresh_*\<close>, \<open>obo_*\<close>, \<open>callback_*\<close>, \<open>multi_resolve_*\<close>); of each loop, what it computes
  (\<open>deep_merge_spec\<close>, \<open>filter_loop_*\<close>, \<open>aggregate_loop_*\<close>, \<open>first_message_*\<close>); of each codec, its round
  trip (\<open>json_parse_print\<close>, \<open>b64_decode_encode\<close>, \<open>unmarshal_*_json\<close>); of each state machine, its
  reachable states (\<open>opa_run_*\<close>, \<open>watch_*\<close>, \<open>shutdown_*\<close>, \<open>forward_conversation\<close>,
  \<open>run_engine\<close>, \<open>run_loader\<close>, \<open>run_sends\<close>).
  Three views of what is sent build on each other: \<open>sends\<close> for one action, \<open>broker_laws\<close> for a
  broker, \<open>run_sends\<close> for the process. \<open>keeps\<close> and the \<open>*_keeps\<close> lemmas say what a handler leaves alone, the
  \<open>*_touches\<close> lemmas whose entry of the token store it can change. \<open>opa_evaluate_spec\<close> is the
  refinement of the Rego module, its two documents and the adapter to the predicate \<open>permits\<close> on policies.

  \<^bold>\<open>Bounds and fuel.\<close> The JSON parser runs on fuel; \<open>json_parse\<close> gives it one more than twice the length of the input
  and \<open>json_fuel_enough\<close> shows that this never runs out. Its nesting bound is Go's 10000. Response
  bodies have the source's limits (32 MiB for a reply of an SSE backend). Numbers are unbounded integers:
  the source computes only with times, lengths and codes, none near the limits of \<open>int64\<close>.
  Every other function is total by its own recursion.

  \<^bold>\<open>Concurrency.\<close> Requests are served one after the other in \<open>process_run\<close>, with reloads and file changes
  as events of their own. Three theories go further: \<open>Shutdown\<close> interleaves the end of the process.
  In \<open>Interference\<close> any change of the shared state that leaves the policies in force comes before every
  call of a service; in \<open>OpaConcurrency\<close> the steps between
  the adapter's lock operations interleave, so a reload works on policies that an update has replaced.

  \<^bold>\<open>Not modelled.\<close> The log records of the transports, the token stores, the on-behalf-of pipeline, the
  minter and the start-up, since nothing reads them back; what a Rego module that was changed on disk
  would decide (a reload is given by its outcome, \<open>bundle_outcome\<close>: the repository's module loads, or it
  fails); the cancellation of contexts; torn reads, which only \<open>Broker.UpdateRoutes\<close> could cause, in a
  callback that is never run; the listeners of \<open>net/http\<close>, their time limits and the cleaning of
  request paths (a path is its list of segments here); what an \<open>http.Client\<close> does with a request that
  it was given (connections, redirects); the AWS clients. Signature checks (OIDC, SAML), KMS, AES-GCM,
  HMAC, the OAuth2 and cache libraries, BadgerDB, DynamoDB, YAML, the file system, \<open>glob.match\<close> and the
  clock are parameters, and what is relied on of them is a named hypothesis or a locale.
\<close>

section \<open>From the broker's entry point to the wire\<close>

text \<open>
  A backend hears of a tool call only when the policies in force allow it. Over the OPA
  engine, each request that \<open>Handle\<close> makes for a \<open>tools/call\<close> goes to the backend of the route of
  the tool's prefix, with the service credential of that route as its only credential, and some
  policy of a group of the resolved caller allows the tool while none denies it.
\<close>

lemma calls_reach_permitted_backends:
  assumes "plain_broker G check answer b" and "bk_policy b = opa_engine L G'' nt_rest"
    and "opa_wf (nt_rest (after (bk_identity b c) w))"
    and "parse_tool_call G' data = Inr call" and "tc_method call = ''tools/call''"
    and "s \<in> set (new_sent (handle G' b c data) w)"
  shows "\<exists>idn route. result (bk_identity b c) w = Inr idn
    \<and> find_route (tool_prefix (tool_name_from_call call)) (bk_routes b) = Some route
    \<and> route_request b c route s
    \<and> permits L (oa_policies (nt_rest (after (bk_identity b c) w))) (id_groups idn) (tool_name_from_call call)"
  using broker_laws.handle_sends [OF plain_broker_laws [OF assms(1)] assms(6)] assms(2-5) opa_says_yes
  by (fastforce simp: opa_engine_def tool_name_dry)

section \<open>Two readings of a name\<close>

text \<open>What a reader with exact keys takes as the name of the tool.\<close>

definition exact_name :: "tool_call \<Rightarrow> string option" where
  "exact_name call =
     (case tc_params call of
        None \<Rightarrow> None
      | Some ps \<Rightarrow> (case params_map ps of
          None \<Rightarrow> None
        | Some m \<Rightarrow> (case map_of m ''name'' of None \<Rightarrow> None | Some j \<Rightarrow> raw_string j)))"

definition two_names :: "string \<Rightarrow> string \<Rightarrow> json" where
  "two_names a b = JObj [(''name'', JStr (quote a)), (''Name'', JStr (quote b))]"

lemma name_folds: "fold_name ''name'' = ''NAME''" "fold_name ''Name'' = ''NAME''" "''Name'' < ''name''"
  by code_simp+

lemma name_plain: "plain_text ''name''" "plain_text ''Name''"
  by (simp_all add: plain_text_def html_char_def)

lemma two_names_parse: "json_parse (json_print (two_names a b)) = Some (two_names a b)"
  unfolding two_names_def
  by (rule json_parse_print) (simp_all add: name_plain plain_text_ok quote_ok max_nesting_def)

lemma two_names_map:
  "params_map (json_print (two_names a b)) = Some [(''Name'', JStr (quote b)), (''name'', JStr (quote a))]"
  unfolding params_map_def two_names_parse
  by (simp add: two_names_def name_plain plain_text_unquote name_folds)

lemma two_names_tool:
  assumes "tc_params call = Some (json_print (two_names a b))"
  shows "tool_name_from_call call = to_valid b"
  unfolding tool_name_from_call_def assms unmarshal_string_def option.case two_names_parse
  by (simp add: two_names_def get_string_def field_vals_Cons name_plain plain_text_unquote name_folds unquote_quote)

lemma two_names_stripped:
  assumes "tc_params call = Some (json_print (two_names (pre @ ''/'' @ a) b))" and "utf8_valid (pre @ ''/'' @ a)" and "pre \<noteq> []"
  shows "strip_prefix_from_call call pre =
    call\<lparr>tc_params := Some (json_print (JObj [(''Name'', JStr (quote b)), (''name'', JStr (quote a))]))\<rparr>"
proof -
  have parse: "json_parse (json_print (two_names (pre @ ''/'' @ a) b)) =
      Some (JObj [(''name'', JStr (quote (pre @ ''/'' @ a))), (''Name'', JStr (quote b))])"
    by (simp only: two_names_parse) (simp only: two_names_def)
  have name: "map_of [(''Name'', JStr (quote b)), (''name'', JStr (quote (pre @ ''/'' @ a)))] ''name'' =
      Some (JStr (quote (pre @ ''/'' @ a)))"
    by simp
  have "''Name'' \<noteq> ''name''" "\<not> ''name'' < ''Name''" by code_simp+
  then show ?thesis
    using strip_prefix_unfold [OF assms(1,3) parse two_names_map name unquote_quote_valid [OF assms(2)]]
    by (simp add: name_plain plain_text_quote del: json_print.simps)
qed

lemma two_names_exact:
  assumes "tc_params call = Some (json_print (JObj [(''Name'', JStr (quote b)), (''name'', JStr (quote a))]))" and "utf8_valid a"
  shows "exact_name call = Some a"
proof -
  have j: "json_parse (json_print (JObj [(''Name'', JStr (quote b)), (''name'', JStr (quote a))])) =
      Some (JObj [(''Name'', JStr (quote b)), (''name'', JStr (quote a))])"
    by (rule json_parse_print) (simp_all add: name_plain plain_text_ok quote_ok max_nesting_def)
  have "\<not> ''name'' < ''Name''" by code_simp
  then show ?thesis
    unfolding exact_name_def assms(1) option.case params_map_def j json.case
    by (simp add: name_plain plain_text_unquote name_folds raw_string_def assms(2))
qed

text \<open>
  C9: A second spelling of \<open>name\<close> gets past the policies. The policy engine and the router read
  \<open>params\<close> into a struct, which takes the last member that is \<open>name\<close> in any case; the prefix is
  stripped from a map, which takes the exact key. So of a call with \<open>name\<close> and then \<open>Name\<close> the
  policies see the second, exactly as if it were alone, while a backend that reads \<open>name\<close> is
  asked for the first.
\<close>

theorem second_name_bypasses_policies:
  assumes "tc_params call = Some (json_print (two_names (pre @ ''/'' @ hidden) shown))"
    and "utf8_valid (pre @ ''/'' @ hidden)" and "utf8_valid hidden" and "utf8_valid shown" and "pre \<noteq> []"
    and "tool_name_from_call honest = shown" and "opa_wf a"
  shows "tool_name_from_call call = shown
    \<and> opa_evaluate L a idn call = opa_evaluate L a idn honest
    \<and> exact_name (strip_prefix_from_call call pre) = Some hidden"
proof -
  have "tool_name_from_call call = shown" using two_names_tool [OF assms(1)] assms(4) by (simp add: to_valid_id)
  then show ?thesis
    using two_names_stripped [OF assms(1,2,5)] two_names_exact [OF _ assms(3)] assms(6)
      opa_evaluate_spec [OF assms(7), of L idn call] opa_evaluate_spec [OF assms(7), of L idn honest]
    by (simp add: tool_name_dry)
qed

theorem second_name_bypasses_policies_witness:
  "let call = demo_call\<lparr>tc_params := Some (json_print (two_names ''github/delete-repo'' ''github/get-x''))\<rparr> in
     says_yes (opa_evaluate demo_opa_lib demo_opa demo_caller call)
     \<and> exact_name (strip_prefix_from_call call ''github'') = Some ''delete-repo''"
proof -
  have "utf8_valid ''github/delete-repo''" "utf8_valid ''delete-repo''" "utf8_valid ''github/get-x''"
    by (simp_all add: utf8_valid_all_ascii)
  then show ?thesis
    using second_name_bypasses_policies [of "demo_call\<lparr>tc_params := Some (json_print (two_names ''github/delete-repo'' ''github/get-x''))\<rparr>"
        "''github''" "''delete-repo''" "''github/get-x''" demo_call demo_opa demo_opa_lib demo_caller] demo_opa_wf demo_yes
    by (simp add: demo_tool Let_def del: json_print.simps)
qed

section \<open>Policies from the files to the decision\<close>

lemma permits_sets:
  "permits L ps groups tool \<longleftrightarrow>
     (\<forall>g \<in> set groups. \<forall>p \<in> group_denied ps g. \<not> ol_glob L p tool)
       \<and> (\<exists>g \<in> set groups. \<exists>p \<in> group_allowed ps g. ol_glob L p tool)"
  by (auto simp: permits_def entry_matches_def group_allowed_def group_denied_def)

text \<open>
  C14: Splitting policies over files does not change what they mean. For every caller and tool,
  the engine's decision on the loader's merged list is the decision on all the files' entries
  taken together, however the groups are spread over the files and in whatever order.
\<close>

theorem merging_keeps_decisions:
  "permits L (deep_merge_policies files) groups tool \<longleftrightarrow> permits L (concat files) groups tool"
  using deep_merge_spec [of files] by (simp add: permits_sets)

lemma dry_permitted:
  "dr_permitted (dry_run cfg idn call) \<longleftrightarrow>
     dry_policy (dry_tool_name call) (id_groups idn) (cf_policies cfg) \<noteq> None
       \<and> dry_route (tool_prefix (dry_tool_name call)) (cf_routes cfg) \<noteq> None"
  by (simp add: dry_run_def Let_def split: option.splits)

lemma sorted_groups_inj:
  "sorted_wrt (<) (map pe_group ps) \<Longrightarrow> e \<in> set ps \<Longrightarrow> f \<in> set ps \<Longrightarrow> pe_group e = pe_group f \<Longrightarrow> e = f"
  by (induction ps) auto

text \<open>
  C31: For a caller with one group that has a policy, the dry run is exact: on a loaded
  configuration whose patterns for that group are ordinary text, or ordinary text and a star at the
  end, and with a glob as OPA documents it for those, it permits a call exactly when the engine's
  policies permit it and the broker has a route for it.
\<close>

theorem dry_run_agrees_for_one_group:
  assumes "config_ok G cfg" and "documented_glob (ol_glob L)"
    and "\<And>e p. e \<in> set (cf_policies cfg) \<Longrightarrow> pe_group e \<in> set (id_groups idn) \<Longrightarrow>
      p \<in> set (rs_allowed (pe_scope e)) \<union> set (rs_denied (pe_scope e)) \<Longrightarrow> simple_pattern p"
    and "\<And>e f. e \<in> set (cf_policies cfg) \<Longrightarrow> f \<in> set (cf_policies cfg) \<Longrightarrow> pe_group e \<in> set (id_groups idn) \<Longrightarrow>
      pe_group f \<in> set (id_groups idn) \<Longrightarrow> pe_group e = pe_group f"
  shows "dr_permitted (dry_run cfg idn call) \<longleftrightarrow>
    permits L (cf_policies cfg) (id_groups idn) (dry_tool_name call)
      \<and> find_route (tool_prefix (dry_tool_name call)) (cf_routes cfg) \<noteq> None"
proof -
  let ?t = "dry_tool_name call" and ?ps = "cf_policies cfg"
  have globs: "globs_agree L ?ps (id_groups idn) ?t"
    unfolding globs_agree_def using simple_pattern_glob [OF assms(2) assms(3)] by blast
  have "e = f" if "e \<in> set ?ps" "f \<in> set ?ps" "pe_group e \<in> set (id_groups idn)" "pe_group f \<in> set (id_groups idn)" for e f
    using that assms(1,4) sorted_groups_inj [of ?ps e f] by (auto simp: config_ok_def)
  then have "dry_policy ?t (id_groups idn) ?ps \<noteq> None \<longleftrightarrow> permits L ?ps (id_groups idn) ?t"
    using permits_dry_policy [OF _ globs] dry_policy_permits [OF _ globs] by blast
  then show ?thesis by (simp add: dry_permitted dry_route_find find_route_find)
qed

definition demo_config :: "policy_entry list \<Rightarrow> config" where
  "demo_config ps =
     \<lparr>cf_idps = [demo_idp], cf_secondary = [], cf_token_store = None, cf_routes = [demo_route], cf_policies = ps,
      cf_assertion = \<lparr>ac_issuer = ''https://abaris'', ac_audience = ''backend'', ac_ttl = 60, ac_kms_arn = ''arn'', ac_key_id = []\<rparr>\<rparr>"

lemma demo_config_ok: "config_ok golib0 (demo_config demo_policies)"
  by (simp add: config_ok_def tags_ok_def valid_identity_def valid_idp_def valid_routing_def valid_route_def valid_assertion_def
      valid_policy_def demo_idp_def demo_route_def demo_config_def demo_policies_def tool_prefix_takeWhile)

lemma demo_glob: "documented_glob (ol_glob demo_opa_lib)"
  by (simp add: demo_opa_lib_def path_match_documented)

theorem dry_run_agrees_for_one_group_witness:
  "dr_permitted (dry_run (demo_config demo_policies) demo_caller demo_call)"
proof -
  have "simple_pattern ''github/*''" by (simp add: simple_pattern_def ordinary_def literal_def)
  then have simple: "simple_pattern p" if "e \<in> set (cf_policies (demo_config demo_policies))"
      "p \<in> set (rs_allowed (pe_scope e)) \<union> set (rs_denied (pe_scope e))" for e p
    using that by (auto simp: demo_config_def demo_policies_def)
  have single: "pe_group e = pe_group f" if "e \<in> set (cf_policies (demo_config demo_policies))"
      "f \<in> set (cf_policies (demo_config demo_policies))" for e f
    using that by (simp add: demo_config_def demo_policies_def)
  show ?thesis
    using dry_run_agrees_for_one_group [OF demo_config_ok demo_glob simple single, where call = demo_call and idn = demo_caller] demo_permits
    by (simp add: demo_config_def demo_tool tool_prefix_takeWhile)
qed

definition clashing_policies :: "policy_entry list" where
  "clashing_policies =
     [\<lparr>pe_group = ''dev'', pe_scope = \<lparr>rs_allowed = [''github/*''], rs_denied = []\<rparr>\<rparr>,
      \<lparr>pe_group = ''intern'', pe_scope = \<lparr>rs_allowed = [''github/list-*''], rs_denied = [''github/get-*'']\<rparr>\<rparr>]"

text \<open>
  C32: For a caller with several groups it is not. The dry run looks at each policy entry by itself:
  whenever one entry of the caller's groups allows the tool and does not itself deny it, and there
  is a route for it, the dry run permits the call; but when an entry of another of the caller's
  groups denies the tool, the engine, which takes the denials of all groups together, refuses it.
\<close>

theorem dry_run_misses_denials:
  assumes "opa_wf a" and "oa_policies a = cf_policies cfg"
    and "e \<in> set (cf_policies cfg)" and "pe_group e \<in> set (id_groups idn)"
    and "x \<in> set (rs_allowed (pe_scope e))" and "path_match x (dry_tool_name call)"
    and "\<And>z. z \<in> set (rs_denied (pe_scope e)) \<Longrightarrow> \<not> path_match z (dry_tool_name call)"
    and "f \<in> set (cf_policies cfg)" and "pe_group f \<in> set (id_groups idn)"
    and "y \<in> set (rs_denied (pe_scope f))" and "ol_glob L y (dry_tool_name call)"
    and "find_route (tool_prefix (dry_tool_name call)) (cf_routes cfg) \<noteq> None"
  shows "dr_permitted (dry_run cfg idn call)
    \<and> (\<exists>d. opa_evaluate L a idn call = Inr d \<and> \<not> d_permitted d)"
proof -
  have "entry_permits (id_groups idn) (dry_tool_name call) e"
    using assms(4-7) by (auto simp: entry_permits_def)
  then have "dr_permitted (dry_run cfg idn call)"
    using assms(3,12) by (auto simp: dry_permitted dry_policy_None dry_route_find find_route_find)
  moreover have "\<not> permits L (oa_policies a) (id_groups idn) (dry_tool_name call)"
    using assms(2,8-11) by (auto simp: permits_def entry_matches_def)
  ultimately show ?thesis using opa_evaluate_spec [OF assms(1), of L idn call] by simp
qed

theorem dry_run_misses_denials_witness:
  "let caller = demo_caller\<lparr>id_groups := [''dev'', ''intern'']\<rparr>;
       engine = \<lparr>oa_path = [], oa_query = build_data_doc clashing_policies, oa_policies = clashing_policies\<rparr> in
   dr_permitted (dry_run (demo_config clashing_policies) caller demo_call)
     \<and> (\<exists>d. opa_evaluate demo_opa_lib engine caller demo_call = Inr d \<and> \<not> d_permitted d)"
proof -
  let ?a = "\<lparr>oa_path = [], oa_query = build_data_doc clashing_policies, oa_policies = clashing_policies\<rparr>"
  have wf: "opa_wf ?a" by (simp add: opa_wf_def)
  show ?thesis
    using dry_run_misses_denials [OF wf, where cfg = "demo_config clashing_policies" and e = "clashing_policies ! 0"
        and idn = "demo_caller\<lparr>id_groups := [''dev'', ''intern'']\<rparr>" and x = "''github/*''" and call = demo_call
        and f = "clashing_policies ! 1" and y = "''github/get-*''" and L = demo_opa_lib]
    by (simp add: demo_config_def clashing_policies_def demo_tool demo_match demo_opa_lib_def tool_prefix_takeWhile Let_def)
qed

section \<open>On behalf of\<close>

text \<open>
  C8: Calls on behalf of a user are refused by the policies the loader accepts. The broker strips
  the route's prefix from the call before it hands it to the pipeline, which evaluates the
  policies once more, on the stripped name; but each pattern of a validated configuration begins
  with a route's prefix. So on a configuration whose route prefixes are ordinary text (nothing a
  glob reads specially), with a glob as OPA documents it, for a call with one \<open>name\<close> member whose
  name without the prefix does not itself begin with the prefix of a route, the answer is the
  policy denial, and no token is fetched and nothing sent.
\<close>

theorem obo_calls_are_refused:
  assumes "validate_policy_routes G ps routes = None" and "\<forall>r \<in> set routes. ordinary (rt_prefix r)"
    and "documented_glob (ol_glob L)"
    and "ob_policy p = opa_engine L G get"
    and "tc_params call = Some params" and "one_name params" and "unmarshal_string ''name'' params = Some (pre @ ''/'' @ tool)"
    and "pre \<noteq> []" and "tool_prefix (to_valid tool) \<notin> rt_prefix ` set routes"
    and "result (resolve_identity p c) w = Inr (idn, c')" and "w1 = after (resolve_identity p c) w"
    and "opa_wf (get w1)" and "oa_policies (get w1) = ps"
  shows "run (obo_execute G p c (strip_prefix_from_call call pre) route) w =
    (Inr (error_response (tc_id (strip_prefix_from_call call pre)) code_policy_denied
       ''unauthorized: insufficient entitlements''), w1)"
proof -
  let ?call = "strip_prefix_from_call call pre"
  have name: "dry_tool_name ?call = to_valid tool"
    using strip_prefix_name [OF assms(5-8)] by (simp add: tool_name_dry)
  have "\<not> permits L ps (id_groups idn) (to_valid tool)"
  proof
    assume "permits L ps (id_groups idn) (to_valid tool)"
    then obtain e x where e: "e \<in> set ps" "x \<in> set (rs_allowed (pe_scope e))" "ol_glob L x (to_valid tool)"
      by (auto simp: permits_def entry_matches_def)
    then have x: "tool_prefix x \<in> rt_prefix ` set routes" using assms(1) by (auto simp: validate_policy_routes_None)
    then have "ordinary (tool_prefix x)" using assms(2) by auto
    from glob_tool_prefix [OF assms(3) this e(3)] show False using x assms(9) by simp
  qed
  then obtain d where d: "opa_evaluate L (get w1) idn ?call = Inr d" "\<not> d_permitted d"
    using opa_evaluate_spec [OF assms(12), of L idn ?call] assms(13) name by simp
  then show ?thesis
    using obo_refused [OF assms(10,11), of ?call d G route] assms(4) by (simp add: opa_engine_def)
qed

theorem obo_calls_are_refused_witness:
  "result (obo_execute golib0 demo_pipeline background (strip_prefix_from_call demo_call ''github'') demo_obo_route) demo_world =
     Inr (error_response (tc_id (strip_prefix_from_call demo_call ''github'')) code_policy_denied
       ''unauthorized: insufficient entitlements'')"
proof -
  have routes: "validate_policy_routes golib0 demo_policies [demo_obo_route] = None" "\<forall>r \<in> set [demo_obo_route]. ordinary (rt_prefix r)"
    by (simp_all add: demo_policies_def demo_obo_route_def tool_prefix_takeWhile ordinary_def literal_def)
  have policy: "ob_policy demo_pipeline = opa_engine demo_opa_lib golib0 nt_rest" by (simp add: demo_pipeline_def)
  have params: "tc_params demo_call = Some (json_print demo_params)" by (simp add: demo_call_def)
  have tool: "tool_prefix (to_valid ''get-x'') \<notin> rt_prefix ` set [demo_obo_route]"
  proof -
    have "to_valid ''get-x'' = ''get-x''" by (simp add: to_valid_id utf8_valid_all_ascii)
    then show ?thesis by (simp add: demo_obo_route_def tool_prefix_takeWhile)
  qed
  have idn: "run (resolve_identity demo_pipeline background) demo_world = (Inr (demo_caller, background), demo_world)"
    using resolve_identity_ok [of demo_pipeline background demo_world demo_caller] by (simp add: demo_pipeline_def)
  have i: "result (resolve_identity demo_pipeline background) demo_world = Inr (demo_caller, background)"
      "demo_world = after (resolve_identity demo_pipeline background) demo_world"
    using idn by (simp_all add: result_def after_def)
  have wf: "opa_wf (nt_rest demo_world)" "oa_policies (nt_rest demo_world) = demo_policies" using demo_opa_wf by simp_all
  show ?thesis
    using obo_calls_are_refused [OF routes demo_glob policy params demo_one_name demo_unmarshal _ tool i wf]
    by (simp add: result_def)
qed

section \<open>Connections\<close>

text \<open>
  C24: A refresh that fails disconnects the user: the pair is deleted and the caller gets
  \<open>ErrServiceUnavailable\<close>; over a store that keeps its contract, the user has no stored pair for
  that provider afterwards when the deletion succeeds. It need not be the pair that was read: the
  refresher may do anything, also wait while another request of the user refreshes and saves.
\<close>

theorem failed_refresh_disconnects:
  assumes "store_laws st view key_ok ok" and "key_ok u"
    and "result (inner req) w = Inr resp" and "hr_status resp = 401"
    and "cx_obo (rq_ctx req) = Some \<lparr>oc_store = st, oc_user = u, oc_provider = p\<rparr>"
    and "result (ts_get st u p) (after (inner req) w) = Inr cur"
    and "w1 = after (ts_get st u p) (after (inner req) w)"
    and "result (refresh u p (tp_refresh cur)) w1 = Inl e" and "w2 = after (refresh u p (tp_refresh cur)) w1"
    and "result (ts_delete st u p) w2 = None"
  shows "\<exists>e' w3. run (refresh_round_trip inner (Some refresh) req) w = (Inl e', w3)
    \<and> err_is e' = ErrServiceUnavailable \<and> view w3 (u, p) = None"
  using refresh_fail [where inner = inner and refresh = refresh, OF assms(3-8)]
    store_laws.delete_view [OF assms(1,2,2,10), of p] assms(9)
  by simp

definition demo_disk_request :: "disk http_request" where
  "demo_disk_request = \<lparr>rq_method = ''POST'', rq_url = ''http://github'', rq_header = [(''Authorization'', ''Bearer old'')],
     rq_body = Some ''{}'', rq_ctx = with_obo_context background (badger_store golib0 mem_badger) ''ann'' ''github''\<rparr>"

definition disk_inner :: "disk round_tripper" where
  "disk_inner req = ret (Inr \<lparr>hr_status = (if map_of (rq_header req) ''Authorization'' = Some ''Bearer new'' then 200 else 401),
     hr_header = (\<lambda>_. []), hr_body = \<lparr>hb_bytes = [], hb_error = None, hb_no_body = False\<rparr>\<rparr>)"

definition connected_disk :: disk where
  "connected_disk = demo_disk\<lparr>dk_kv := [badger_key ''ann'' ''github'' \<mapsto> pair_json demo_pair]\<rparr>"

text \<open>
  The witness is such an overlap. The provider takes a refresh token once (it keeps the used ones in
  the table); a second request of the same user refreshes, saves the new pair and is answered
  before the first one asks the provider, which then refuses, and the new pair is deleted.
\<close>

definition new_pair :: token_pair where
  "new_pair = \<lparr>tp_access = ''new'', tp_refresh = ''second''\<rparr>"

definition one_time_refresh :: "disk token_refresher" where
  "one_time_refresh u p t = State (\<lambda>d.
     if dk_items d (t, []) = None then (Inr new_pair, d\<lparr>dk_items := (dk_items d)((t, []) \<mapsto> [])\<rparr>)
     else (Inl (plain_err ''invalid_grant''), d))"

definition overtaken_refresh :: "disk token_refresher" where
  "overtaken_refresh u p t =
     State_Monad.bind (refresh_round_trip disk_inner (Some one_time_refresh) demo_disk_request) (\<lambda>_. one_time_refresh u p t)"

definition refreshed_disk :: disk where
  "refreshed_disk = connected_disk\<lparr>dk_items := [(tp_refresh demo_pair, []) \<mapsto> []],
     dk_kv := [badger_key ''ann'' ''github'' \<mapsto> pair_json new_pair]\<rparr>"

lemma new_pair_ok [simp]: "pair_ok new_pair"
  by (simp add: new_pair_def pair_ok_def utf8_valid_all_ascii)

lemma disk_request_context:
  "cx_obo (rq_ctx demo_disk_request) = Some \<lparr>oc_store = badger_store golib0 mem_badger, oc_user = ''ann'', oc_provider = ''github''\<rparr>"
  by (simp add: demo_disk_request_def with_obo_context_def)

lemma disk_inner_refuses:
  "result (disk_inner demo_disk_request) w = Inr \<lparr>hr_status = 401, hr_header = (\<lambda>_. []), hr_body = \<lparr>hb_bytes = [], hb_error = None, hb_no_body = False\<rparr>\<rparr>"
  "after (disk_inner r) w = w"
  by (simp_all add: disk_inner_def demo_disk_request_def)

lemma connected_get:
  "result (ts_get (badger_store golib0 mem_badger) ''ann'' ''github'') connected_disk = Inr demo_pair"
  "after (ts_get (badger_store golib0 mem_badger) ''ann'' ''github'') connected_disk = connected_disk"
  by (simp_all add: badger_defs mem_badger_def connected_disk_def demo_disk_def world_simps unmarshal_pair_json demo_pair_ok)

lemma first_refresh:
  "after (refresh_round_trip disk_inner (Some one_time_refresh) demo_disk_request) connected_disk = refreshed_disk"
proof -
  have r: "result (one_time_refresh ''ann'' ''github'' (tp_refresh demo_pair)) connected_disk = Inr new_pair"
    by (simp add: one_time_refresh_def connected_disk_def demo_disk_def world_simps)
  have "after (ts_save (badger_store golib0 mem_badger) ''ann'' ''github'' new_pair)
      (after (one_time_refresh ''ann'' ''github'' (tp_refresh demo_pair)) connected_disk) = refreshed_disk"
    by (simp add: one_time_refresh_def refreshed_disk_def connected_disk_def demo_disk_def badger_defs mem_badger_def world_simps)
  then show ?thesis
    using refresh_retry [where inner = disk_inner and refresh = one_time_refresh,
        OF disk_inner_refuses(1) _ disk_request_context, unfolded disk_inner_refuses(2),
        OF _ connected_get(1) refl, unfolded connected_get(2), OF _ r refl]
    by (simp add: run_result_after disk_inner_refuses(2))
qed

theorem failed_refresh_disconnects_witness:
  "\<exists>e w. run (refresh_round_trip disk_inner (Some overtaken_refresh) demo_disk_request) connected_disk = (Inl e, w)
     \<and> err_is e = ErrServiceUnavailable \<and> kv_view dk_kv w (''ann'', ''github'') = None
     \<and> kv_view dk_kv (after (refresh_round_trip disk_inner (Some one_time_refresh) demo_disk_request) connected_disk)
         (''ann'', ''github'') = Some new_pair"
proof -
  let ?st = "badger_store golib0 mem_badger"
  have f: "result (overtaken_refresh ''ann'' ''github'' (tp_refresh demo_pair)) connected_disk = Inl (plain_err ''invalid_grant'')"
      "refreshed_disk = after (overtaken_refresh ''ann'' ''github'' (tp_refresh demo_pair)) connected_disk"
    by (simp_all add: overtaken_refresh_def world_simps first_refresh) (simp_all add: one_time_refresh_def refreshed_disk_def world_simps)
  have x: "result (ts_delete ?st ''ann'' ''github'') refreshed_disk = None"
    by (simp add: badger_defs mem_badger_def refreshed_disk_def connected_disk_def demo_disk_def world_simps)
  have "kv_view dk_kv refreshed_disk (''ann'', ''github'') = Some new_pair"
    by (simp add: kv_view_def refreshed_disk_def unmarshal_pair_json)
  then show ?thesis
    using failed_refresh_disconnects [where inner = disk_inner and refresh = overtaken_refresh and w = connected_disk,
        OF mem_kv.badger_laws [of golib0] _ disk_inner_refuses(1) _ disk_request_context _ _ f(1) f(2) x]
    by (simp add: no_colon_def first_refresh disk_inner_refuses(2) connected_get)
qed

end
